(* ===== verification/Prelude.thy ===== *)
theory Prelude
  imports Main "HOL-Library.Word" "HOL-Library.Monad_Syntax" "HOL-Library.Signed_Division"
begin

text \<open>
  Shared vocabulary of the development: the machine types of the i386 target, the status
  codes of \<^verbatim>\<open>src/status.h\<close>, the constants of \<^verbatim>\<open>src/config.h\<close>, the error macros of
  \<^verbatim>\<open>src/kernel.h\<close>, and the generic facts on words, lists and options that several
  components use.

  Conventions. Addresses, \<open>size_t\<close> and \<open>uint32_t\<close> values are 32-bit words, characters
  are 8-bit words (read as signed where the code reads them as \<open>char\<close>). A C \<open>int\<close> that only
  carries a status or a table index is an \<open>int\<close>; an \<open>int\<close> on which the code computes is a
  32-bit word. A function whose C body may never come back (a \<open>panic\<close>, an endless loop) or
  that may write outside the table it manages returns an option, and \<open>None\<close> is that outcome.
\<close>

unbundle bit_operations_syntax

section \<open>Machine types\<close>

type_synonym u8 = "8 word"
type_synonym u16 = "16 word"
type_synonym u32 = "32 word"

text \<open>The collections that the component theories fill and that their proofs use.\<close>

named_theorems status_simps \<open>unfolds the status codes\<close>
named_theorems frame_simps \<open>what an operation leaves unchanged\<close>
named_theorems mem_simps \<open>reading memory back after a write\<close>

section \<open>Status codes\<close>

definition PEACHOS_ALL_OK :: int where [status_simps]: "PEACHOS_ALL_OK = 0"
definition EIO :: int where [status_simps]: "EIO = 1"
definition EINVARG :: int where [status_simps]: "EINVARG = 2"
definition ENOMEM :: int where [status_simps]: "ENOMEM = 3"
definition EBADPATH :: int where [status_simps]: "EBADPATH = 4"
definition EFSNOTUS :: int where [status_simps]: "EFSNOTUS = 5"
definition ERDONLY :: int where [status_simps]: "ERDONLY = 6"
definition EUNIMP :: int where [status_simps]: "EUNIMP = 7"
definition EISTKN :: int where [status_simps]: "EISTKN = 8"
definition EINVELFTYPE :: int where [status_simps]: "EINVELFTYPE = 9"
definition EINFORMAT :: int where [status_simps]: "EINFORMAT = 10"

text \<open>The macros of \<^verbatim>\<open>src/kernel.h\<close> that carry a status through a pointer.\<close>

definition ERROR :: "int \<Rightarrow> u32" where "ERROR value = word_of_int value"
definition ERROR_I :: "u32 \<Rightarrow> int" where "ERROR_I value = sint value"
definition ISERR :: "int \<Rightarrow> bool" where [status_simps]: "ISERR value \<longleftrightarrow> value < 0"

section \<open>Configuration\<close>

abbreviation (input) PEACHOS_HEAP_SIZE_BYTES :: u32 where "PEACHOS_HEAP_SIZE_BYTES \<equiv> 104857600"
abbreviation (input) PEACHOS_HEAP_BLOCK_SIZE :: u32 where "PEACHOS_HEAP_BLOCK_SIZE \<equiv> 4096"
abbreviation (input) PEACHOS_HEAP_ADDRESS :: u32 where "PEACHOS_HEAP_ADDRESS \<equiv> 0x01000000"

section \<open>Words\<close>

lemma word_less_unat: "(a :: 'a::len word) < b \<longleftrightarrow> unat a < unat b"
  by (rule word_less_nat_alt)

lemma word_le_unat: "(a :: 'a::len word) \<le> b \<longleftrightarrow> unat a \<le> unat b"
  by (rule word_le_nat_alt)

lemma unat_u32_lt: "unat (a :: u32) < 4294967296"
  using unsigned_less [of a] by simp

lemma unat_add_small:
  "unat (a :: 'a::len word) + unat b < 2 ^ LENGTH('a) \<Longrightarrow> unat (a + b) = unat a + unat b"
  by (rule unat_add_lem [THEN iffD1])

lemma unat_of_nat_u32: "n < 4294967296 \<Longrightarrow> unat (of_nat n :: u32) = n"
  by (simp add: unat_of_nat take_bit_eq_mod)

lemma unat_Suc_u32: "unat (i :: u32) < unat (e :: u32) \<Longrightarrow> unat (i + 1) = Suc (unat i)"
  using unat_u32_lt [of e] by (simp add: unat_word_ariths)

lemma sint_eq_unat:
  assumes "unat (a :: u32) < 2147483648"
  shows "sint a = int (unat a)"
proof -
  have u: "uint a = int (unat a)" by simp
  have "uint a < 2147483648" unfolding u using assms by linarith
  moreover have "- (2 ^ 31) \<le> uint a" by (rule order_trans [of _ 0]) simp_all
  ultimately have "signed_take_bit 31 (uint a) = uint a" by (intro signed_take_bit_int_eq_self) auto
  then show ?thesis by (simp add: sint_uint)
qed

lemma sint_of_int_u32: "sint (word_of_int k :: u32) = signed_take_bit 31 k"
  by (simp add: signed_of_int)

lemma sint_neg_unat:
  assumes "2147483648 \<le> unat (a :: u32)"
  shows "sint a = int (unat a) - 4294967296"
proof -
  have u: "uint a = int (unat a)" by simp
  have l: "2147483648 \<le> uint a" unfolding u using assms by linarith
  have "uint a < 4294967296" unfolding u using unat_u32_lt [of a] by linarith
  with l have "signed_take_bit 31 (uint a - 4294967296) = uint a - 4294967296"
    by (intro signed_take_bit_int_eq_self) auto
  moreover have a: "word_of_int (uint a - 4294967296) = a" by simp
  have "sint a = signed_take_bit 31 (uint a - 4294967296)"
    by (subst (1) a [symmetric], rule sint_of_int_u32)
  ultimately show ?thesis using u by linarith
qed

lemma sint_small_int: "0 \<le> k \<Longrightarrow> k < 2147483648 \<Longrightarrow> sint (word_of_int k :: u32) = k"
  unfolding sint_of_int_u32 by (intro signed_take_bit_int_eq_self) auto

lemma sdiv_nat: "int p sdiv int q = int (p div q)"
  by (cases "p = 0") (auto simp: signed_divide_int_def zdiv_int)

lemma smod_nat: "int p smod int q = int (p mod q)"
  by (cases "p = 0") (auto simp: signed_modulo_int_def zmod_int)

text \<open>The bytes of a memory range that does not wrap around.\<close>

definition in_range :: "u32 \<Rightarrow> u32 \<Rightarrow> nat \<Rightarrow> bool" where
  "in_range a p n \<longleftrightarrow> unat p \<le> unat a \<and> unat a < unat p + n"

lemma in_range_diff:
  assumes "unat p + n \<le> 4294967296"
  shows "in_range a p n \<longleftrightarrow> unat (a - p) < n"
proof (cases "unat p \<le> unat a")
  case True
  then show ?thesis by (auto simp: in_range_def unat_sub word_le_nat_alt)
next
  case False
  then have "unat (a - p) = unat a + 4294967296 - unat p"
    using unat_sub_if' [of a p] by simp
  with False assms show ?thesis by (auto simp: in_range_def)
qed

section \<open>Lists\<close>

lemma list_update_append_here [simp]: "(xs @ y # ys)[length xs := z] = xs @ z # ys"
  by (simp add: list_update_append)

lemma replicate_Suc_snoc: "replicate (Suc n) x = replicate n x @ [x]"
  by (simp add: replicate_append_same)

end
