(* ===== verification/Memory.thy ===== *)
theory Memory
  imports Prelude
begin

text \<open>
  Raw memory: the 4 GB of bytes the kernel sees with an identity mapping, as a total function
  from addresses to bytes, and the three routines of \<^verbatim>\<open>src/memory/memory.c\<close> on it.
  Page directories, page tables, pointer arrays, buffers and user memory live here. A 32-bit
  cell (\<open>uint32_t\<close>, a pointer) is four bytes in little-endian order: \<open>load32\<close> and \<open>store32\<close> are
  what the compiler emits for a read and a write of one.
\<close>

type_synonym mem = "u32 \<Rightarrow> u8"

section \<open>The code\<close>

text \<open>The loop counter of \<open>memset\<close> is compared with the unsigned \<open>size\<close>, so it runs \<open>size\<close>
  times; \<open>while (len--)\<close> of \<open>memcpy\<close> runs \<open>len\<close> times, \<open>len\<close> read as unsigned;
  \<open>while (count-- > 0)\<close> of \<open>memcmp\<close> does not run for a negative \<open>count\<close>. The result of \<open>memcmp\<close>
  compares plain \<open>char\<close>s, which are signed.\<close>

fun memset_loop :: "mem \<Rightarrow> u32 \<Rightarrow> u8 \<Rightarrow> nat \<Rightarrow> mem" where
  "memset_loop m p c 0 = m"
| "memset_loop m p c (Suc k) = memset_loop (m(p := c)) (p + 1) c k"

definition memset :: "mem \<Rightarrow> u32 \<Rightarrow> u32 \<Rightarrow> u32 \<Rightarrow> mem" where
  "memset m ptr c sz = memset_loop m ptr (ucast c) (unat sz)"

fun memcmp_loop :: "mem \<Rightarrow> u32 \<Rightarrow> u32 \<Rightarrow> nat \<Rightarrow> int" where
  "memcmp_loop m c1 c2 0 = 0"
| "memcmp_loop m c1 c2 (Suc k) =
     (if m c1 \<noteq> m c2 then (if sint (m c1) < sint (m c2) then - 1 else 1)
      else memcmp_loop m (c1 + 1) (c2 + 1) k)"

definition memcmp :: "mem \<Rightarrow> u32 \<Rightarrow> u32 \<Rightarrow> u32 \<Rightarrow> int" where
  "memcmp m s1 s2 count = memcmp_loop m s1 s2 (nat (sint count))"

fun memcpy_loop :: "mem \<Rightarrow> u32 \<Rightarrow> u32 \<Rightarrow> nat \<Rightarrow> mem" where
  "memcpy_loop m d s 0 = m"
| "memcpy_loop m d s (Suc k) = memcpy_loop (m(d := m s)) (d + 1) (s + 1) k"

definition memcpy :: "mem \<Rightarrow> u32 \<Rightarrow> u32 \<Rightarrow> u32 \<Rightarrow> mem" where
  "memcpy m dest src len = memcpy_loop m dest src (unat len)"

definition load32 :: "mem \<Rightarrow> u32 \<Rightarrow> u32" where
  "load32 m a = ucast (m a) OR push_bit 8 (ucast (m (a + 1))) OR
     push_bit 16 (ucast (m (a + 2))) OR push_bit 24 (ucast (m (a + 3)))"

definition store32 :: "mem \<Rightarrow> u32 \<Rightarrow> u32 \<Rightarrow> mem" where
  "store32 m a v = m(a := ucast v, a + 1 := ucast (drop_bit 8 v),
     a + 2 := ucast (drop_bit 16 v), a + 3 := ucast (drop_bit 24 v))"

definition load16 :: "mem \<Rightarrow> u32 \<Rightarrow> u16" where
  "load16 m a = ucast (m a) OR push_bit 8 (ucast (m (a + 1)))"

section \<open>Closed forms\<close>

lemma unat_diff_one:
  assumes "(a :: u32) \<noteq> p"
  shows "unat (a - p) = Suc (unat (a - (p + 1)))"
proof -
  have "unat (a - p) \<noteq> 0" using assms by (simp add: unat_eq_0)
  then have "unat (a - p - 1) = unat (a - p) - 1"
    by (simp add: unat_sub word_le_nat_alt)
  moreover have "a - (p + 1) = a - p - 1" by (simp add: algebra_simps)
  ultimately show ?thesis using \<open>unat (a - p) \<noteq> 0\<close> by (metis One_nat_def Suc_pred' gr0I)
qed

lemma unat_pred_self: "unat (d - (d + 1) :: u32) = 4294967295"
proof -
  have d: "d - (d + 1) = -1" by (simp only: diff_add_eq_diff_diff_swap) simp
  show ?thesis unfolding d unsigned_minus_1_eq_mask mask_eq_exp_minus_1 by simp
qed

lemma memset_loop_eq:
  "n \<le> 4294967296 \<Longrightarrow> memset_loop m p c n = (\<lambda>a. if unat (a - p) < n then c else m a)"
proof (induction n arbitrary: m p)
  case (Suc k)
  show ?case
  proof
    fix a
    show "memset_loop m p c (Suc k) a = (if unat (a - p) < Suc k then c else m a)"
      using Suc unat_diff_one [of a p] by (cases "a = p") (auto simp del: add_uminus_conv_diff)
  qed
qed simp

lemma memset_eq: "memset m p c n = (\<lambda>a. if unat (a - p) < unat n then ucast c else m a)"
  unfolding memset_def using unat_u32_lt [of n] by (intro memset_loop_eq) simp

text \<open>Copying between ranges that do not overlap; the distances are taken modulo \<open>2 ^ 32\<close>.\<close>

lemma memcpy_loop_eq:
  assumes "\<And>i j. i < n \<Longrightarrow> j < n \<Longrightarrow> d + of_nat i \<noteq> s + of_nat j" and "n \<le> 4294967296"
  shows "memcpy_loop m d s n = (\<lambda>a. if unat (a - d) < n then m (s + (a - d)) else m a)"
  using assms
proof (induction n arbitrary: m d s)
  case (Suc k)
  have ne: "d + 1 + of_nat i \<noteq> s + 1 + of_nat j" if "i < k" "j < k" for i j
    using Suc.prems(1) [of "Suc i" "Suc j"] that by (simp add: algebra_simps)
  have ds: "s + 1 + of_nat j \<noteq> d" if "j < k" for j
    using Suc.prems(1) [of 0 "Suc j"] that by (simp add: algebra_simps)
  show ?case
  proof
    fix a
    have IH: "memcpy_loop (m(d := m s)) (d + 1) (s + 1) k a =
        (if unat (a - (d + 1)) < k then (m(d := m s)) (s + 1 + (a - (d + 1))) else (m(d := m s)) a)"
      using Suc.IH [of "d + 1" "s + 1"] ne Suc.prems(2) by simp
    show "memcpy_loop m d s (Suc k) a = (if unat (a - d) < Suc k then m (s + (a - d)) else m a)"
    proof (cases "a = d")
      case True
      have "unat (d - (d + 1)) \<ge> k"
        using Suc.prems(2) by (simp add: unsigned_minus_1_eq_mask mask_eq_exp_minus_1)
      with IH True show ?thesis by simp
    next
      case False
      have "s + 1 + (a - (d + 1)) = s + (a - d)" by simp
      moreover have "s + (a - d) \<noteq> d" if "unat (a - (d + 1)) < k"
        using ds [OF that] by simp
      ultimately show ?thesis using IH False unat_diff_one [OF False] by auto
    qed
  qed
qed simp

section \<open>Words in memory\<close>

definition aligned4 :: "u32 \<Rightarrow> bool" where
  "aligned4 a \<longleftrightarrow> unat a mod 4 = 0"

lemma load32_store32 [mem_simps, simp]: "load32 (store32 m a v) a = v"
proof (rule bit_word_eqI)
  fix n
  assume "n < LENGTH(32)"
  then have n: "n < 32" by simp
  consider "n < 8" | "8 \<le> n \<and> n < 16" | "16 \<le> n \<and> n < 24" | "24 \<le> n" by linarith
  then show "bit (load32 (store32 m a v) a) n = bit v n"
    by cases (use n in \<open>auto simp: load32_def store32_def bit_simps\<close>)
qed

lemma aligned4_unat: "aligned4 a \<Longrightarrow> k < 4 \<Longrightarrow> unat (a + of_nat k) = unat a + k"
proof -
  assume "aligned4 a" "k < 4"
  then obtain q where q: "unat a = 4 * q" unfolding aligned4_def by (metis mod_0_imp_dvd dvdE)
  with unat_u32_lt [of a] have "q < 1073741824" by linarith
  then have "4 * q + k < 4294967296" using \<open>k < 4\<close> by linarith
  with q \<open>k < 4\<close> show ?thesis by (simp add: unat_word_ariths unat_of_nat_u32)
qed

lemma aligned4_bytes:
  "aligned4 a \<Longrightarrow> unat (a + 1) = unat a + 1 \<and> unat (a + 2) = unat a + 2 \<and> unat (a + 3) = unat a + 3"
  using aligned4_unat [of a 1] aligned4_unat [of a 2] aligned4_unat [of a 3] by simp

lemma load32_cong:
  "m' a = m a \<Longrightarrow> m' (a + 1) = m (a + 1) \<Longrightarrow> m' (a + 2) = m (a + 2) \<Longrightarrow> m' (a + 3) = m (a + 3) \<Longrightarrow>
   load32 m' a = load32 m a"
  by (simp add: load32_def)

lemma store32_frame:
  "aligned4 a \<Longrightarrow> \<not> in_range b a 4 \<Longrightarrow> store32 m a v b = m b"
  using aligned4_bytes [of a] by (auto simp: store32_def in_range_def)

lemma load32_store32_other [mem_simps]:
  assumes "aligned4 a" "aligned4 b" "a \<noteq> b"
  shows "load32 (store32 m a v) b = load32 m b"
proof -
  from assms(1,2) obtain p q where "unat a = 4 * p" "unat b = 4 * q"
    unfolding aligned4_def by (metis mod_0_imp_dvd dvdE)
  moreover from this assms(3) have "p \<noteq> q" by (auto simp: word_unat_eq_iff)
  ultimately show ?thesis
    using aligned4_bytes [OF assms(2)]
    by (intro load32_cong store32_frame [OF assms(1)]) (auto simp: in_range_def)
qed

lemma load32_memset_out:
  assumes "\<And>k. k < 4 \<Longrightarrow> \<not> unat (a + of_nat k - p) < unat n"
  shows "load32 (memset m p c n) a = load32 m a"
  using assms [of 0] assms [of 1] assms [of 2] assms [of 3]
  by (intro load32_cong) (simp_all add: memset_eq)

end
