(* ===== verification/Gdt.thy ===== *)
theory Gdt
  imports Memory
begin

text \<open>
  The segment descriptors of \<^verbatim>\<open>src/gdt/gdt.c\<close>: a readable description of each segment is packed into
  the eight bytes the processor wants. What the processor reads out of those bytes is written down
  beside it, and the theorem says that the two agree for every table the code accepts.
\<close>

section \<open>The code\<close>

record gdt_structured =
  gs_base :: u32
  gs_limit :: u32
  gs_type :: u8

text \<open>\<open>None\<close> is the panic. The parameter \<open>src\<close> is a copy, so the shift of its limit stays local.\<close>

definition encodeGdtEntry :: "u32 \<Rightarrow> gdt_structured \<Rightarrow> mem \<Rightarrow> mem option" where
  "encodeGdtEntry target src m =
     (if gs_limit src > 65536 \<and> gs_limit src AND 0xFFF \<noteq> 0xFFF then None
      else let m = m(target + 6 := 0x40);
               (limit, m) = (if gs_limit src > 65536
                             then (drop_bit 12 (gs_limit src), m(target + 6 := 0xc0)) else (gs_limit src, m));
               m = m(target := ucast (limit AND 0xFF));
               m = m(target + 1 := ucast (drop_bit 8 limit AND 0xFF));
               m = m(target + 2 := ucast (gs_base src AND 0xFF));
               m = m(target + 3 := ucast (drop_bit 8 (gs_base src) AND 0xFF));
               m = m(target + 4 := ucast (drop_bit 16 (gs_base src) AND 0xFF));
               m = m(target + 5 := gs_type src);
               m = m(target + 6 := ucast (ucast (m (target + 6)) OR (drop_bit 16 limit AND 0xFF)));
               m = m(target + 7 := ucast (drop_bit 24 (gs_base src) AND 0xFF))
           in Some m)"

fun gdt_structured_to_gdt :: "u32 \<Rightarrow> gdt_structured list \<Rightarrow> mem \<Rightarrow> mem option" where
  "gdt_structured_to_gdt gdt [] m = Some m"
| "gdt_structured_to_gdt gdt (s # rest) m = do {
     m \<leftarrow> encodeGdtEntry gdt s m;
     gdt_structured_to_gdt (gdt + 8) rest m
   }"

section \<open>What the processor reads\<close>

text \<open>The base and access bytes of a descriptor, and the limit: 20 bits that count bytes, or 4 KB
  units when the granularity bit 7 of byte 6 is set.\<close>

definition seg_base :: "mem \<Rightarrow> u32 \<Rightarrow> u32" where
  "seg_base m t = ucast (m (t + 2)) OR push_bit 8 (ucast (m (t + 3))) OR push_bit 16 (ucast (m (t + 4))) OR
     push_bit 24 (ucast (m (t + 7)))"

definition seg_raw_limit :: "mem \<Rightarrow> u32 \<Rightarrow> u32" where
  "seg_raw_limit m t = ucast (m t) OR push_bit 8 (ucast (m (t + 1))) OR push_bit 16 (ucast (m (t + 6) AND 0x0F))"

definition seg_limit :: "mem \<Rightarrow> u32 \<Rightarrow> u32" where
  "seg_limit m t = (if bit (m (t + 6)) 7 then push_bit 12 (seg_raw_limit m t) OR 0xFFF else seg_raw_limit m t)"

definition seg_access :: "mem \<Rightarrow> u32 \<Rightarrow> u8" where
  "seg_access m t = m (t + 5)"

text \<open>32-bit segment: bit 6 of byte 6 is set and bit 5 clear.\<close>

definition seg_32bit :: "mem \<Rightarrow> u32 \<Rightarrow> bool" where
  "seg_32bit m t \<longleftrightarrow> bit (m (t + 6)) 6 \<and> \<not> bit (m (t + 6)) 5"

definition describes :: "mem \<Rightarrow> u32 \<Rightarrow> gdt_structured \<Rightarrow> bool" where
  "describes m t s \<longleftrightarrow> seg_base m t = gs_base s \<and> seg_limit m t = gs_limit s \<and> seg_access m t = gs_type s \<and>
     seg_32bit m t"

definition limit_ok :: "gdt_structured \<Rightarrow> bool" where
  "limit_ok s \<longleftrightarrow> gs_limit s \<le> 65536 \<or> gs_limit s AND 0xFFF = 0xFFF"

section \<open>One descriptor\<close>

lemma bit_FF: "bit (0xFF :: u32) i \<longleftrightarrow> i < 8"
proof -
  have e: "(0xFF :: u32) = mask 8" by (simp add: mask_eq_exp_minus_1)
  show ?thesis unfolding e bit_mask_iff by auto
qed

lemma bit_FFF: "bit (0xFFF :: u32) i \<longleftrightarrow> i < 12"
proof -
  have e: "(0xFFF :: u32) = mask 12" by (simp add: mask_eq_exp_minus_1)
  show ?thesis unfolding e bit_mask_iff by auto
qed

lemma bit_0F: "bit (0x0F :: u8) i \<longleftrightarrow> i < 4"
proof -
  have e: "(0x0F :: u8) = mask 4" by (simp add: mask_eq_exp_minus_1)
  show ?thesis unfolding e bit_mask_iff by auto
qed

lemma bit_40: "bit (0x40 :: u8) i \<longleftrightarrow> i = 6"
proof -
  have e: "(0x40 :: u8) = push_bit 6 1" by simp
  show ?thesis unfolding e by (auto simp: bit_push_bit_iff bit_1_iff simp del: push_bit_numeral push_bit_of_1)
qed

lemma bit_C0: "bit (0xc0 :: u8) i \<longleftrightarrow> i = 6 \<or> i = 7"
proof -
  have e: "(0xc0 :: u8) = push_bit 6 1 OR push_bit 7 1" by simp
  show ?thesis
    unfolding e by (auto simp: bit_or_iff bit_push_bit_iff bit_1_iff simp del: push_bit_numeral push_bit_of_1)
qed

lemma ucast_FF: "ucast (v AND 0xFF) = (ucast v :: u8)" for v :: u32
  by (rule bit_word_eqI) (auto simp only: bit_ucast_iff bit_and_iff bit_FF; simp)

lemma small_limit_bits:
  fixes v :: u32
  assumes "v \<le> 65536" "bit v n"
  shows "n \<le> 16"
proof (rule ccontr)
  assume "\<not> n \<le> 16"
  then have "(2 :: nat) ^ 17 \<le> 2 ^ n" by (intro power_increasing) simp_all
  with assms(1) have "unat v < 2 ^ n" by (simp add: word_le_nat_alt)
  then have "take_bit n (unat v) = unat v" by (rule take_bit_nat_eq_self)
  moreover have "bit (unat v) n" using assms(2) by (simp add: bit_unsigned_iff)
  ultimately show False by (metis bit_take_bit_iff less_irrefl)
qed

text \<open>The limit field and the flags the code computes.\<close>

definition limit_field :: "gdt_structured \<Rightarrow> u32" where
  "limit_field s = (if gs_limit s > 65536 then drop_bit 12 (gs_limit s) else gs_limit s)"

definition flag_byte :: "gdt_structured \<Rightarrow> u8" where
  "flag_byte s = (if gs_limit s > 65536 then 0xc0 else 0x40) OR ucast (drop_bit 16 (limit_field s))"

lemma encodeGdtEntry_eq:
  "encodeGdtEntry t s m =
     (if limit_ok s
      then Some (m(t := ucast (limit_field s), t + 1 := ucast (drop_bit 8 (limit_field s)),
        t + 2 := ucast (gs_base s), t + 3 := ucast (drop_bit 8 (gs_base s)), t + 4 := ucast (drop_bit 16 (gs_base s)),
        t + 5 := gs_type s, t + 6 := flag_byte s, t + 7 := ucast (drop_bit 24 (gs_base s))))
      else None)"
proof -
  have or8: "ucast (ucast (b :: u8) OR (drop_bit 16 v AND 0xFF)) = b OR (ucast (drop_bit 16 v) :: u8)" for b and v :: u32
    by (rule bit_word_eqI) (auto simp only: bit_ucast_iff bit_and_iff bit_or_iff bit_FF; simp)
  show ?thesis
    by (auto simp: encodeGdtEntry_def limit_ok_def Let_def limit_field_def flag_byte_def or8 ucast_FF not_less fun_eq_iff
        simp del: unsigned_or_eq unsigned_and_eq)
qed

lemma field_bits: "limit_ok s \<Longrightarrow> bit (limit_field s) n \<Longrightarrow> n < 20"
  using small_limit_bits [of "gs_limit s" n] bit_imp_le_length [of "gs_limit s" "n + 12"]
  by (auto simp: limit_field_def bit_simps not_less add.commute split: if_splits)

lemma flag_bit: "limit_ok s \<Longrightarrow> n < 8 \<Longrightarrow> bit (flag_byte s) n \<longleftrightarrow>
    n = 6 \<or> (n = 7 \<and> gs_limit s > 65536) \<or> (n < 4 \<and> bit (limit_field s) (n + 16))"
  using field_bits [of s "n + 16"]
  by (cases "gs_limit s > 65536")
    (auto simp only: flag_byte_def bit_or_iff bit_40 bit_C0 if_True if_False bit_ucast_iff bit_drop_bit_eq comp_def add.commute; simp)+

definition put_descriptor :: "u32 \<Rightarrow> gdt_structured \<Rightarrow> mem \<Rightarrow> mem" where
  "put_descriptor t s m = m(t := ucast (limit_field s), t + 1 := ucast (drop_bit 8 (limit_field s)),
     t + 2 := ucast (gs_base s), t + 3 := ucast (drop_bit 8 (gs_base s)), t + 4 := ucast (drop_bit 16 (gs_base s)),
     t + 5 := gs_type s, t + 6 := flag_byte s, t + 7 := ucast (drop_bit 24 (gs_base s)))"

lemma descriptor_base: "seg_base (put_descriptor t s m) t = gs_base s"
proof (rule bit_word_eqI)
  fix n
  assume "n < LENGTH(32)"
  then have n: "n < 32" by simp
  consider "n < 8" | "8 \<le> n \<and> n < 16" | "16 \<le> n \<and> n < 24" | "24 \<le> n" by linarith
  then show "bit (seg_base (put_descriptor t s m) t) n = bit (gs_base s) n"
    by cases (use n in \<open>auto simp: seg_base_def put_descriptor_def bit_simps\<close>)
qed

lemma descriptor_raw_limit:
  assumes "limit_ok s"
  shows "seg_raw_limit (put_descriptor t s m) t = limit_field s"
proof (rule bit_word_eqI)
  fix n
  assume "n < LENGTH(32)"
  then have n: "n < 32" by simp
  have f: "n - 16 < 4 \<Longrightarrow> bit (flag_byte s) (n - 16) \<longleftrightarrow> bit (limit_field s) (n - 16 + 16)"
    using flag_bit [OF assms, of "n - 16"] by simp
  have b: "bit (put_descriptor t s m t) n \<longleftrightarrow> n < 8 \<and> bit (limit_field s) n"
    "bit (put_descriptor t s m (t + 1)) (n - 8) \<longleftrightarrow> n - 8 < 8 \<and> bit (limit_field s) (8 + (n - 8))"
    "bit (put_descriptor t s m (t + 6)) (n - 16) \<longleftrightarrow> bit (flag_byte s) (n - 16)"
    by (auto simp: put_descriptor_def bit_simps)
  have "bit (seg_raw_limit (put_descriptor t s m) t) n \<longleftrightarrow>
      n < 8 \<and> bit (limit_field s) n \<or> 8 \<le> n \<and> n - 8 < 8 \<and> bit (limit_field s) (8 + (n - 8)) \<or>
      16 \<le> n \<and> n - 16 < 4 \<and> bit (flag_byte s) (n - 16)"
    unfolding seg_raw_limit_def bit_or_iff bit_push_bit_iff bit_ucast_iff bit_and_iff bit_0F b
    using n less_imp_diff_less [OF n, of 8] less_imp_diff_less [OF n, of 16] by simp blast
  then show "bit (seg_raw_limit (put_descriptor t s m) t) n = bit (limit_field s) n"
    using f field_bits [OF assms, of n] by (cases "n < 8"; cases "n < 16"; cases "n < 20") (auto simp: less_diff_conv2)
qed

lemma descriptor_limit:
  assumes "limit_ok s"
  shows "seg_limit (put_descriptor t s m) t = gs_limit s"
proof (cases "gs_limit s > 65536")
  case True
  with assms have low: "gs_limit s AND 0xFFF = 0xFFF" by (auto simp: limit_ok_def not_less)
  have "bit (gs_limit s) i" if "i < 12" for i
    using arg_cong [OF low, of "\<lambda>w. bit w i"] that by (simp only: bit_and_iff bit_FFF) simp
  then have "push_bit 12 (drop_bit 12 (gs_limit s)) OR 0xFFF = gs_limit s"
    by (intro bit_word_eqI) (auto simp only: bit_or_iff bit_push_bit_iff bit_drop_bit_eq bit_FFF comp_def; simp)
  moreover have "bit (put_descriptor t s m (t + 6)) 7"
    using flag_bit [OF assms, of 7] True by (simp add: put_descriptor_def)
  ultimately show ?thesis
    using True by (simp add: seg_limit_def descriptor_raw_limit [OF assms] limit_field_def)
next
  case False
  then have "\<not> bit (put_descriptor t s m (t + 6)) 7"
    using flag_bit [OF assms, of 7] by (simp add: put_descriptor_def)
  with False show ?thesis
    by (simp add: seg_limit_def descriptor_raw_limit [OF assms] limit_field_def)
qed

lemma put_descriptor_describes: "limit_ok s \<Longrightarrow> describes (put_descriptor t s m) t s"
  using flag_bit [of s 6] flag_bit [of s 5]
  by (simp add: describes_def descriptor_base descriptor_limit seg_32bit_def)
    (simp add: seg_access_def put_descriptor_def)

lemma put_descriptor_frame: "unat (a - t) \<ge> 8 \<Longrightarrow> put_descriptor t s m a = m a"
  by (auto simp: put_descriptor_def)

section \<open>The table\<close>

lemma describes_cong:
  assumes "\<And>i. i < 8 \<Longrightarrow> m' (t + of_nat i) = m (t + of_nat i)"
  shows "describes m' t s = describes m t s"
  using assms [of 0] assms [of 1] assms [of 2] assms [of 3] assms [of 4] assms [of 5] assms [of 6] assms [of 7]
  by (simp add: describes_def seg_base_def seg_limit_def seg_raw_limit_def seg_access_def seg_32bit_def)

lemma gdt_table_frame:
  assumes "gdt_structured_to_gdt t ss m = Some m'" "length ss < 8192" "unat (a - t) \<ge> 8 * length ss"
  shows "m' a = m a"
  using assms
proof (induction ss arbitrary: t m)
  case (Cons s ss)
  then have m': "gdt_structured_to_gdt (t + 8) ss (put_descriptor t s m) = Some m'"
    by (auto simp: encodeGdtEntry_eq put_descriptor_def split: if_splits bind_splits)
  have "unat (a - (t + 8)) = unat (a - t) - 8"
    using Cons.prems(3) by (simp add: unat_sub word_le_nat_alt diff_diff_eq [symmetric])
  then have "m' a = put_descriptor t s m a"
    using Cons.prems by (intro Cons.IH [OF m']) simp_all
  also have "\<dots> = m a" using Cons.prems(3) by (intro put_descriptor_frame) simp
  finally show ?case .
qed simp

lemma gdt_table_none:
  "gdt_structured_to_gdt t ss m = None \<longleftrightarrow> (\<exists>s \<in> set ss. \<not> limit_ok s)"
  by (induction ss arbitrary: t m) (auto simp: encodeGdtEntry_eq)

lemma gdt_table_describes:
  assumes "gdt_structured_to_gdt t ss m = Some m'" "length ss < 8192" "i < length ss"
  shows "describes m' (t + of_nat (8 * i)) (ss ! i)"
  using assms
proof (induction ss arbitrary: t m i)
  case (Cons s ss)
  then have ok: "limit_ok s" and m': "gdt_structured_to_gdt (t + 8) ss (put_descriptor t s m) = Some m'"
    by (auto simp: encodeGdtEntry_eq put_descriptor_def split: if_splits)
  show ?case
  proof (cases i)
    case 0
    have "m' (t + of_nat j) = put_descriptor t s m (t + of_nat j)" if "j < 8" for j
    proof (rule gdt_table_frame [OF m'])
      show "length ss < 8192" using Cons.prems(2) by simp
      have d: "t + of_nat j - (t + 8) = of_nat j - 8" by simp
      have "unat (of_nat j - 8 :: u32) = 4294967296 + j - 8"
        using that by (simp add: unat_sub_if' unat_of_nat_u32)
      with d show "8 * length ss \<le> unat (t + of_nat j - (t + 8))" using Cons.prems(2) by simp
    qed
    with 0 put_descriptor_describes [OF ok, of t m] show ?thesis
      using describes_cong [of m' t "put_descriptor t s m" s] by simp
  next
    case (Suc j)
    with Cons.IH [OF m', of j] Cons.prems show ?thesis by (simp add: algebra_simps)
  qed
qed simp

section \<open>Correctness\<close>

text \<open>C33. Whatever table is packed, the processor reads back from entry \<open>i\<close> exactly the base, the limit
  and the access byte it was described with, as a 32-bit segment, and nothing outside the table is
  written; the routine panics exactly for a table with a limit above 64 KB that does not end in \<open>0xFFF\<close>.\<close>

theorem gdt_roundtrip:
  assumes "length ss < 8192"
  shows "case gdt_structured_to_gdt t ss m of
      None \<Rightarrow> \<exists>s \<in> set ss. \<not> limit_ok s
    | Some m' \<Rightarrow> (\<forall>s \<in> set ss. limit_ok s) \<and>
        (\<forall>i < length ss. describes m' (t + of_nat (8 * i)) (ss ! i)) \<and>
        (\<forall>a. unat (a - t) \<ge> 8 * length ss \<longrightarrow> m' a = m a)"
  using gdt_table_none [of t ss m] gdt_table_describes [OF _ assms] gdt_table_frame [OF _ assms]
  by (auto split: option.split)

theorem gdt_roundtrip_witness:
  "\<exists>m'. gdt_structured_to_gdt 0x1000 [\<lparr>gs_base = 0, gs_limit = 0xFFFFFFFF, gs_type = 0x9A\<rparr>] (\<lambda>_. 0) = Some m' \<and>
     seg_limit m' 0x1000 = 0xFFFFFFFF"
proof -
  have ok: "limit_ok \<lparr>gs_base = 0, gs_limit = 0xFFFFFFFF, gs_type = 0x9A\<rparr>" by (simp add: limit_ok_def)
  show ?thesis
    using gdt_roundtrip [of "[\<lparr>gs_base = 0, gs_limit = 0xFFFFFFFF, gs_type = 0x9A\<rparr>]" "0x1000" "\<lambda>_. 0"] ok
    by (auto simp: describes_def split: option.splits)
qed

end
