(* ===== verification/Allocator.thy ===== *)
theory Allocator
  imports Prelude
begin

text \<open>
  The interface between the kernel heap and its clients. An allocator hands out runs of
  4096-byte blocks; \<open>live\<close> tells which addresses are handed out and how many blocks each run
  has. The heap of \<^verbatim>\<open>src/memory/heap/heap.c\<close> provides the laws (theory Heap), the kernel heap
  of \<^verbatim>\<open>src/memory/heap/kheap.c\<close> passes them on (theory Kheap), and the paging and process code
  relies on them.
\<close>

text \<open>The size of a request in blocks; a request of no byte, and one so near 4 GB that rounding
  it up wraps to 0, is not good.\<close>

definition nblocks :: "u32 \<Rightarrow> nat" where
  "nblocks n = (unat n + 4095) div 4096"

definition good_size :: "u32 \<Rightarrow> bool" where
  "good_size n \<longleftrightarrow> 0 < unat n \<and> unat n \<le> 4294963200"

lemma nblocks_bounds:
  assumes "good_size n"
  shows "0 < nblocks n" and "nblocks n \<le> 1048575" and "unat n \<le> 4096 * nblocks n"
  using assms by (auto simp: good_size_def nblocks_def)

lemma nblocks_one: "0 < unat n \<Longrightarrow> unat n \<le> 4096 \<Longrightarrow> nblocks n = 1"
  by (simp add: nblocks_def)

lemma good_size_small: "0 < unat n \<Longrightarrow> unat n \<le> 4096 \<Longrightarrow> good_size n"
  by (simp add: good_size_def)

locale allocator =
  fixes alloc :: "'s \<Rightarrow> u32 \<Rightarrow> (u32 \<times> 's) option"
    and release :: "'s \<Rightarrow> u32 \<Rightarrow> 's"
    and live :: "'s \<Rightarrow> u32 \<Rightarrow> nat option"
    and wf :: "'s \<Rightarrow> bool"
  assumes alloc_null: "wf s \<Longrightarrow> good_size n \<Longrightarrow> alloc s n = Some (0, s') \<Longrightarrow> s' = s"
    and alloc_wf: "wf s \<Longrightarrow> good_size n \<Longrightarrow> alloc s n = Some (p, s') \<Longrightarrow> wf s'"
    and alloc_live: "wf s \<Longrightarrow> good_size n \<Longrightarrow> alloc s n = Some (p, s') \<Longrightarrow> p \<noteq> 0 \<Longrightarrow>
      live s p = None \<and> live s' = (live s)(p \<mapsto> nblocks n)"
    and release_wf: "wf s \<Longrightarrow> live s p = Some k \<Longrightarrow> wf (release s p)"
    and release_live: "wf s \<Longrightarrow> live s p = Some k \<Longrightarrow> live (release s p) = (live s)(p := None)"
    and live_region: "wf s \<Longrightarrow> live s p = Some k \<Longrightarrow>
      0 < k \<and> p \<noteq> 0 \<and> unat p mod 4096 = 0 \<and> unat p + 4096 * k \<le> 2147483648"
    and live_apart: "wf s \<Longrightarrow> live s p = Some k \<Longrightarrow> live s q = Some j \<Longrightarrow> unat p < unat q \<Longrightarrow>
      unat p + 4096 * k \<le> unat q"
begin

lemma alloc_release_live:
  assumes "wf s" "good_size n" "alloc s n = Some (p, s')" "p \<noteq> 0"
  shows "wf (release s' p)" and "live (release s' p) = live s"
proof -
  from alloc_live [OF assms] have l: "live s p = None" "live s' = (live s)(p \<mapsto> nblocks n)" by auto
  from assms have w: "wf s'" by (blast intro: alloc_wf)
  from l have "live s' p = Some (nblocks n)" by simp
  with w l show "wf (release s' p)" and "live (release s' p) = live s"
    by (auto simp: release_wf release_live fun_eq_iff)
qed

lemma live_disjoint:
  assumes "wf s" "live s p = Some k" "live s q = Some j" "p \<noteq> q" "in_range a p (4096 * k)"
  shows "\<not> in_range a q (4096 * j)"
proof -
  from assms(4) have "unat p < unat q \<or> unat q < unat p" by (meson linorder_neqE_nat word_unat_eq_iff)
  then show ?thesis
    using live_apart [OF assms(1-3)] live_apart [OF assms(1,3,2)] assms(5) by (auto simp: in_range_def)
qed

text \<open>A new allocation overlaps none of the old ones.\<close>

lemma alloc_disjoint:
  assumes "wf s" "good_size n" "alloc s n = Some (p, s')" "p \<noteq> 0" "live s q = Some j"
    and "in_range a p (4096 * nblocks n)"
  shows "\<not> in_range a q (4096 * j)"
proof -
  from alloc_live [OF assms(1-4)] have l: "live s p = None" "live s' = (live s)(p \<mapsto> nblocks n)" by auto
  with assms(5) have "q \<noteq> p" "live s' q = Some j" "live s' p = Some (nblocks n)" by auto
  moreover have "wf s'" using assms by (blast intro: alloc_wf)
  ultimately show ?thesis using live_disjoint assms(6) by metis
qed

lemma live_aligned: "wf s \<Longrightarrow> live s p = Some k \<Longrightarrow> p mod 4096 = 0"
  using live_region [of s p k] by (simp add: word_unat_eq_iff unat_mod_distrib)

end

text \<open>An allocator that also promises progress for requests of at most one block, as long as
  \<open>room\<close>, the number of free blocks, is not zero, and that gets every block of a released run back.\<close>

locale page_allocator = allocator +
  fixes room :: "'s \<Rightarrow> nat"
  assumes page_full: "wf s \<Longrightarrow> 0 < unat n \<Longrightarrow> unat n \<le> 4096 \<Longrightarrow> room s = 0 \<Longrightarrow> alloc s n = Some (0, s)"
    and page_room: "wf s \<Longrightarrow> 0 < unat n \<Longrightarrow> unat n \<le> 4096 \<Longrightarrow> 0 < room s \<Longrightarrow>
      \<exists>p s'. alloc s n = Some (p, s') \<and> p \<noteq> 0 \<and> Suc (room s') = room s"
    and page_release: "wf s \<Longrightarrow> live s p = Some k \<Longrightarrow> room (release s p) = room s + k"
begin

lemma page_alloc:
  assumes "wf s" "0 < unat n" "unat n \<le> 4096" "0 < room s"
  obtains p s' where "alloc s n = Some (p, s')" "p \<noteq> 0" "wf s'" "Suc (room s') = room s"
    "live s p = None" "live s' = (live s)(p \<mapsto> 1)"
proof -
  from page_room [OF assms] obtain p s' where a: "alloc s n = Some (p, s')" "p \<noteq> 0" "Suc (room s') = room s"
    by auto
  have g: "good_size n" using assms by (intro good_size_small)
  from alloc_live [OF assms(1) g a(1,2)] alloc_wf [OF assms(1) g a(1)] assms(2,3) a that
  show ?thesis by (auto simp: nblocks_one)
qed

end

end
