(* ===== verification/Heap.thy ===== *)
theory Heap
  imports Allocator
begin

text \<open>
  The block allocator of \<^verbatim>\<open>src/memory/heap/heap.c\<close>. A \<open>heap\<close> is a start address and a
  table with one byte per 4096-byte block. The first part translates the C functions; the
  second describes a table as a list of chunks (free blocks and runs of used blocks) and
  proves that allocation and release on bytes refine the obvious operations on chunks.

  \<open>heap_table\<close> is the C structure with its \<open>entries\<close> array of \<open>total\<close> bytes, held as a list
  whose length is \<open>total\<close>. \<open>heap_mark_blocks_taken\<close> writes \<open>entries[i]\<close> without looking at
  \<open>total\<close>: a write past the table is the outcome \<open>None\<close>.
\<close>

section \<open>The code\<close>

type_synonym HEAP_BLOCK_TABLE_ENTRY = u8

record heap_table =
  ht_entries :: "HEAP_BLOCK_TABLE_ENTRY list"

record heap =
  h_table :: heap_table
  h_saddr :: u32

abbreviation (input) HEAP_BLOCK_TABLE_ENTRY_FREE :: u8 where "HEAP_BLOCK_TABLE_ENTRY_FREE \<equiv> 0x00"
abbreviation (input) HEAP_BLOCK_TABLE_ENTRY_TAKEN :: u8 where "HEAP_BLOCK_TABLE_ENTRY_TAKEN \<equiv> 0x01"
abbreviation (input) HEAP_BLOCK_HAS_NEXT :: u8 where "HEAP_BLOCK_HAS_NEXT \<equiv> 0x80"
abbreviation (input) HEAP_BLOCK_IS_FIRST :: u8 where "HEAP_BLOCK_IS_FIRST \<equiv> 0x40"

abbreviation h_entries :: "heap \<Rightarrow> u8 list" where "h_entries h \<equiv> ht_entries (h_table h)"
abbreviation h_total :: "heap \<Rightarrow> nat" where "h_total h \<equiv> length (h_entries h)"

definition set_entries :: "u8 list \<Rightarrow> heap \<Rightarrow> heap" where
  "set_entries es h = h\<lparr>h_table := (h_table h)\<lparr>ht_entries := es\<rparr>\<rparr>"

definition heap_validate_table :: "u32 \<Rightarrow> u32 \<Rightarrow> heap_table \<Rightarrow> int" where
  "heap_validate_table ptr end_ptr table =
     (let table_size = end_ptr - ptr;
          total_blocks = table_size div PEACHOS_HEAP_BLOCK_SIZE
      in if of_nat (length (ht_entries table)) \<noteq> total_blocks then - EINVARG else 0)"

definition heap_validate_aligment :: "u32 \<Rightarrow> bool" where
  "heap_validate_aligment ptr \<longleftrightarrow> ptr mod PEACHOS_HEAP_BLOCK_SIZE = 0"

text \<open>\<open>heap_create\<close> fills in the caller's structure, so it takes the old one and returns the new.\<close>

definition heap_create :: "heap \<Rightarrow> u32 \<Rightarrow> u32 \<Rightarrow> heap_table \<Rightarrow> int \<times> heap" where
  "heap_create heap ptr end_ptr table =
     (if \<not> heap_validate_aligment ptr \<or> \<not> heap_validate_aligment end_ptr
      then (- EINVARG, heap)
      else let heap1 = heap\<lparr>h_table := table, h_saddr := ptr\<rparr>;
               res = heap_validate_table ptr end_ptr table
           in if res < 0 then (res, heap1)
              else (res, set_entries (replicate (length (ht_entries table))
                                        HEAP_BLOCK_TABLE_ENTRY_FREE) heap1))"

definition heap_align_value_to_upper :: "u32 \<Rightarrow> u32" where
  "heap_align_value_to_upper val =
     (if val mod PEACHOS_HEAP_BLOCK_SIZE = 0 then val
      else val - (val mod PEACHOS_HEAP_BLOCK_SIZE) + PEACHOS_HEAP_BLOCK_SIZE)"

definition heap_get_entry_type :: "HEAP_BLOCK_TABLE_ENTRY \<Rightarrow> u8" where
  "heap_get_entry_type entry = entry AND 0x0f"

text \<open>The loop of \<open>heap_get_start_block\<close>, over the entries from index \<open>i\<close> on, with its
  counters \<open>bc\<close> (blocks counted) and \<open>bs\<close> (start of the current run, or -1).\<close>

fun get_start_block_loop :: "u8 list \<Rightarrow> nat \<Rightarrow> nat \<Rightarrow> int \<Rightarrow> nat \<Rightarrow> int" where
  "get_start_block_loop [] i bc bs total_blocks = bs"
| "get_start_block_loop (e # es) i bc bs total_blocks =
     (if heap_get_entry_type e \<noteq> HEAP_BLOCK_TABLE_ENTRY_FREE
      then get_start_block_loop es (Suc i) 0 (- 1) total_blocks
      else let bs' = (if bs = - 1 then int i else bs); bc' = Suc bc
           in if bc' = total_blocks then bs'
              else get_start_block_loop es (Suc i) bc' bs' total_blocks)"

definition heap_get_start_block :: "heap \<Rightarrow> u32 \<Rightarrow> int" where
  "heap_get_start_block heap total_blocks =
     (let bs = get_start_block_loop (h_entries heap) 0 0 (- 1) (unat total_blocks)
      in if bs = - 1 then - ENOMEM else bs)"

definition heap_block_to_address :: "heap \<Rightarrow> u32 \<Rightarrow> u32" where
  "heap_block_to_address heap block = h_saddr heap + block * PEACHOS_HEAP_BLOCK_SIZE"

partial_function (option) mark_taken_loop :: "u8 list \<Rightarrow> u32 \<Rightarrow> u32 \<Rightarrow> u8 \<Rightarrow> u8 list option" where
  "mark_taken_loop es i end_block entry =
     (if i \<le> end_block
      then if unat i < length es
           then mark_taken_loop (es[unat i := entry]) (i + 1) end_block
                  (if i \<noteq> end_block - 1 then HEAP_BLOCK_TABLE_ENTRY_TAKEN OR HEAP_BLOCK_HAS_NEXT
                   else HEAP_BLOCK_TABLE_ENTRY_TAKEN)
           else None
      else Some es)"

definition heap_mark_blocks_taken :: "heap \<Rightarrow> u32 \<Rightarrow> u32 \<Rightarrow> heap option" where
  "heap_mark_blocks_taken heap start_block total_blocks =
     (let end_block = start_block + total_blocks - 1;
          entry0 = HEAP_BLOCK_TABLE_ENTRY_TAKEN OR HEAP_BLOCK_IS_FIRST;
          entry = (if total_blocks > 1 then entry0 OR HEAP_BLOCK_HAS_NEXT else entry0)
      in do {
        es \<leftarrow> mark_taken_loop (h_entries heap) start_block end_block entry;
        Some (set_entries es heap)
      })"

definition heap_malloc_blocks :: "heap \<Rightarrow> u32 \<Rightarrow> (u32 \<times> heap) option" where
  "heap_malloc_blocks heap total_blocks =
     (let start_block = heap_get_start_block heap total_blocks
      in if start_block < 0 then Some (0, heap)
         else let address = heap_block_to_address heap (word_of_int start_block)
              in do {
                heap' \<leftarrow> heap_mark_blocks_taken heap (word_of_int start_block) total_blocks;
                Some (address, heap')
              })"

definition heap_malloc :: "heap \<Rightarrow> u32 \<Rightarrow> (u32 \<times> heap) option" where
  "heap_malloc heap sz =
     (let size' = heap_align_value_to_upper sz;
          total_blocks = size' div PEACHOS_HEAP_BLOCK_SIZE
      in heap_malloc_blocks heap total_blocks)"

text \<open>The division is on a C \<open>int\<close>, so it rounds towards zero.\<close>

definition heap_address_to_block :: "heap \<Rightarrow> u32 \<Rightarrow> u32" where
  "heap_address_to_block heap addr = word_of_int (sint (addr - h_saddr heap) sdiv 4096)"

function mark_free_loop :: "u8 list \<Rightarrow> nat \<Rightarrow> u8 list" where
  "mark_free_loop es i =
     (if i < length es
      then let entry = es ! i; es' = es[i := HEAP_BLOCK_TABLE_ENTRY_FREE]
           in if entry AND HEAP_BLOCK_HAS_NEXT = 0 then es' else mark_free_loop es' (Suc i)
      else es)"
  by pat_completeness auto
termination
  by (relation "measure (\<lambda>(es, i). length es - i)") auto

declare mark_free_loop.simps [simp del]

definition heap_mark_blocks_free :: "heap \<Rightarrow> u32 \<Rightarrow> heap" where
  "heap_mark_blocks_free heap start_block =
     set_entries (mark_free_loop (h_entries heap) (unat start_block)) heap"

definition heap_free :: "heap \<Rightarrow> u32 \<Rightarrow> heap" where
  "heap_free heap ptr = heap_mark_blocks_free heap (heap_address_to_block heap ptr)"

section \<open>What the search finds\<close>

text \<open>The first position where \<open>n\<close> free blocks follow each other, and the length of the free
  run at the end of the table.\<close>

definition blk_free :: "u8 \<Rightarrow> bool" where
  "blk_free e \<longleftrightarrow> heap_get_entry_type e = HEAP_BLOCK_TABLE_ENTRY_FREE"

fun first_fit :: "nat \<Rightarrow> bool list \<Rightarrow> nat option" where
  "first_fit n [] = None"
| "first_fit n (f # fs) =
     (if 0 < n \<and> take n (f # fs) = replicate n True then Some 0
      else map_option Suc (first_fit n fs))"

definition trailing :: "bool list \<Rightarrow> nat" where
  "trailing fs = length (takeWhile id (rev fs))"

lemma trailing_Nil [simp]: "trailing [] = 0"
  by (simp add: trailing_def)

lemma trailing_le: "trailing fs \<le> length fs"
  unfolding trailing_def by (metis length_rev length_takeWhile_le)

lemma trailing_replicate [simp]: "trailing (replicate n True) = n"
  by (simp add: trailing_def takeWhile_replicate)

lemma trailing_barrier [simp]: "trailing (xs @ False # ys) = trailing ys"
proof -
  have "takeWhile id (rev ys @ False # rev xs) = takeWhile id (rev ys)"
    by (induction "rev ys" arbitrary: ys) (auto simp: takeWhile_tail)
  then show ?thesis by (simp add: trailing_def)
qed

lemma first_fit_bound: "first_fit n fs = Some s \<Longrightarrow> 0 < n \<and> s + n \<le> length fs"
proof (induction fs arbitrary: s)
  case (Cons f fs)
  show ?case
  proof (cases "0 < n \<and> take n (f # fs) = replicate n True")
    case True
    then have "length (take n (f # fs)) = n" by (metis length_replicate)
    then have "n \<le> length (f # fs)" by (metis length_take min.cobounded1)
    with True Cons.prems show ?thesis by (auto split: if_splits)
  next
    case False
    with Cons show ?thesis by fastforce
  qed
qed simp

lemma first_fit_run: "first_fit n fs = Some s \<Longrightarrow> take n (drop s fs) = replicate n True"
  by (induction fs arbitrary: s) (auto split: if_splits)

lemma first_fit_least:
  "first_fit n fs = Some s \<Longrightarrow> s' < s \<Longrightarrow> take n (drop s' fs) \<noteq> replicate n True"
proof (induction fs arbitrary: s s')
  case (Cons f fs)
  then have miss: "\<not> (0 < n \<and> take n (f # fs) = replicate n True)" by (auto split: if_splits)
  moreover from Cons.prems(1) have "0 < n" by (rule first_fit_bound [THEN conjunct1])
  moreover obtain t where "s = Suc t" "first_fit n fs = Some t"
    using Cons.prems(1) miss by auto
  ultimately show ?case using Cons.IH [of t] Cons.prems(2) by (cases s') auto
qed simp

lemma first_fit_None:
  "first_fit n fs = None \<Longrightarrow> 0 < n \<Longrightarrow> take n (drop s fs) \<noteq> replicate n True"
proof (induction fs arbitrary: s)
  case (Cons f fs)
  then have miss: "take n (f # fs) \<noteq> replicate n True" by (auto split: if_splits)
  moreover from Cons.prems miss have "first_fit n fs = None" by auto
  ultimately show ?case using Cons.IH Cons.prems(2) by (cases s) auto
qed (cases n, auto)

lemma drop_trailing: "drop (length fs - trailing fs) fs = replicate (trailing fs) True"
proof -
  have "takeWhile id (rev fs) = replicate (trailing fs) True"
    unfolding trailing_def by (rule replicate_eqI) (auto dest: set_takeWhileD)
  moreover have "takeWhile id (rev fs) = take (trailing fs) (rev fs)"
    unfolding trailing_def by (rule takeWhile_eq_take)
  ultimately have "rev (drop (length fs - trailing fs) fs) = replicate (trailing fs) True"
    by (simp add: rev_drop trailing_le)
  then show ?thesis by (metis rev_replicate rev_rev_ident)
qed

lemma first_fit_None_trailing: "first_fit n fs = None \<Longrightarrow> 0 < n \<Longrightarrow> trailing fs < n"
  using first_fit_None [of n fs "length fs - trailing fs"]
  unfolding drop_trailing by (cases "n \<le> trailing fs") (simp_all add: min_absorb1)

lemma first_fit_skip:
  "bc < n \<Longrightarrow> first_fit n (replicate bc True @ False # fs) = map_option (\<lambda>s. bc + Suc s) (first_fit n fs)"
proof (induction bc)
  case 0
  then show ?case by (cases n) auto
next
  case (Suc bc)
  have "take n (replicate (Suc bc) True @ False # fs) \<noteq> replicate n True"
  proof
    assume "take n (replicate (Suc bc) True @ False # fs) = replicate n True"
    then have "take n (replicate (Suc bc) True @ False # fs) ! Suc bc = replicate n True ! Suc bc"
      by simp
    with Suc.prems show False by (simp add: nth_append)
  qed
  with Suc show ?case by (simp add: option.map_comp comp_def)
qed

lemma first_fit_hit: "0 < n \<Longrightarrow> first_fit n (replicate n True @ fs) = Some 0"
  by (cases n) auto

lemma first_fit_zero [simp]: "first_fit 0 fs = None"
  by (induction fs) auto

lemma first_fit_short: "bc < n \<Longrightarrow> first_fit n (replicate bc True) = None"
proof (induction bc)
  case (Suc bc)
  have "length (take n (replicate (Suc bc) True)) \<noteq> length (replicate n True)"
    using Suc.prems by simp
  then have "take n (replicate (Suc bc) True) \<noteq> replicate n True" by metis
  with Suc show ?case by simp
qed simp

lemma get_start_block_loop_eq:
  assumes "n = 0 \<or> bc < n" and "bc \<le> i" and "bs = (if bc = 0 then - 1 else int (i - bc))"
  shows "get_start_block_loop es i bc bs n =
    (let fs = replicate bc True @ map blk_free es
     in case first_fit n fs of
          Some s \<Rightarrow> int (i - bc + s)
        | None \<Rightarrow> if trailing fs = 0 then - 1 else int (i + length es - trailing fs))"
  using assms
proof (induction es arbitrary: i bc bs)
  case Nil
  then show ?case by (auto simp: first_fit_short Let_def)
next
  case (Cons e es)
  show ?case
  proof (cases "blk_free e")
    case False
    then have loop: "get_start_block_loop (e # es) i bc bs n =
        get_start_block_loop es (Suc i) 0 (- 1) n"
      by (simp add: blk_free_def)
    have "first_fit n (replicate bc True @ False # map blk_free es) =
        map_option (\<lambda>s. bc + Suc s) (first_fit n (map blk_free es))"
      using Cons.prems(1) by (auto simp: first_fit_skip)
    with False Cons.prems(1,2) show ?thesis
      by (subst loop, subst Cons.IH) (auto simp: Let_def split: option.splits)
  next
    case True
    have fs: "replicate bc True @ True # map blk_free es = replicate (Suc bc) True @ map blk_free es"
      by (simp add: replicate_app_Cons_same)
    show ?thesis
    proof (cases "Suc bc = n")
      case True
      have "replicate bc True @ map blk_free (e # es) = replicate n True @ map blk_free es"
        using \<open>blk_free e\<close> fs True by simp
      then have "first_fit n (replicate bc True @ map blk_free (e # es)) = Some 0"
        using True first_fit_hit by (metis zero_less_Suc)
      moreover have "get_start_block_loop (e # es) i bc bs n = int (i - bc)"
        using \<open>blk_free e\<close> Cons.prems(3) True by (simp add: blk_free_def)
      ultimately show ?thesis by (simp only: Let_def option.case add_0_right)
    next
      case False
      let ?bs = "if bs = - 1 then int i else bs"
      have loop: "get_start_block_loop (e # es) i bc bs n =
          get_start_block_loop es (Suc i) (Suc bc) ?bs n"
        using \<open>blk_free e\<close> False by (simp add: blk_free_def Let_def)
      have "?bs = int (Suc i - Suc bc)" using Cons.prems by auto
      with False Cons.prems \<open>blk_free e\<close> show ?thesis
        by (subst loop, subst Cons.IH) (auto simp: fs Let_def simp del: replicate_Suc split: option.splits)
    qed
  qed
qed

abbreviation free_map :: "heap \<Rightarrow> bool list" where
  "free_map h \<equiv> map blk_free (h_entries h)"

lemma heap_get_start_block_eq:
  "heap_get_start_block h n =
    (case first_fit (unat n) (free_map h) of
       Some s \<Rightarrow> int s
     | None \<Rightarrow> if trailing (free_map h) = 0 then - ENOMEM
               else int (h_total h - trailing (free_map h)))"
proof -
  have "unat n = 0 \<or> 0 < unat n" by linarith
  from get_start_block_loop_eq [OF this, of 0 "- 1" "h_entries h"] show ?thesis
    by (simp add: heap_get_start_block_def Let_def split: option.splits)
qed

section \<open>What marking and freeing do to the table\<close>

fun mark_tail :: "nat \<Rightarrow> u8 list" where
  "mark_tail 0 = []"
| "mark_tail (Suc k) = (if k = 0 then 0x01 else 0x81) # mark_tail k"

definition used_entries :: "nat \<Rightarrow> u8 list" where
  "used_entries n = (if 1 < n then 0xC1 else 0x41) # mark_tail (n - 1)"

lemma length_mark_tail [simp]: "length (mark_tail k) = k"
  by (induction k) auto

lemma length_used_entries [simp]: "0 < n \<Longrightarrow> length (used_entries n) = n"
  by (simp add: used_entries_def)

lemma mark_tail_not_free: "e \<in> set (mark_tail k) \<Longrightarrow> \<not> blk_free e"
  by (induction k) (auto simp: blk_free_def heap_get_entry_type_def split: if_splits)

lemma used_entries_not_free: "e \<in> set (used_entries n) \<Longrightarrow> \<not> blk_free e"
  by (auto simp: used_entries_def mark_tail_not_free split: if_splits)
     (auto simp: blk_free_def heap_get_entry_type_def)

lemma used_entries_map: "0 < n \<Longrightarrow> map blk_free (used_entries n) = replicate n False"
  by (rule replicate_eqI) (auto simp: used_entries_not_free)

lemma mark_taken_loop_stop: "\<not> i \<le> e \<Longrightarrow> mark_taken_loop es i e entry = Some es"
  by (subst mark_taken_loop.simps) simp

lemma mark_taken_loop_step:
  "i \<le> e \<Longrightarrow> unat i < length es \<Longrightarrow>
   mark_taken_loop es i e entry =
     mark_taken_loop (es[unat i := entry]) (i + 1) e (if i \<noteq> e - 1 then 0x81 else 0x01)"
  by (subst mark_taken_loop.simps) simp

lemma mark_taken_loop_out:
  "i \<le> e \<Longrightarrow> length es \<le> unat i \<Longrightarrow> mark_taken_loop es i e entry = None"
  by (subst mark_taken_loop.simps) simp

lemma mark_taken_loop_fits:
  assumes "unat e = unat i + k" and "unat i + k < length es" and "length es < 4294967296"
  shows "mark_taken_loop es i e entry =
    Some (take (unat i) es @ entry # mark_tail k @ drop (Suc (unat i + k)) es)"
  using assms
proof (induction k arbitrary: es i entry)
  case 0
  then have "unat (i + 1) = Suc (unat i)" by (simp add: unat_word_ariths)
  with 0 show ?case
    by (simp add: mark_taken_loop_step mark_taken_loop_stop word_le_unat upd_conv_take_nth_drop)
next
  case (Suc k)
  from Suc.prems have i1: "unat (i + 1) = Suc (unat i)" by (simp add: unat_word_ariths)
  have "e = i + 1 \<longleftrightarrow> k = 0" using Suc.prems(1) i1 by (metis add_0_right add_Suc_right add_Suc add_left_cancel word_unat_eq_iff)
  then have entry': "(if i \<noteq> e - 1 then 0x81 else 0x01) = (if k = 0 then 0x01 else (0x81 :: u8))"
    by (auto simp: algebra_simps)
  have "mark_taken_loop es i e entry =
      mark_taken_loop (es[unat i := entry]) (i + 1) e (if k = 0 then 0x01 else 0x81)"
    using Suc.prems by (subst mark_taken_loop_step) (simp_all only: entry' word_le_unat)
  also have "\<dots> = Some (take (unat (i + 1)) (es[unat i := entry]) @ (if k = 0 then 0x01 else 0x81) #
      mark_tail k @ drop (Suc (unat (i + 1) + k)) (es[unat i := entry]))"
    by (rule Suc.IH) (use Suc.prems i1 in auto)
  also have "take (unat (i + 1)) (es[unat i := entry]) = take (unat i) es @ [entry]"
    using Suc.prems by (simp add: i1 take_Suc_conv_app_nth)
  finally show ?case by (simp add: i1)
qed

lemma mark_taken_loop_overrun:
  assumes "unat e = unat i + k" and "length es \<le> unat i + k" and "length es < 4294967296"
  shows "mark_taken_loop es i e entry = None"
  using assms
proof (induction k arbitrary: es i entry)
  case 0
  then show ?case by (simp add: mark_taken_loop_out word_le_unat)
next
  case (Suc k)
  show ?case
  proof (cases "unat i < length es")
    case True
    with Suc.prems have "unat (i + 1) = Suc (unat i)" by (simp add: unat_word_ariths)
    with True Suc show ?thesis by (simp add: mark_taken_loop_step word_le_unat)
  next
    case False
    with Suc.prems show ?thesis by (simp add: mark_taken_loop_out word_le_unat)
  qed
qed

lemma h_entries_set_entries [simp]: "h_entries (set_entries es h) = es"
  by (simp add: set_entries_def)

lemma h_saddr_set_entries [simp]: "h_saddr (set_entries es h) = h_saddr h"
  by (simp add: set_entries_def)

lemma set_entries_twice [simp]: "set_entries es (set_entries es' h) = set_entries es h"
  by (simp add: set_entries_def)

lemma set_entries_id [simp]: "set_entries (h_entries h) h = h"
  by (simp add: set_entries_def)

lemma heap_mark_blocks_taken_fits:
  assumes "s + unat n \<le> h_total h" and "0 < unat n" and "h_total h < 4294967296"
  shows "heap_mark_blocks_taken h (of_nat s) n =
    Some (set_entries (take s (h_entries h) @ used_entries (unat n) @ drop (s + unat n) (h_entries h)) h)"
proof -
  have s: "unat (of_nat s :: u32) = s" using assms by (simp add: unat_of_nat_u32)
  have "unat (of_nat s + n) = s + unat n" using assms s by (simp add: unat_word_ariths)
  then have e: "unat (of_nat s + n - 1) = unat (of_nat s :: u32) + (unat n - 1)"
    using assms s by (simp add: unat_sub word_le_nat_alt)
  have "(n > 1) = (1 < unat n)" by (simp add: word_less_unat)
  then show ?thesis
    using mark_taken_loop_fits [OF e] assms
    by (simp add: heap_mark_blocks_taken_def used_entries_def s)
qed

lemma heap_mark_blocks_taken_overrun:
  assumes "h_total h < s + unat n" and "0 < unat n" and "s \<le> h_total h" and "h_total h + unat n < 4294967296"
  shows "heap_mark_blocks_taken h (of_nat s) n = None"
proof -
  have s: "unat (of_nat s :: u32) = s" using assms by (simp add: unat_of_nat_u32)
  have "unat (of_nat s + n) = s + unat n" using assms s by (simp add: unat_word_ariths)
  then have e: "unat (of_nat s + n - 1) = unat (of_nat s :: u32) + (unat n - 1)"
    using assms s by (simp add: unat_sub word_le_nat_alt)
  show ?thesis
    using mark_taken_loop_overrun [OF e] assms by (simp add: heap_mark_blocks_taken_def s)
qed

lemma mark_free_loop_last:
  "e AND 0x80 = 0 \<Longrightarrow> mark_free_loop (xs @ e # ys) (length xs) = xs @ 0 # ys"
  by (subst mark_free_loop.simps) (simp add: Let_def)

lemma mark_free_loop_next:
  "e AND 0x80 \<noteq> 0 \<Longrightarrow>
   mark_free_loop (xs @ e # ys) (length xs) = mark_free_loop ((xs @ [0]) @ ys) (length (xs @ [0]))"
  by (subst mark_free_loop.simps) (simp add: Let_def)

lemma mark_free_loop_tail:
  "0 < k \<Longrightarrow> mark_free_loop (xs @ mark_tail k @ ys) (length xs) = xs @ replicate k 0 @ ys"
proof (induction k arbitrary: xs)
  case (Suc k)
  show ?case
  proof (cases "k = 0")
    case True
    then show ?thesis by (simp add: mark_free_loop_last)
  next
    case False
    then have "mark_free_loop (xs @ mark_tail (Suc k) @ ys) (length xs) =
        mark_free_loop ((xs @ [0]) @ mark_tail k @ ys) (length (xs @ [0]))"
      using mark_free_loop_next [of "0x81" xs "mark_tail k @ ys"] by simp
    also have "\<dots> = (xs @ [0]) @ replicate k 0 @ ys"
      using False by (intro Suc.IH) simp
    finally show ?thesis by simp
  qed
qed simp

lemma mark_free_loop_used:
  assumes "0 < n"
  shows "mark_free_loop (xs @ used_entries n @ ys) (length xs) = xs @ replicate n 0 @ ys"
proof (cases "1 < n")
  case False
  with assms have "n = 1" by simp
  then show ?thesis by (simp add: mark_free_loop_last used_entries_def)
next
  case True
  then have "mark_free_loop (xs @ used_entries n @ ys) (length xs) =
      mark_free_loop ((xs @ [0]) @ mark_tail (n - 1) @ ys) (length (xs @ [0]))"
    using mark_free_loop_next [of "0xC1" xs "mark_tail (n - 1) @ ys"] by (simp add: used_entries_def)
  also have "\<dots> = (xs @ [0]) @ replicate (n - 1) 0 @ ys"
    using True by (intro mark_free_loop_tail) simp
  also have "\<dots> = xs @ replicate n 0 @ ys"
    using assms by (cases n) simp_all
  finally show ?thesis .
qed

section \<open>The table as a list of chunks\<close>

text \<open>A well-formed table is a sequence of free blocks and of runs of \<open>n\<close> blocks handed out
  together. \<open>chunk_malloc\<close> and \<open>chunk_free\<close> say what allocation and release mean on it.\<close>

datatype chunk = Free | Used nat

fun chunk_len :: "chunk \<Rightarrow> nat" where
  "chunk_len Free = 1"
| "chunk_len (Used n) = n"

fun chunk_entries :: "chunk \<Rightarrow> u8 list" where
  "chunk_entries Free = [0]"
| "chunk_entries (Used n) = used_entries n"

definition chunks_ok :: "chunk list \<Rightarrow> bool" where
  "chunks_ok cs \<longleftrightarrow> list_all (\<lambda>c. 0 < chunk_len c) cs"

fun layout :: "chunk list \<Rightarrow> u8 list" where
  "layout [] = []"
| "layout (c # cs) = chunk_entries c @ layout cs"

fun chunk_malloc :: "nat \<Rightarrow> chunk list \<Rightarrow> (nat \<times> chunk list) option" where
  "chunk_malloc n [] = None"
| "chunk_malloc n (c # cs) =
     (if 0 < n \<and> take n (c # cs) = replicate n Free then Some (0, Used n # drop n (c # cs))
      else map_option (\<lambda>(b, cs'). (chunk_len c + b, c # cs')) (chunk_malloc n cs))"

fun chunk_free :: "nat \<Rightarrow> chunk list \<Rightarrow> chunk list" where
  "chunk_free b [] = []"
| "chunk_free b (c # cs) =
     (if b = 0 then replicate (chunk_len c) Free @ cs else c # chunk_free (b - chunk_len c) cs)"

fun chunk_live :: "chunk list \<Rightarrow> nat \<Rightarrow> nat option" where
  "chunk_live [] b = None"
| "chunk_live (Free # cs) b = (if b = 0 then None else chunk_live cs (b - 1))"
| "chunk_live (Used n # cs) b =
     (if b = 0 then Some n else if b < n then None else chunk_live cs (b - n))"

lemma chunks_ok_simps [simp]:
  "chunks_ok []" "chunks_ok (c # cs) \<longleftrightarrow> 0 < chunk_len c \<and> chunks_ok cs"
  "chunks_ok (xs @ ys) \<longleftrightarrow> chunks_ok xs \<and> chunks_ok ys"
  by (simp_all add: chunks_ok_def)

lemma chunks_ok_drop: "chunks_ok cs \<Longrightarrow> chunks_ok (drop n cs)"
  by (simp add: chunks_ok_def list_all_iff) (meson in_set_dropD)

lemma chunks_ok_replicate [simp]: "chunks_ok (replicate n Free)"
  by (simp add: chunks_ok_def list_all_iff)

lemma length_chunk_entries [simp]: "0 < chunk_len c \<Longrightarrow> length (chunk_entries c) = chunk_len c"
  by (cases c) auto

lemma layout_append [simp]: "layout (xs @ ys) = layout xs @ layout ys"
  by (induction xs) auto

lemma layout_replicate [simp]: "layout (replicate n Free) = replicate n 0"
  by (induction n) auto

lemma blk_free_zero [simp]: "blk_free 0"
  by (simp add: blk_free_def heap_get_entry_type_def)

lemma free_run_iff:
  "chunks_ok cs \<Longrightarrow>
   take n (map blk_free (layout cs)) = replicate n True \<longleftrightarrow> take n cs = replicate n Free"
proof (induction cs arbitrary: n)
  case (Cons c cs)
  show ?case
  proof (cases n)
    case (Suc m)
    with Cons show ?thesis
    proof (cases c)
      case (Used k)
      with Cons.prems obtain j where k: "k = Suc j" by (auto simp: gr0_conv_Suc)
      with Used Suc show ?thesis by (simp add: used_entries_map)
    qed (use Cons Suc in simp)
  qed simp
qed (cases n, auto)

lemma first_fit_skip_used: "first_fit n (replicate m False @ fs) = map_option ((+) m) (first_fit n fs)"
proof (induction m)
  case 0
  then show ?case by (cases "first_fit n fs") auto
next
  case (Suc m)
  then show ?case by (cases n) (auto simp: option.map_comp comp_def)
qed

lemma first_fit_chunks:
  "chunks_ok cs \<Longrightarrow> first_fit n (map blk_free (layout cs)) = map_option fst (chunk_malloc n cs)"
proof (induction cs)
  case (Cons c cs)
  show ?case
  proof (cases c)
    case Free
    with Cons free_run_iff [OF Cons.prems, of n] show ?thesis
      by (auto simp: option.map_comp comp_def case_prod_beta)
  next
    case (Used k)
    have "\<not> (0 < n \<and> take n (c # cs) = replicate n Free)"
      using Used by (cases n) auto
    with Used Cons show ?thesis
      by (simp add: used_entries_map first_fit_skip_used option.map_comp comp_def case_prod_beta)
  qed
qed simp

lemma take_eq_replicate_len: "take n xs = replicate n x \<Longrightarrow> n \<le> length xs"
  by (metis length_replicate length_take min.cobounded1)

lemma layout_take_free: "take n cs = replicate n Free \<Longrightarrow> layout cs = replicate n 0 @ layout (drop n cs)"
  by (metis append_take_drop_id layout_append layout_replicate)

lemma chunk_malloc_layout:
  "chunk_malloc n cs = Some (b, cs') \<Longrightarrow> chunks_ok cs \<Longrightarrow>
   0 < n \<and> chunks_ok cs' \<and> b + n \<le> length (layout cs) \<and>
   layout cs' = take b (layout cs) @ used_entries n @ drop (b + n) (layout cs)"
proof (induction cs arbitrary: b cs')
  case (Cons c cs)
  show ?case
  proof (cases "0 < n \<and> take n (c # cs) = replicate n Free")
    case True
    with layout_take_free [of n "c # cs"] Cons.prems show ?thesis
      by (auto simp: chunks_ok_drop simp del: layout.simps split: if_splits) (simp_all add: chunks_ok_drop)
  next
    case False
    with Cons.prems(1) obtain b1 cs1 where
      "chunk_malloc n cs = Some (b1, cs1)" "b = chunk_len c + b1" "cs' = c # cs1"
      by auto
    with Cons.IH [of b1 cs1] Cons.prems(2) show ?thesis by auto
  qed
qed simp

lemma chunk_malloc_free_blocks:
  "chunk_malloc n cs = Some (b, cs') \<Longrightarrow> chunks_ok cs \<Longrightarrow>
   take n (drop b (layout cs)) = replicate n 0"
proof (induction cs arbitrary: b cs')
  case (Cons c cs)
  show ?case
  proof (cases "0 < n \<and> take n (c # cs) = replicate n Free")
    case True
    with layout_take_free [of n "c # cs"] Cons.prems show ?thesis by simp
  next
    case False
    with Cons.prems(1) obtain b1 cs1 where
      "chunk_malloc n cs = Some (b1, cs1)" "b = chunk_len c + b1" by auto
    with Cons.IH [of b1 cs1] Cons.prems(2) show ?thesis by auto
  qed
qed simp

lemma chunk_live_replicate:
  "chunk_live (replicate n Free @ cs) b = (if b < n then None else chunk_live cs (b - n))"
  by (induction n arbitrary: b) auto

lemma chunk_live_Cons:
  "0 < chunk_len c \<Longrightarrow> chunk_live (c # cs) b =
    (if b < chunk_len c then (if b = 0 \<and> c \<noteq> Free then Some (chunk_len c) else None)
     else chunk_live cs (b - chunk_len c))"
  by (cases c) auto

lemma chunk_live_bound: "chunk_live cs b = Some n \<Longrightarrow> chunks_ok cs \<Longrightarrow> 0 < n \<and> b + n \<le> length (layout cs)"
proof (induction cs b rule: chunk_live.induct)
  case (3 k cs b)
  then show ?case by (fastforce split: if_splits)
qed (auto split: if_splits)

lemma chunk_live_apart:
  "chunk_live cs b = Some n \<Longrightarrow> chunk_live cs b' = Some n' \<Longrightarrow> chunks_ok cs \<Longrightarrow> b < b' \<Longrightarrow> b + n \<le> b'"
proof (induction cs b arbitrary: b' rule: chunk_live.induct)
  case (2 cs b)
  then show ?case by (fastforce split: if_splits)
next
  case (3 k cs b)
  then show ?case by (fastforce split: if_splits)
qed auto

lemma chunk_malloc_live:
  "chunk_malloc n cs = Some (b, cs') \<Longrightarrow> chunks_ok cs \<Longrightarrow>
   chunk_live cs b = None \<and> chunk_live cs' = (chunk_live cs)(b := Some n)"
proof (induction cs arbitrary: b cs')
  case (Cons c cs)
  show ?case
  proof (cases "0 < n \<and> take n (c # cs) = replicate n Free")
    case True
    then have c: "c # cs = replicate n Free @ drop n (c # cs)" by (metis append_take_drop_id)
    from True Cons.prems have "b = 0" "cs' = Used n # drop n (c # cs)" by auto
    moreover have "chunk_live (c # cs) = (\<lambda>b. if b < n then None else chunk_live (drop n (c # cs)) (b - n))"
      by (subst c) (rule ext, rule chunk_live_replicate)
    ultimately show ?thesis using True by (auto simp: fun_eq_iff)
  next
    case False
    with Cons.prems(1) obtain b1 cs1 where
      "chunk_malloc n cs = Some (b1, cs1)" "b = chunk_len c + b1" "cs' = c # cs1"
      by auto
    with Cons.IH [of b1 cs1] Cons.prems(2) show ?thesis
      by (auto simp: chunk_live_Cons fun_eq_iff)
  qed
qed simp

lemma chunk_free_layout:
  "chunk_live cs b = Some n \<Longrightarrow> chunks_ok cs \<Longrightarrow>
   layout cs = take b (layout cs) @ used_entries n @ drop (b + n) (layout cs) \<and>
   layout (chunk_free b cs) = take b (layout cs) @ replicate n 0 @ drop (b + n) (layout cs) \<and>
   chunks_ok (chunk_free b cs)"
proof (induction cs arbitrary: b)
  case (Cons c cs)
  show ?case
  proof (cases "b < chunk_len c")
    case True
    with Cons.prems show ?thesis by (cases c) (auto simp: chunk_live_Cons split: if_splits)
  next
    case False
    then obtain d where b: "b = chunk_len c + d" by (metis le_add_diff_inverse not_less)
    with Cons.prems have "chunk_live cs d = Some n" by (simp add: chunk_live_Cons)
    from Cons.IH [OF this] Cons.prems b show ?thesis
      by (simp add: add.assoc)
  qed
qed simp

lemma chunk_free_live:
  "chunk_live cs b = Some n \<Longrightarrow> chunks_ok cs \<Longrightarrow> chunk_live (chunk_free b cs) = (chunk_live cs)(b := None)"
proof (induction cs arbitrary: b)
  case (Cons c cs)
  show ?case
  proof (cases "b < chunk_len c")
    case True
    with Cons.prems show ?thesis
      by (cases c) (auto simp: fun_eq_iff chunk_live_replicate split: if_splits)
  next
    case False
    with Cons.prems have "chunk_live cs (b - chunk_len c) = Some n" by (simp add: chunk_live_Cons)
    with Cons.IH Cons.prems False show ?thesis by (auto simp: chunk_live_Cons fun_eq_iff)
  qed
qed simp

text \<open>The abstract round trip: giving back the run just handed out leaves the chunks as they were.\<close>

lemma chunk_free_malloc:
  "chunk_malloc n cs = Some (b, cs') \<Longrightarrow> chunks_ok cs \<Longrightarrow> chunk_free b cs' = cs"
proof (induction cs arbitrary: b cs')
  case (Cons c cs)
  show ?case
  proof (cases "0 < n \<and> take n (c # cs) = replicate n Free")
    case True
    then have "c # cs = replicate n Free @ drop n (c # cs)" by (metis append_take_drop_id)
    with True Cons.prems show ?thesis by auto
  next
    case False
    with Cons.prems(1) obtain b1 cs1 where
      "chunk_malloc n cs = Some (b1, cs1)" "b = chunk_len c + b1" "cs' = c # cs1"
      by auto
    with Cons.IH [of b1 cs1] Cons.prems(2) show ?thesis by auto
  qed
qed simp

section \<open>Addresses\<close>

text \<open>The heap starts on a non-zero block boundary and ends below 2 GB, so that block
  addresses are positive as C \<open>int\<close>s too.\<close>

definition heap_geom :: "heap \<Rightarrow> bool" where
  "heap_geom h \<longleftrightarrow> unat (h_saddr h) mod 4096 = 0 \<and> 0 < unat (h_saddr h) \<and>
     unat (h_saddr h) + 4096 * h_total h \<le> 2147483648"

definition heap_rep :: "heap \<Rightarrow> chunk list \<Rightarrow> bool" where
  "heap_rep h cs \<longleftrightarrow> h_entries h = layout cs \<and> chunks_ok cs \<and> heap_geom h"

definition heap_wf :: "heap \<Rightarrow> bool" where
  "heap_wf h \<longleftrightarrow> (\<exists>cs. heap_rep h cs)"

definition block_addr :: "heap \<Rightarrow> nat \<Rightarrow> u32" where
  "block_addr h b = h_saddr h + of_nat b * 4096"

lemma heap_geom_set_entries [simp]:
  "length es = h_total h \<Longrightarrow> heap_geom (set_entries es h) = heap_geom h"
  by (simp add: heap_geom_def)

lemma unat_block_addr:
  "heap_geom h \<Longrightarrow> b < h_total h \<Longrightarrow> unat (block_addr h b) = unat (h_saddr h) + 4096 * b"
proof -
  assume "heap_geom h" "b < h_total h"
  then have b: "unat (h_saddr h) + 4096 * b < 2147483648" by (simp add: heap_geom_def)
  then have "unat (of_nat b * 4096 :: u32) = 4096 * b"
    by (simp add: unat_word_ariths unat_of_nat_u32)
  with b show ?thesis by (simp add: block_addr_def unat_word_ariths)
qed

lemma block_addr_nonzero: "heap_geom h \<Longrightarrow> b < h_total h \<Longrightarrow> block_addr h b \<noteq> 0"
  using unat_block_addr [of h b] by (auto simp: heap_geom_def)

lemma heap_address_to_block_addr:
  assumes "heap_geom h" and "b < h_total h"
  shows "heap_address_to_block h (block_addr h b) = of_nat b"
proof -
  from assms have b: "4096 * b < 2147483648" by (simp add: heap_geom_def)
  have "block_addr h b - h_saddr h = of_nat b * 4096" by (simp add: block_addr_def)
  moreover have "unat (of_nat b * 4096 :: u32) = 4096 * b"
    using b by (simp add: unat_word_ariths unat_of_nat_u32)
  ultimately have "sint (block_addr h b - h_saddr h) = 4096 * int b"
    using b by (simp add: sint_eq_unat)
  then show ?thesis
    by (cases "b = 0") (simp_all add: heap_address_to_block_def signed_divide_int_def)
qed

lemma unat_align_to_upper:
  assumes "unat v \<le> 4294963200"
  shows "unat (heap_align_value_to_upper v) = 4096 * nblocks v"
proof (cases "unat v mod 4096 = 0")
  case True
  then have "v mod 4096 = 0" by (simp add: word_unat_eq_iff unat_mod_distrib)
  with True show ?thesis
    by (auto simp: heap_align_value_to_upper_def nblocks_def)
next
  case False
  define q r where "q = unat v div 4096" and "r = unat v mod 4096"
  have v: "unat v = 4096 * q + r" by (simp add: q_def r_def)
  have r: "0 < r" "r < 4096" using False by (simp_all add: r_def)
  from v r assms have "q < 1048575" by linarith
  then have q: "4096 * q + 4096 \<le> 4294963200" by linarith
  have m: "unat (v mod 4096) = r" by (simp add: r_def unat_mod_distrib)
  then have "v mod 4096 \<noteq> 0" using r(1) by (metis less_irrefl unat_0)
  moreover have "unat (v - v mod 4096) = 4096 * q"
    using m v by (simp add: unat_sub word_le_nat_alt)
  then have "unat (v - v mod 4096 + 4096) = 4096 * q + 4096"
    using q by (simp add: unat_word_ariths)
  moreover have "nblocks v = q + 1" using v r by (simp add: nblocks_def)
  ultimately show ?thesis by (simp add: heap_align_value_to_upper_def)
qed

lemma unat_total_blocks:
  "unat v \<le> 4294963200 \<Longrightarrow> unat (heap_align_value_to_upper v div 4096) = nblocks v"
  by (simp add: unat_div_distrib unat_align_to_upper)

section \<open>Allocation and release on bytes refine the operations on chunks\<close>

lemma heap_rep_total: "heap_rep h cs \<Longrightarrow> h_total h = length (layout cs) \<and> h_total h \<le> 524288"
  by (auto simp: heap_rep_def heap_geom_def)

lemma heap_malloc_eq:
  assumes rep: "heap_rep h cs" and good: "good_size n"
  shows "heap_malloc h n =
    (case chunk_malloc (nblocks n) cs of
       Some (b, cs') \<Rightarrow> Some (block_addr h b, set_entries (layout cs') h)
     | None \<Rightarrow> if trailing (free_map h) = 0 then Some (0, h) else None)"
proof -
  let ?t = "heap_align_value_to_upper n div 4096"
  have t: "unat ?t = nblocks n" using good by (simp add: unat_total_blocks good_size_def)
  note nb = nblocks_bounds [OF good]
  from rep have ok: "chunks_ok cs" and es: "h_entries h = layout cs" by (simp_all add: heap_rep_def)
  note tot = heap_rep_total [OF rep]
  have start: "heap_get_start_block h ?t = (case chunk_malloc (nblocks n) cs of
      Some (b, cs') \<Rightarrow> int b
    | None \<Rightarrow> if trailing (free_map h) = 0 then - ENOMEM else int (h_total h - trailing (free_map h)))"
    by (auto simp: heap_get_start_block_eq t es first_fit_chunks [OF ok] split: option.splits)
  show ?thesis
  proof (cases "chunk_malloc (nblocks n) cs")
    case None
    let ?s = "h_total h - trailing (free_map h)"
    have "trailing (free_map h) \<le> h_total h" using trailing_le [of "free_map h"] by simp
    moreover have "trailing (free_map h) < nblocks n" if "trailing (free_map h) \<noteq> 0"
      using first_fit_None_trailing [of "nblocks n" "free_map h"] None nb
      by (simp add: es first_fit_chunks [OF ok])
    ultimately show ?thesis
      using None start tot nb heap_mark_blocks_taken_overrun [of h ?s ?t]
      by (auto simp: heap_malloc_def heap_malloc_blocks_def Let_def t ENOMEM_def)
  next
    case (Some r)
    then obtain b cs' where r: "chunk_malloc (nblocks n) cs = Some (b, cs')" by (cases r) auto
    from chunk_malloc_layout [OF r ok] tot es
    have "heap_mark_blocks_taken h (of_nat b) ?t = Some (set_entries (layout cs') h)"
      by (subst heap_mark_blocks_taken_fits) (auto simp: t)
    with r start show ?thesis
      by (simp add: heap_malloc_def heap_malloc_blocks_def Let_def block_addr_def heap_block_to_address_def)
  qed
qed

lemma heap_free_eq:
  assumes rep: "heap_rep h cs" and live: "chunk_live cs b = Some n"
  shows "heap_free h (block_addr h b) = set_entries (layout (chunk_free b cs)) h"
proof -
  from rep have ok: "chunks_ok cs" and es: "h_entries h = layout cs" and geom: "heap_geom h"
    by (simp_all add: heap_rep_def)
  from chunk_live_bound [OF live ok] es have b: "b < h_total h" and n: "0 < n" "b + n \<le> length (layout cs)"
    by auto
  then have "unat (heap_address_to_block h (block_addr h b)) = b"
    using heap_rep_total [OF rep] by (simp add: heap_address_to_block_addr geom unat_of_nat_u32)
  moreover have "mark_free_loop (layout cs) b = layout (chunk_free b cs)"
    using chunk_free_layout [OF live ok] mark_free_loop_used [OF n(1), of "take b (layout cs)"] n
    by (metis add_leD1 length_take min.absorb2)
  ultimately show ?thesis by (simp add: heap_free_def heap_mark_blocks_free_def es)
qed

lemma heap_rep_set_layout:
  "heap_rep h cs \<Longrightarrow> chunks_ok cs' \<Longrightarrow> length (layout cs') = length (layout cs) \<Longrightarrow>
   heap_rep (set_entries (layout cs') h) cs'"
  by (simp add: heap_rep_def)

lemma heap_rep_malloc:
  "heap_rep h cs \<Longrightarrow> chunk_malloc n cs = Some (b, cs') \<Longrightarrow> heap_rep (set_entries (layout cs') h) cs'"
  using chunk_malloc_layout [of n cs b cs'] by (auto simp: heap_rep_def intro!: heap_rep_set_layout)

lemma heap_rep_free:
  assumes "heap_rep h cs" and "chunk_live cs b = Some n"
  shows "heap_rep (set_entries (layout (chunk_free b cs)) h) (chunk_free b cs)"
  using assms chunk_free_layout [OF assms(2)] chunk_live_bound [OF assms(2)]
  by (intro heap_rep_set_layout) (auto simp: heap_rep_def)

section \<open>Live allocations\<close>

text \<open>The allocations a table records, read off its bytes: an address is live if it is that of a
  block marked first, and its length follows the has-next flags.\<close>

fun run_len :: "u8 list \<Rightarrow> nat" where
  "run_len [] = 0"
| "run_len (e # es) = (if e AND HEAP_BLOCK_HAS_NEXT = 0 then 1 else Suc (run_len es))"

definition heap_live :: "heap \<Rightarrow> u32 \<Rightarrow> nat option" where
  "heap_live h p =
     (let d = unat p - unat (h_saddr h); b = d div 4096
      in if unat (h_saddr h) \<le> unat p \<and> d mod 4096 = 0 \<and> b < h_total h \<and>
            h_entries h ! b AND HEAP_BLOCK_IS_FIRST \<noteq> 0
         then Some (run_len (drop b (h_entries h))) else None)"

definition heap_room :: "heap \<Rightarrow> nat" where
  "heap_room h = length (filter blk_free (h_entries h))"

lemma run_len_tail: "0 < k \<Longrightarrow> run_len (mark_tail k @ es) = k"
proof (induction k)
  case (Suc k)
  then show ?case by (cases k) auto
qed simp

lemma run_len_used: "0 < n \<Longrightarrow> run_len (used_entries n @ es) = n"
  by (cases "n = 1") (auto simp: used_entries_def run_len_tail)

lemma mark_tail_not_first: "e \<in> set (mark_tail k) \<Longrightarrow> e AND 0x40 = 0"
  by (induction k) (auto split: if_splits)

lemma used_entries_first: "0 < b \<Longrightarrow> b < n \<Longrightarrow> used_entries n ! b AND 0x40 = 0"
  by (auto simp: used_entries_def nth_Cons' intro!: mark_tail_not_first nth_mem)

lemma used_entries_hd: "used_entries n ! 0 AND 0x40 = 0x40"
  by (simp add: used_entries_def)

lemma chunk_live_eq:
  "chunks_ok cs \<Longrightarrow> b < length (layout cs) \<Longrightarrow>
   chunk_live cs b = (if layout cs ! b AND 0x40 = 0 then None else Some (run_len (drop b (layout cs))))"
proof (induction cs arbitrary: b)
  case (Cons c cs)
  show ?case
  proof (cases "b < chunk_len c")
    case True
    with Cons.prems show ?thesis
      by (cases c; cases "b = 0")
         (auto simp: nth_append used_entries_first used_entries_hd run_len_used)
  next
    case False
    with Cons show ?thesis by (auto simp: chunk_live_Cons nth_append)
  qed
qed simp

lemma block_addr_cases:
  assumes "heap_geom h" and "unat (h_saddr h) \<le> unat p" and "(unat p - unat (h_saddr h)) mod 4096 = 0"
    and "(unat p - unat (h_saddr h)) div 4096 < h_total h"
  shows "p = block_addr h ((unat p - unat (h_saddr h)) div 4096)"
proof -
  let ?d = "unat p - unat (h_saddr h)"
  have "4096 * (?d div 4096) = ?d" using assms(3) by (metis add_0_right mult_div_mod_eq)
  with assms have "unat (block_addr h (?d div 4096)) = unat p" by (simp add: unat_block_addr)
  then show ?thesis by (simp add: word_unat_eq_iff)
qed

lemma heap_live_block:
  assumes "heap_rep h cs" and "b < h_total h"
  shows "heap_live h (block_addr h b) = chunk_live cs b"
proof -
  from assms(1) have ok: "chunks_ok cs" and es: "h_entries h = layout cs" and geom: "heap_geom h"
    by (simp_all add: heap_rep_def)
  note unat_block_addr [OF geom assms(2)]
  then have "unat (block_addr h b) - unat (h_saddr h) = 4096 * b" "unat (h_saddr h) \<le> unat (block_addr h b)"
    by simp_all
  then show ?thesis
    using chunk_live_eq [OF ok, of b] assms(2) by (simp add: heap_live_def es)
qed

lemma if_Some_None: "(if c then Some x else None) \<noteq> None \<longleftrightarrow> c"
  by simp

lemma heap_live_not_None:
  "heap_live h p \<noteq> None \<longleftrightarrow> unat (h_saddr h) \<le> unat p \<and> (unat p - unat (h_saddr h)) mod 4096 = 0 \<and>
     (unat p - unat (h_saddr h)) div 4096 < h_total h \<and>
     h_entries h ! ((unat p - unat (h_saddr h)) div 4096) AND 0x40 \<noteq> 0"
  unfolding heap_live_def Let_def by (rule if_Some_None)

lemma heap_live_other:
  "heap_geom h \<Longrightarrow> (\<And>b. b < h_total h \<Longrightarrow> p \<noteq> block_addr h b) \<Longrightarrow> heap_live h p = None"
proof (rule ccontr)
  let ?b = "(unat p - unat (h_saddr h)) div 4096"
  assume geom: "heap_geom h" and other: "\<And>b. b < h_total h \<Longrightarrow> p \<noteq> block_addr h b" and "heap_live h p \<noteq> None"
  then have "unat (h_saddr h) \<le> unat p" "(unat p - unat (h_saddr h)) mod 4096 = 0" "?b < h_total h"
    unfolding heap_live_not_None by blast+
  from block_addr_cases [OF geom this] other [OF this(3)] show False by blast
qed

lemma block_addr_inj:
  "heap_geom h \<Longrightarrow> b < h_total h \<Longrightarrow> b' < h_total h \<Longrightarrow> block_addr h b = block_addr h b' \<longleftrightarrow> b = b'"
proof
  assume "heap_geom h" "b < h_total h" "b' < h_total h" and eq: "block_addr h b = block_addr h b'"
  then have "unat (h_saddr h) + 4096 * b = unat (h_saddr h) + 4096 * b'"
    by (metis unat_block_addr)
  then show "b = b'" by simp
qed simp

lemma block_addr_set_entries [simp]: "block_addr (set_entries es h) = block_addr h"
  by (simp add: block_addr_def fun_eq_iff)

lemma heap_live_upd:
  assumes rep: "heap_rep h cs" and rep': "heap_rep (set_entries (layout cs') h) cs'"
    and len: "length (layout cs') = h_total h" and b: "b < h_total h"
    and upd: "chunk_live cs' = (chunk_live cs)(b := r)"
  shows "heap_live (set_entries (layout cs') h) = (heap_live h)(block_addr h b := r)"
proof
  fix p
  let ?h = "set_entries (layout cs') h"
  from rep rep' have geom: "heap_geom h" "heap_geom ?h" by (simp_all add: heap_rep_def)
  show "heap_live ?h p = ((heap_live h)(block_addr h b := r)) p"
  proof (cases "\<exists>b' < h_total h. p = block_addr h b'")
    case True
    then obtain b' where b': "b' < h_total h" "p = block_addr h b'" by blast
    with len have "heap_live ?h p = chunk_live cs' b'" using heap_live_block [OF rep', of b'] by simp
    with b' heap_live_block [OF rep b'(1)] block_addr_inj [OF geom(1) b b'(1)] upd show ?thesis by auto
  next
    case False
    then have "heap_live ?h p = None" "heap_live h p = None"
      using geom len by (auto intro!: heap_live_other)
    with False b show ?thesis by auto
  qed
qed

lemma heap_live_malloc:
  assumes rep: "heap_rep h cs" and m: "chunk_malloc n cs = Some (b, cs')"
  shows "heap_live h (block_addr h b) = None"
    and "heap_live (set_entries (layout cs') h) = (heap_live h)(block_addr h b \<mapsto> n)"
proof -
  from rep have ok: "chunks_ok cs" and es: "h_entries h = layout cs" by (simp_all add: heap_rep_def)
  from chunk_malloc_layout [OF m ok] es have b: "b < h_total h" and len: "length (layout cs') = h_total h"
    by auto
  from chunk_malloc_live [OF m ok] have ml: "chunk_live cs b = None" "chunk_live cs' = (chunk_live cs)(b \<mapsto> n)"
    by auto
  show "heap_live h (block_addr h b) = None" using heap_live_block [OF rep b] ml by simp
  show "heap_live (set_entries (layout cs') h) = (heap_live h)(block_addr h b \<mapsto> n)"
    by (rule heap_live_upd [OF rep heap_rep_malloc [OF rep m] len b ml(2)])
qed

lemma heap_live_free:
  assumes rep: "heap_rep h cs" and l: "chunk_live cs b = Some n"
  shows "heap_live (set_entries (layout (chunk_free b cs)) h) = (heap_live h)(block_addr h b := None)"
proof -
  from rep have ok: "chunks_ok cs" and es: "h_entries h = layout cs" by (simp_all add: heap_rep_def)
  have b: "b < h_total h" and len: "length (layout (chunk_free b cs)) = h_total h"
    using chunk_free_layout [OF l ok] chunk_live_bound [OF l ok] es by auto
  show ?thesis by (rule heap_live_upd [OF rep heap_rep_free [OF rep l] len b chunk_free_live [OF l ok]])
qed

lemma heap_live_Some:
  assumes rep: "heap_rep h cs" and "heap_live h p = Some k"
  obtains b where "b < h_total h" "p = block_addr h b" "chunk_live cs b = Some k"
proof -
  have "heap_geom h" using rep by (simp add: heap_rep_def)
  then obtain b where "b < h_total h" "p = block_addr h b"
    using heap_live_other [of h p] assms(2) by fastforce
  with heap_live_block [OF rep] assms(2) that show ?thesis by auto
qed

text \<open>The table is determined by its live allocations: \<open>heap_live\<close> loses nothing.\<close>

lemma chunk_live_inj:
  "chunk_live cs = chunk_live cs' \<Longrightarrow> chunks_ok cs \<Longrightarrow> chunks_ok cs' \<Longrightarrow>
   length (layout cs) = length (layout cs') \<Longrightarrow> cs = cs'"
proof (induction cs arbitrary: cs')
  case Nil
  then show ?case by (cases cs') auto
next
  case (Cons c cs)
  from Cons.prems obtain c' cs1 where cs': "cs' = c' # cs1" by (cases cs') auto
  with Cons.prems have ok: "0 < chunk_len c" "0 < chunk_len c'" by auto
  have "chunk_live (c # cs) 0 = chunk_live (c' # cs1) 0" using Cons.prems(1) cs' by simp
  with ok have c: "c' = c" by (cases c; cases c') auto
  have "chunk_live cs b = chunk_live cs1 b" for b
  proof -
    have "chunk_live (c # cs) (chunk_len c + b) = chunk_live (c # cs1) (chunk_len c + b)"
      using Cons.prems(1) cs' c by simp
    with ok show ?thesis by (simp add: chunk_live_Cons)
  qed
  with Cons cs' c show ?case by auto
qed

lemma heap_live_determines:
  assumes "heap_wf h" "heap_wf h'" "h_saddr h' = h_saddr h" "h_total h' = h_total h" "heap_live h' = heap_live h"
  shows "h_entries h' = h_entries h"
proof -
  from assms obtain cs cs' where rep: "heap_rep h cs" and rep': "heap_rep h' cs'" by (auto simp: heap_wf_def)
  then have es: "h_entries h = layout cs" "h_entries h' = layout cs'" and ok: "chunks_ok cs" "chunks_ok cs'"
    by (simp_all add: heap_rep_def)
  have addr: "block_addr h' = block_addr h" using assms(3) by (simp add: block_addr_def fun_eq_iff)
  have "chunk_live cs b = chunk_live cs' b" for b
  proof (cases "b < h_total h")
    case True
    with heap_live_block [OF rep] heap_live_block [OF rep'] assms(4,5) addr show ?thesis by metis
  next
    case False
    have "chunk_live cs b = None" if "chunks_ok cs" "\<not> b < length (layout cs)" for cs
      using chunk_live_bound [of cs b] that by (cases "chunk_live cs b") auto
    from this [OF ok(1)] this [OF ok(2)] False es assms(4) show ?thesis by simp
  qed
  then have "cs = cs'" using chunk_live_inj [OF _ ok] es assms(4) by auto
  with es show ?thesis by simp
qed

section \<open>The heap is an allocator\<close>

lemma heap_room_chunks: "heap_rep h cs \<Longrightarrow> heap_room h = count_list cs Free"
proof -
  have "chunks_ok cs \<Longrightarrow> length (filter blk_free (layout cs)) = count_list cs Free" for cs
  proof (induction cs)
    case (Cons c cs)
    then show ?case by (cases c) (auto simp: filter_False used_entries_not_free)
  qed simp
  then show "heap_rep h cs \<Longrightarrow> heap_room h = count_list cs Free"
    by (simp add: heap_room_def heap_rep_def)
qed

lemma count_list_Free: "count_list (replicate n Free) Free = n"
  by (induction n) simp_all

lemma chunk_free_count:
  "chunk_live cs b = Some n \<Longrightarrow> chunks_ok cs \<Longrightarrow> count_list (chunk_free b cs) Free = count_list cs Free + n"
proof (induction cs b rule: chunk_live.induct)
  case (3 k cs b)
  then show ?case by (auto simp: count_list_Free split: if_splits)
qed (auto split: if_splits)

lemma chunk_malloc_one:
  "0 < count_list cs Free \<Longrightarrow> chunk_malloc 1 cs \<noteq> None"
  by (induction cs) auto

lemma chunk_malloc_one_count:
  "chunk_malloc 1 cs = Some (b, cs') \<Longrightarrow> Suc (count_list cs' Free) = count_list cs Free"
proof (induction cs arbitrary: b cs')
  case (Cons c cs)
  then show ?case by (cases c) (auto split: if_splits)
qed simp

lemma free_map_room: "heap_room h = 0 \<Longrightarrow> trailing (free_map h) = 0"
proof -
  assume "heap_room h = 0"
  then have "filter blk_free (h_entries h) = []" by (simp add: heap_room_def)
  then have "\<forall>f \<in> set (rev (free_map h)). \<not> id f" by (auto simp: filter_empty_conv)
  then have "takeWhile id (rev (free_map h)) = []" by (cases "rev (free_map h)") auto
  then show "trailing (free_map h) = 0" by (simp add: trailing_def)
qed

lemma heap_malloc_cases:
  assumes "heap_wf h" and "good_size n" and "heap_malloc h n = Some (p, h')"
  obtains (full) "p = 0" "h' = h"
  | (chunk) cs b cs' where "heap_rep h cs" "chunk_malloc (nblocks n) cs = Some (b, cs')" "b < h_total h"
      "p = block_addr h b" "h' = set_entries (layout cs') h" "heap_rep h' cs'"
proof -
  from assms(1) obtain cs where rep: "heap_rep h cs" by (auto simp: heap_wf_def)
  show ?thesis
  proof (cases "chunk_malloc (nblocks n) cs")
    case None
    with assms(3) heap_malloc_eq [OF rep assms(2)] have "p = 0" "h' = h" by (auto split: if_splits)
    then show ?thesis by (rule full)
  next
    case (Some r)
    then obtain b cs' where r: "chunk_malloc (nblocks n) cs = Some (b, cs')" by (cases r) auto
    with assms(3) heap_malloc_eq [OF rep assms(2)]
    have "p = block_addr h b" "h' = set_entries (layout cs') h" by auto
    moreover have "b < h_total h"
      using chunk_malloc_layout [OF r] rep nblocks_bounds(1) [OF assms(2)] by (auto simp: heap_rep_def)
    ultimately show ?thesis using chunk [OF rep r] heap_rep_malloc [OF rep r] by simp
  qed
qed

lemma heap_wf_free:
  assumes "heap_wf h" and "heap_live h p = Some k"
  shows "heap_wf (heap_free h p)" and "heap_live (heap_free h p) = (heap_live h)(p := None)"
proof -
  from assms(1) obtain cs where rep: "heap_rep h cs" by (auto simp: heap_wf_def)
  obtain b where b: "p = block_addr h b" "chunk_live cs b = Some k"
    using heap_live_Some [OF rep assms(2)] by blast
  note f = heap_free_eq [OF rep b(2)]
  show "heap_wf (heap_free h p)" using heap_rep_free [OF rep b(2)] f b(1) by (auto simp: heap_wf_def)
  show "heap_live (heap_free h p) = (heap_live h)(p := None)"
    using heap_live_free [OF rep b(2)] f b(1) by simp
qed

lemma heap_room_free:
  assumes "heap_wf h" and "heap_live h p = Some k"
  shows "heap_room (heap_free h p) = heap_room h + k"
proof -
  from assms(1) obtain cs where rep: "heap_rep h cs" by (auto simp: heap_wf_def)
  obtain b where b: "p = block_addr h b" "chunk_live cs b = Some k"
    using heap_live_Some [OF rep assms(2)] by blast
  have "chunks_ok cs" using rep by (simp add: heap_rep_def)
  then show ?thesis
    using heap_room_chunks [OF heap_rep_free [OF rep b(2)]] heap_room_chunks [OF rep] chunk_free_count [OF b(2)]
    by (simp add: b(1) heap_free_eq [OF rep b(2)])
qed

lemma heap_live_span:
  assumes "heap_wf h" and "heap_live h p = Some k"
  shows "0 < k" and "unat (h_saddr h) \<le> unat p" and "unat p mod 4096 = 0"
    and "unat p + 4096 * k \<le> unat (h_saddr h) + 4096 * h_total h"
proof -
  from assms(1) obtain cs where rep: "heap_rep h cs" by (auto simp: heap_wf_def)
  obtain b where b: "b < h_total h" "p = block_addr h b" "chunk_live cs b = Some k"
    using heap_live_Some [OF rep assms(2)] by blast
  from rep have geom: "heap_geom h" and ok: "chunks_ok cs" and es: "h_entries h = layout cs"
    by (simp_all add: heap_rep_def)
  have p: "unat p = unat (h_saddr h) + 4096 * b" using unat_block_addr [OF geom b(1)] b(2) by simp
  have k: "0 < k \<and> b + k \<le> h_total h" using chunk_live_bound [OF b(3) ok] es by simp
  show "0 < k" "unat (h_saddr h) \<le> unat p" "unat p + 4096 * k \<le> unat (h_saddr h) + 4096 * h_total h"
    using p k by linarith+
  show "unat p mod 4096 = 0" unfolding p using geom by (simp add: heap_geom_def mod_add_left_eq)
qed

lemma heap_live_apart:
  assumes "heap_wf h" "heap_live h p = Some k" "heap_live h q = Some j" "unat p < unat q"
  shows "unat p + 4096 * k \<le> unat q"
proof -
  from assms(1) obtain cs where rep: "heap_rep h cs" by (auto simp: heap_wf_def)
  obtain b where b: "b < h_total h" "p = block_addr h b" "chunk_live cs b = Some k"
    using heap_live_Some [OF rep assms(2)] by blast
  obtain c where c: "c < h_total h" "q = block_addr h c" "chunk_live cs c = Some j"
    using heap_live_Some [OF rep assms(3)] by blast
  from rep have geom: "heap_geom h" and ok: "chunks_ok cs" by (simp_all add: heap_rep_def)
  have p: "unat p = unat (h_saddr h) + 4096 * b" "unat q = unat (h_saddr h) + 4096 * c"
    using unat_block_addr [OF geom] b c by simp_all
  with assms(4) have "b < c" by simp
  with chunk_live_apart [OF b(3) c(3) ok] p show ?thesis by simp
qed

interpretation blocks: page_allocator heap_malloc heap_free heap_live heap_wf heap_room
proof
  fix h h' n p k q j
  assume wf: "heap_wf h"
  show "h' = h" if "good_size n" "heap_malloc h n = Some (0, h')"
    using wf that block_addr_nonzero by (cases rule: heap_malloc_cases) (auto simp: heap_rep_def)
  show "heap_wf h'" if "good_size n" "heap_malloc h n = Some (p, h')"
    using wf that
  proof (cases rule: heap_malloc_cases)
    case full
    with wf show ?thesis by simp
  next
    case (chunk cs b cs')
    then show ?thesis by (auto simp: heap_wf_def)
  qed
  show "heap_live h p = None \<and> heap_live h' = (heap_live h)(p \<mapsto> nblocks n)"
    if "good_size n" "heap_malloc h n = Some (p, h')" "p \<noteq> 0"
    using wf that(1,2)
  proof (cases rule: heap_malloc_cases)
    case (chunk cs b cs')
    then show ?thesis using heap_live_malloc by simp
  qed (use that in simp)
  show "heap_wf (heap_free h p)" "heap_live (heap_free h p) = (heap_live h)(p := None)"
    if "heap_live h p = Some k"
    using heap_wf_free [OF wf that] by simp_all
  show "heap_room (heap_free h p) = heap_room h + k" if "heap_live h p = Some k"
    using heap_room_free [OF wf that] .
  show "0 < k \<and> p \<noteq> 0 \<and> unat p mod 4096 = 0 \<and> unat p + 4096 * k \<le> 2147483648"
    if "heap_live h p = Some k"
    using heap_live_span [OF wf that] wf by (auto simp: heap_wf_def heap_rep_def heap_geom_def)
  show "unat p + 4096 * k \<le> unat q"
    if "heap_live h p = Some k" "heap_live h q = Some j" "unat p < unat q"
    using heap_live_apart [OF wf that] .
  from wf obtain cs where rep: "heap_rep h cs" by (auto simp: heap_wf_def)
  assume n: "0 < unat n" "unat n \<le> 4096"
  then have good: "good_size n" and one: "nblocks n = 1" by (simp_all add: good_size_small nblocks_one)
  show "heap_malloc h n = Some (0, h)" if "heap_room h = 0"
  proof -
    have "count_list cs Free = 0" using that heap_room_chunks [OF rep] by simp
    then have "chunk_malloc 1 cs = None" by (induction cs) (auto split: if_splits)
    with heap_malloc_eq [OF rep good] one free_map_room [OF that] show ?thesis by simp
  qed
  show "\<exists>p h'. heap_malloc h n = Some (p, h') \<and> p \<noteq> 0 \<and> Suc (heap_room h') = heap_room h"
    if "0 < heap_room h"
  proof -
    have "0 < count_list cs Free" using that heap_room_chunks [OF rep] by simp
    then obtain b cs' where m: "chunk_malloc 1 cs = Some (b, cs')" using chunk_malloc_one by fastforce
    then have "heap_malloc h n = Some (block_addr h b, set_entries (layout cs') h)"
      using heap_malloc_eq [OF rep good] one by simp
    moreover have "block_addr h b \<noteq> 0"
      using chunk_malloc_layout [OF m] rep by (intro block_addr_nonzero) (auto simp: heap_rep_def)
    moreover have "Suc (heap_room (set_entries (layout cs') h)) = heap_room h"
      using chunk_malloc_one_count [OF m] heap_room_chunks rep heap_rep_malloc [OF rep m] by metis
    ultimately show ?thesis by blast
  qed
qed

section \<open>Properties of the allocator\<close>

text \<open>Two small heaps for the witnesses: four free blocks; and a block in use before one free block.\<close>

definition heap4 :: heap where
  "heap4 = \<lparr>h_table = \<lparr>ht_entries = [0, 0, 0, 0]\<rparr>, h_saddr = 0x01000000\<rparr>"

definition heap2 :: heap where
  "heap2 = \<lparr>h_table = \<lparr>ht_entries = [0x41, 0]\<rparr>, h_saddr = 0x01000000\<rparr>"

lemma heap4_rep: "heap_rep heap4 [Free, Free, Free, Free]"
  by (simp add: heap4_def heap_rep_def heap_geom_def)

lemma heap2_rep: "heap_rep heap2 [Used 1, Free]"
  by (simp add: heap2_def heap_rep_def heap_geom_def used_entries_def)

lemma heap4_wf: "heap_wf heap4"
  using heap4_rep by (auto simp: heap_wf_def)

lemma size_8192: "good_size 8192" "nblocks 8192 = 2"
  by (simp_all add: good_size_def nblocks_def)

lemma chunk_malloc_two:
  "chunk_malloc (nblocks 8192) [Free, Free, Free, Free] = Some (0, [Used 2, Free, Free])"
  "chunk_malloc (nblocks 8192) [Used 1, Free] = None"
  by (simp_all add: size_8192(2) numeral_2_eq_2)

lemma heap4_malloc:
  "heap_malloc heap4 8192 = Some (0x01000000, set_entries [0xC1, 0x01, 0, 0] heap4)"
proof -
  have "layout [Used 2, Free, Free] = [0xC1, 0x01, 0, 0]"
    by (simp add: used_entries_def)
  moreover have "block_addr heap4 0 = 0x01000000" by (simp add: block_addr_def heap4_def)
  ultimately show ?thesis
    using heap_malloc_eq [OF heap4_rep size_8192(1)] unfolding chunk_malloc_two by simp
qed

text \<open>C1. An allocation that succeeds is safe: the pointer is not null, lies on a block boundary
  inside the heap, was not handed out before, and its blocks overlap no run handed out earlier;
  the table stays well formed and records exactly this run in addition.\<close>

theorem heap_malloc_safe:
  assumes "heap_wf h" and "good_size n" and "heap_malloc h n = Some (p, h')" and "p \<noteq> 0"
  shows "heap_wf h' \<and> heap_live h p = None \<and> heap_live h' = (heap_live h)(p \<mapsto> nblocks n) \<and>
    unat p mod 4096 = 0 \<and> unat p + 4096 * nblocks n \<le> unat (h_saddr h) + 4096 * h_total h \<and>
    (\<forall>q k a. heap_live h q = Some k \<longrightarrow> in_range a p (4096 * nblocks n) \<longrightarrow> \<not> in_range a q (4096 * k))"
proof -
  from blocks.alloc_live [OF assms] blocks.alloc_wf [OF assms(1-3)]
  have l: "heap_live h p = None" "heap_live h' = (heap_live h)(p \<mapsto> nblocks n)" "heap_wf h'" by auto
  have "h_saddr h' = h_saddr h \<and> h_total h' = h_total h"
    using assms(1-3) by (cases rule: heap_malloc_cases)
      (auto simp: heap_rep_def dest: chunk_malloc_layout)
  moreover from l have "heap_live h' p = Some (nblocks n)" by simp
  ultimately show ?thesis
    using heap_live_span [OF l(3)] l blocks.alloc_disjoint [OF assms] by metis
qed

theorem heap_malloc_safe_witness:
  "heap_wf (set_entries [0xC1, 0x01, 0, 0] heap4) \<and> heap_live heap4 0x01000000 = None"
  using heap_malloc_safe [OF heap4_wf size_8192(1) heap4_malloc] by simp

text \<open>C12. On a well-formed table the byte-level allocator refines first fit on chunks: it hands
  out the lowest run of enough free blocks, and the new table is the one with that run in use.\<close>

theorem heap_malloc_refines:
  assumes "heap_rep h cs" and "good_size n" and "chunk_malloc (nblocks n) cs = Some (b, cs')"
  shows "\<exists>h'. heap_malloc h n = Some (block_addr h b, h') \<and> heap_rep h' cs' \<and>
    (\<forall>s < b. take (nblocks n) (drop s (free_map h)) \<noteq> replicate (nblocks n) True)"
proof -
  have "first_fit (nblocks n) (free_map h) = Some b"
    using assms by (simp add: heap_rep_def first_fit_chunks)
  then show ?thesis
    using heap_malloc_eq [OF assms(1,2)] assms(3) heap_rep_malloc [OF assms(1,3)]
    by (auto dest: first_fit_least)
qed

theorem heap_malloc_refines_witness:
  "\<exists>h'. heap_malloc heap4 8192 = Some (block_addr heap4 0, h') \<and> heap_rep h' [Used 2, Free, Free] \<and>
    (\<forall>s < 0. take (nblocks 8192) (drop s (free_map heap4)) \<noteq> replicate (nblocks 8192) True)"
  by (rule heap_malloc_refines [OF heap4_rep size_8192(1)]) (rule chunk_malloc_two)

text \<open>C22. Releasing what was just allocated restores the heap, byte for byte.\<close>

theorem heap_free_malloc:
  assumes "heap_wf h" and "good_size n" and "heap_malloc h n = Some (p, h')" and "p \<noteq> 0"
  shows "heap_free h' p = h"
  using assms(1-3)
proof (cases rule: heap_malloc_cases)
  case (chunk cs b cs')
  then have ok: "chunks_ok cs" and es: "h_entries h = layout cs" by (simp_all add: heap_rep_def)
  have live: "chunk_live cs' b = Some (nblocks n)" using chunk_malloc_live [OF chunk(2) ok] by simp
  have "heap_free h' (block_addr h' b) = set_entries (layout cs) h'"
    using heap_free_eq [OF chunk(6) live] chunk_free_malloc [OF chunk(2) ok] by simp
  with chunk(4,5) show ?thesis by (simp flip: es)
qed (use assms(4) in simp)

theorem heap_free_malloc_witness: "heap_free (set_entries [0xC1, 0x01, 0, 0] heap4) 0x01000000 = heap4"
  using heap_free_malloc [OF heap4_wf size_8192(1) heap4_malloc] by simp

text \<open>C23. When no run of free blocks is long enough, the allocator reports failure only if the
  last block of the table is in use. Otherwise it takes the short free run at the end of the table
  for a hit and marks blocks past the end of the table.\<close>

theorem heap_malloc_no_room:
  assumes "heap_rep h cs" and "good_size n" and "chunk_malloc (nblocks n) cs = None"
  shows "heap_malloc h n = (if cs \<noteq> [] \<and> last cs = Free then None else Some (0, h))"
proof -
  have "trailing (map blk_free (layout cs)) = 0 \<longleftrightarrow> \<not> (cs \<noteq> [] \<and> last cs = Free)" if "chunks_ok cs" for cs
  proof (cases cs rule: rev_cases)
    case (snoc ds c)
    then show ?thesis
    proof (cases c)
      case (Used k)
      with snoc that obtain j where "k = Suc j" by (auto simp: gr0_conv_Suc)
      then have "map blk_free (layout cs) = (map blk_free (layout ds) @ replicate j False) @ False # []"
        by (simp add: snoc Used used_entries_map replicate_append_same)
      then have "trailing (map blk_free (layout cs)) = 0" by (simp only: trailing_barrier trailing_Nil)
      with snoc Used show ?thesis by simp
    qed (simp add: snoc trailing_def)
  qed simp
  with assms(1) have "trailing (free_map h) = 0 \<longleftrightarrow> \<not> (cs \<noteq> [] \<and> last cs = Free)"
    by (simp add: heap_rep_def)
  with heap_malloc_eq [OF assms(1,2)] assms(3) show ?thesis by auto
qed

theorem heap_malloc_no_room_witness: "heap_malloc heap2 8192 = None"
  using heap_malloc_no_room [OF heap2_rep size_8192(1) chunk_malloc_two(2)] by simp

lemma align_bad_size: "\<not> good_size n \<Longrightarrow> heap_align_value_to_upper n div 4096 = 0"
proof (cases "n = 0")
  case True
  then show ?thesis by (simp add: heap_align_value_to_upper_def)
next
  case False
  assume "\<not> good_size n"
  with False have "4294963200 < unat n" by (auto simp: good_size_def unat_gt_0)
  moreover from this have "unat n = (unat n - 4294963200) + 1048575 * 4096" by simp
  then have "unat n mod 4096 = (unat n - 4294963200) mod 4096" by (metis mod_mult_self1)
  then have "unat n mod 4096 = unat n - 4294963200" using unat_u32_lt [of n] by simp
  moreover have "unat (n mod 4096) = unat n mod 4096" by (simp add: unat_mod_distrib)
  ultimately have m: "unat (n mod 4096) = unat n - 4294963200" "n mod 4096 \<noteq> 0"
    by (auto simp: word_unat_eq_iff)
  then have "unat (n - n mod 4096) = 4294963200"
    using \<open>4294963200 < unat n\<close> by (simp add: unat_sub word_le_nat_alt)
  then have "n - n mod 4096 = 4294963200" by (simp add: word_unat_eq_iff)
  with m show ?thesis by (simp add: heap_align_value_to_upper_def)
qed

text \<open>C24. A request of no byte, or of more than 4 GB less one block (whose rounding up wraps to 0),
  reserves nothing: with a used block somewhere and a free block at the end of the table, the caller
  gets a non-null pointer to blocks that stay free; with every block free, the marking loop runs past
  the table.\<close>

theorem heap_malloc_bad_size:
  assumes "heap_rep h cs" and "\<not> good_size n"
  shows "heap_malloc h n =
    (let t = trailing (free_map h)
     in if t = 0 then Some (0, h) else if t = h_total h then None
        else Some (block_addr h (h_total h - t), h))"
proof -
  let ?t = "trailing (free_map h)" and ?s = "h_total h - trailing (free_map h)"
  have le: "?t \<le> h_total h" using trailing_le [of "free_map h"] by simp
  note tot = heap_rep_total [OF assms(1)]
  have start: "heap_get_start_block h 0 = (if ?t = 0 then - ENOMEM else int ?s)"
    by (simp add: heap_get_start_block_eq)
  have "heap_mark_blocks_taken h (of_nat ?s) 0 = (if ?t = h_total h then None else Some h)"
  proof (cases "?t = h_total h")
    case True
    have "mark_taken_loop (h_entries h) 0 (- 1) 0x41 = None"
      using tot by (intro mark_taken_loop_overrun [of _ _ 4294967295]) (simp_all add: unsigned_minus_1_eq_mask mask_eq_exp_minus_1)
    with True show ?thesis by (simp add: heap_mark_blocks_taken_def)
  next
    case False
    have "\<not> of_nat d \<le> (of_nat d - 1 :: u32)" if "0 < d" "d < 4294967296" for d
      using that by (simp add: word_le_unat unat_sub unat_of_nat_u32 word_le_nat_alt)
    from this [of ?s] False le tot have "\<not> of_nat ?s \<le> (of_nat ?s - 1 :: u32)" by linarith
    note mark_taken_loop_stop [OF this, of "h_entries h" "0x41"]
    with False show ?thesis by (simp add: heap_mark_blocks_taken_def del: of_nat_diff)
  qed
  with start show ?thesis
    by (simp add: heap_malloc_def heap_malloc_blocks_def align_bad_size [OF assms(2)] Let_def
        ENOMEM_def block_addr_def heap_block_to_address_def)
qed

theorem heap_malloc_bad_size_witness: "heap_malloc heap2 0xFFFFFFFF = Some (0x01001000, heap2)"
proof -
  have "trailing (free_map heap2) = 1"
    by (simp add: heap2_def trailing_def blk_free_def heap_get_entry_type_def)
  moreover have "h_total heap2 = 2" "block_addr heap2 1 = 0x01001000"
    by (simp_all add: heap2_def block_addr_def)
  ultimately show ?thesis
    using heap_malloc_bad_size [OF heap2_rep, of "0xFFFFFFFF"] by (simp add: good_size_def)
qed

lemma heap_create_eq:
  assumes "0 < unat ptr" and "unat ptr \<le> unat end_ptr" and "unat end_ptr \<le> 2147483648"
    and "length (ht_entries table) \<le> 524288"
  shows "heap_create h ptr end_ptr table =
    (if unat ptr mod 4096 \<noteq> 0 \<or> unat end_ptr mod 4096 \<noteq> 0 then (- EINVARG, h)
     else if unat end_ptr \<noteq> unat ptr + 4096 * length (ht_entries table)
     then (- EINVARG, h\<lparr>h_table := table, h_saddr := ptr\<rparr>)
     else (0, set_entries (replicate (length (ht_entries table)) 0) (h\<lparr>h_table := table, h_saddr := ptr\<rparr>)))
    \<and> (fst (heap_create h ptr end_ptr table) = 0 \<longrightarrow>
        heap_rep (snd (heap_create h ptr end_ptr table)) (replicate (length (ht_entries table)) Free))"
proof -
  have al: "heap_validate_aligment p \<longleftrightarrow> unat p mod 4096 = 0" for p
    by (simp add: heap_validate_aligment_def word_unat_eq_iff unat_mod_distrib)
  have "unat (end_ptr - ptr) = unat end_ptr - unat ptr"
    using assms(2) by (simp add: unat_sub word_le_nat_alt)
  then have "unat ((end_ptr - ptr) div 4096) = (unat end_ptr - unat ptr) div 4096"
    by (simp add: unat_div_distrib)
  moreover have "unat (of_nat (length (ht_entries table)) :: u32) = length (ht_entries table)"
    using assms(4) by (simp add: unat_of_nat_u32)
  ultimately have "of_nat (length (ht_entries table)) \<noteq> (end_ptr - ptr) div 4096 \<longleftrightarrow>
      unat end_ptr \<noteq> unat ptr + 4096 * length (ht_entries table)"
    if "unat ptr mod 4096 = 0" "unat end_ptr mod 4096 = 0"
  proof -
    have "unat ptr = 4096 * (unat ptr div 4096)" "unat end_ptr = 4096 * (unat end_ptr div 4096)"
      using that by (metis add_0_right mult_div_mod_eq)+
    then obtain p e where "unat ptr = 4096 * p" "unat end_ptr = 4096 * e" by blast
    moreover from this have "(unat end_ptr - unat ptr) div 4096 = e - p"
      by (simp flip: diff_mult_distrib2)
    ultimately show ?thesis
      using \<open>unat ((end_ptr - ptr) div 4096) = _\<close> \<open>unat (of_nat _) = _\<close> assms(2)
      unfolding word_unat_eq_iff by auto
  qed
  then show ?thesis
    using assms by (auto simp: heap_create_def al heap_validate_table_def EINVARG_def Let_def
        heap_rep_def heap_geom_def)
qed

text \<open>\<open>heap_create\<close> accepts exactly the block-aligned ranges whose table has one entry per
  block, and then gives an empty heap: every block free, nothing live. A misaligned range leaves the
  caller's structure alone.\<close>

theorem heap_create_correct:
  assumes "0 < unat ptr" and "unat ptr \<le> unat end_ptr" and "unat end_ptr \<le> 2147483648"
    and "length (ht_entries table) \<le> 524288"
  shows "heap_create h ptr end_ptr table =
    (if unat ptr mod 4096 \<noteq> 0 \<or> unat end_ptr mod 4096 \<noteq> 0 then (- EINVARG, h)
     else if unat end_ptr \<noteq> unat ptr + 4096 * length (ht_entries table)
     then (- EINVARG, h\<lparr>h_table := table, h_saddr := ptr\<rparr>)
     else (0, set_entries (replicate (length (ht_entries table)) 0) (h\<lparr>h_table := table, h_saddr := ptr\<rparr>)))
    \<and> (fst (heap_create h ptr end_ptr table) = 0 \<longrightarrow>
        heap_rep (snd (heap_create h ptr end_ptr table)) (replicate (length (ht_entries table)) Free))"
  using assms by (rule heap_create_eq)

theorem heap_create_correct_witness:
  "heap_create heap4 0x01000000 0x01002000 \<lparr>ht_entries = [7, 7]\<rparr> =
     (0, \<lparr>h_table = \<lparr>ht_entries = [0, 0]\<rparr>, h_saddr = 0x01000000\<rparr>)"
  using heap_create_correct [of "0x01000000" "0x01002000" "\<lparr>ht_entries = [7, 7]\<rparr>" heap4]
  by (simp add: set_entries_def heap4_def)

end
