(* ===== verification/Pages.thy ===== *)
theory Pages
  imports Memory
begin

text \<open>
  Pages of raw memory: addresses that are multiples of the page size, the offsets inside a page,
  32-bit entries of a page and which bytes they occupy. The kernel heap, the page tables and every
  structure allocated in a block of its own rely on it.
\<close>

section \<open>Pages and entries\<close>

text \<open>\<open>page_al p\<close>: \<open>p\<close> is a multiple of the page size.\<close>

definition page_al :: "u32 \<Rightarrow> bool" where
  "page_al p \<longleftrightarrow> unat p mod 4096 = 0"

lemma mod_page_eq_0: "(p :: u32) mod 4096 = 0 \<longleftrightarrow> page_al p"
  by (simp add: page_al_def word_unat_eq_iff unat_mod_distrib)

lemma page_alE:
  assumes "page_al p"
  obtains q where "unat p = 4096 * q" "q < 1048576"
proof -
  from assms obtain q where "unat p = 4096 * q" unfolding page_al_def by (metis mod_0_imp_dvd dvdE)
  moreover with unat_u32_lt [of p] have "q < 1048576" by linarith
  ultimately show ?thesis by (rule that)
qed

lemma page_offset:
  assumes "page_al p" "b < 4096"
  shows "unat (p + of_nat b) = unat p + b"
proof -
  from assms(1) obtain q where q: "unat p = 4096 * q" "q < 1048576" by (rule page_alE)
  have b: "unat (of_nat b :: u32) = b" using assms(2) by (intro unat_of_nat_u32) linarith
  have "unat p + unat (of_nat b :: u32) < 2 ^ LENGTH(32)" unfolding b using q assms(2) by simp
  then show ?thesis using b by (simp add: unat_add_small)
qed

lemma page_offset_inj:
  assumes "page_al p" "page_al q" "a < 4096" "b < 4096" "p + of_nat a = q + of_nat b"
  shows "p = q \<and> a = b"
proof -
  from assms(1) obtain i where i: "unat p = 4096 * i" by (rule page_alE)
  from assms(2) obtain j where j: "unat q = 4096 * j" by (rule page_alE)
  have "4096 * i + a = 4096 * j + b"
    using page_offset [OF assms(1,3)] page_offset [OF assms(2,4)] assms(5) i j by simp
  moreover have "(4096 * i + a) div 4096 = i" "(4096 * j + b) div 4096 = j" using assms(3,4) by simp_all
  ultimately have "i = j \<and> a = b" by (metis add_left_cancel)
  with i j show ?thesis by (simp add: word_unat_eq_iff)
qed

lemma page_al_0 [simp]: "page_al 0"
  by (simp add: page_al_def)

lemma unat_pages: "n < 1048576 \<Longrightarrow> unat (of_nat n * 4096 :: u32) = 4096 * n"
  by (simp add: unat_word_ariths(2) unat_of_nat_u32)

lemma page_al_mod: "page_al p \<longleftrightarrow> p mod 4096 = 0"
  by (simp add: mod_page_eq_0)

lemma page_al_add: "page_al p \<Longrightarrow> page_al (p + of_nat n * 4096)"
proof -
  assume "page_al p"
  then have "unat p mod 4096 = 0" by (simp add: page_al_def)
  moreover have "unat (p + of_nat n * 4096) = (unat p + unat (of_nat n :: u32) * 4096) mod 4294967296"
    by (simp add: unat_word_ariths mod_simps)
  ultimately show ?thesis by (simp add: page_al_def mod_mod_cancel mod_add_eq)
qed

lemma page_al_Suc: "page_al p \<Longrightarrow> page_al (p + 4096)"
  using page_al_add [of p 1] by simp

lemma page_al_diff:
  assumes "page_al p" "page_al q"
  shows "page_al (p - q)"
proof -
  from assms obtain i j where "unat p = 4096 * i" "unat q = 4096 * j" by (auto elim!: page_alE)
  then show ?thesis by (auto simp: page_al_def unat_sub_if')
qed

lemma unat_eq_pages: "n < 1048576 \<Longrightarrow> unat (w - v :: u32) = 4096 * n \<longleftrightarrow> w = v + of_nat n * 4096"
  by (metis add_diff_cancel_left' diff_add_cancel add.commute unat_pages word_unat_eq_iff)

definition page_of :: "u32 \<Rightarrow> u32" where
  "page_of e = e AND 0xfffff000"

lemma page_of_eq: "page_of e = push_bit 12 (drop_bit 12 e)"
proof -
  have m: "(0xfffff000 :: u32) = NOT (mask 12)" by (simp add: mask_eq_exp_minus_1)
  show ?thesis unfolding page_of_def m by (rule bit_word_eqI) (auto simp: bit_simps)
qed

lemma page_of_unat: "unat (page_of e) = 4096 * (unat e div 4096)"
proof -
  have "unat e div 4096 < 1048576" using unat_u32_lt [of e] by (simp add: less_mult_imp_div_less)
  then have "unat (e div 4096 * 4096) = unat e div 4096 * 4096"
    by (simp add: unat_word_ariths(2) unat_div_distrib)
  then show ?thesis by (simp add: page_of_eq drop_bit_eq_div push_bit_eq_mult)
qed

lemma page_al_page_of [simp, intro]: "page_al (page_of e)"
  by (simp add: page_al_def page_of_unat)

lemma page_of_self [simp]: "page_al p \<Longrightarrow> page_of p = p"
  by (auto simp: page_al_def word_unat_eq_iff page_of_unat)

text \<open>Flags below the page size do not reach the address bits.\<close>

lemma page_of_or:
  assumes "page_al p" "unat f < 4096"
  shows "page_of (p OR f) = p"
proof -
  have "drop_bit 12 f = 0"
    using assms(2) by (simp add: word_unat_eq_iff drop_bit_eq_div unat_div_distrib)
  then have "drop_bit 12 (p OR f) = drop_bit 12 p" by simp
  then have "page_of (p OR f) = page_of p" by (simp only: page_of_eq)
  then show ?thesis using assms(1) by simp
qed

text \<open>The address of an entry, inside its page.\<close>

lemma entry_offset:
  assumes "page_al p" "j < 1024"
  shows "unat (p + 4 * of_nat j) = unat p + 4 * j" and "aligned4 (p + 4 * of_nat j)"
proof -
  have u: "unat (p + of_nat (4 * j)) = unat p + 4 * j" using assms by (intro page_offset) simp_all
  then show "unat (p + 4 * of_nat j) = unat p + 4 * j" by simp
  with assms(1) show "aligned4 (p + 4 * of_nat j)" by (auto simp: aligned4_def elim!: page_alE)
qed

lemma entry_inj:
  assumes "page_al p" "page_al q" "i < 1024" "j < 1024" "p + 4 * of_nat i = q + 4 * of_nat j"
  shows "p = q \<and> i = j"
  using page_offset_inj [OF assms(1,2), of "4 * i" "4 * j"] assms(3-5) by simp

lemma store_entry_other:
  assumes "page_al p" "page_al q" "i < 1024" "j < 1024" "p \<noteq> q \<or> i \<noteq> j"
  shows "load32 (store32 m (p + 4 * of_nat i) x) (q + 4 * of_nat j) = load32 m (q + 4 * of_nat j)"
  using assms entry_inj [OF assms(1-4)] by (intro load32_store32_other entry_offset) auto

lemma store_entry_frame:
  assumes "page_al p" "i < 1024" "\<not> in_range a p 4096"
  shows "store32 m (p + 4 * of_nat i) x a = m a"
proof (rule store32_frame)
  show "aligned4 (p + 4 * of_nat i)" using assms(1,2) by (rule entry_offset)
  show "\<not> in_range a (p + 4 * of_nat i) 4"
    using assms entry_offset(1) [OF assms(1,2)] by (auto simp: in_range_def)
qed

lemma pages_disjoint:
  assumes "page_al p" "page_al q" "p \<noteq> q" "in_range a q 4096"
  shows "\<not> in_range a p 4096"
proof -
  from assms(1) obtain i where i: "unat p = 4096 * i" by (rule page_alE)
  from assms(2) obtain j where j: "unat q = 4096 * j" by (rule page_alE)
  have "i \<noteq> j" using assms(3) i j by (auto simp: word_unat_eq_iff)
  then show ?thesis using assms(4) i j by (auto simp: in_range_def)
qed

lemma page_range: "page_al p \<Longrightarrow> in_range a p 4096 \<longleftrightarrow> unat (a - p) < 4096"
  by (rule in_range_diff) (auto elim!: page_alE)

lemma entry_in_page: "page_al q \<Longrightarrow> j < 1024 \<Longrightarrow> k < 4 \<Longrightarrow> in_range (q + 4 * of_nat j + of_nat k) q 4096"
  using page_offset [of q "4 * j + k"] by (simp add: in_range_def add.assoc)

lemma page_load_cong:
  assumes "\<And>a. in_range a q 4096 \<Longrightarrow> m' a = m a" "page_al q" "j < 1024"
  shows "load32 m' (q + 4 * of_nat j) = load32 m (q + 4 * of_nat j)"
  using entry_in_page [OF assms(2,3), of 0] entry_in_page [OF assms(2,3), of 1]
    entry_in_page [OF assms(2,3), of 2] entry_in_page [OF assms(2,3), of 3]
  by (intro load32_cong assms(1)) simp_all

lemma page_of_or_any:
  assumes "unat f < 4096"
  shows "page_of (x OR f) = page_of x"
proof -
  have "drop_bit 12 f = 0"
    using assms by (simp add: word_unat_eq_iff drop_bit_eq_div unat_div_distrib)
  then have "drop_bit 12 (x OR f) = drop_bit 12 x" by simp
  then show ?thesis by (simp only: page_of_eq)
qed

lemma unat_ucast_u8: "unat (ucast (fl :: u8) :: u32) < 4096"
  using unsigned_less [of fl, where 'a = nat] by (simp add: unsigned_ucast_eq take_bit_nat_eq_self)

end
