(* ===== verification/Console.thy ===== *)
theory Console
  imports Prelude
begin

text \<open>
  The text console of \<^verbatim>\<open>src/kernel.c\<close>: a cursor and the VGA cells at \<^verbatim>\<open>0xB8000\<close>, which the
  model indexes from that address on. Strings are the bytes before their terminator, which is
  what \<open>print\<close> reads. \<open>panic\<close> prints and never returns, so its outcome is \<open>None\<close>.
\<close>

section \<open>The code\<close>

record console =
  video_mem :: "int \<Rightarrow> u16"
  terminal_row :: u16
  terminal_col :: u16

abbreviation (input) VGA_WIDTH :: int where "VGA_WIDTH \<equiv> 80"
abbreviation (input) VGA_HEIGHT :: int where "VGA_HEIGHT \<equiv> 20"

text \<open>Both arguments are \<open>char\<close>, which the compiler widens with their sign.\<close>

definition terminal_make_char :: "u8 \<Rightarrow> u8 \<Rightarrow> u16" where
  "terminal_make_char c color = push_bit 8 (scast color) OR scast c"

definition terminal_put_char :: "int \<Rightarrow> int \<Rightarrow> u8 \<Rightarrow> u8 \<Rightarrow> 'a console_scheme \<Rightarrow> 'a console_scheme" where
  "terminal_put_char x y c color k =
     k\<lparr>video_mem := (video_mem k)(y * VGA_WIDTH + x := terminal_make_char c color)\<rparr>"

definition terminal_backspace :: "'a console_scheme \<Rightarrow> 'a console_scheme" where
  "terminal_backspace k =
     (if terminal_col k = 0 \<and> terminal_row k = 0 then k
      else let k1 = (if terminal_col k > 0 then k\<lparr>terminal_col := terminal_col k - 1\<rparr>
                     else k\<lparr>terminal_col := 79, terminal_row := terminal_row k - 1\<rparr>)
           in terminal_put_char (uint (terminal_col k1)) (uint (terminal_row k1)) 0x00 15 k1)"

definition terminal_write_char :: "u8 \<Rightarrow> u8 \<Rightarrow> 'a console_scheme \<Rightarrow> 'a console_scheme" where
  "terminal_write_char c color k =
     (if c = 10 then k\<lparr>terminal_row := terminal_row k + 1, terminal_col := 0\<rparr>
      else if c = 8 then terminal_backspace k
      else let k1 = terminal_put_char (uint (terminal_col k)) (uint (terminal_row k)) c color k;
               k2 = k1\<lparr>terminal_col := terminal_col k1 + 1\<rparr>
           in if uint (terminal_col k2) \<ge> VGA_WIDTH
              then k2\<lparr>terminal_col := 0, terminal_row := terminal_row k2 + 1\<rparr>
              else k2)"

definition terminal_intialize :: "'a console_scheme \<Rightarrow> 'a console_scheme" where
  "terminal_intialize k =
     fold (\<lambda>y k. fold (\<lambda>x k. terminal_put_char x y 32 0 k) [0..VGA_WIDTH - 1] k) [0..VGA_HEIGHT - 1] k"

definition print :: "u8 list \<Rightarrow> 'a console_scheme \<Rightarrow> 'a console_scheme" where
  "print str k = fold (\<lambda>c. terminal_write_char c 15) str k"

definition panic :: "u8 list \<Rightarrow> 'a console_scheme \<Rightarrow> 'b option" where
  "panic msg k = (let k' = print msg k in None)"

section \<open>The cursor and the cells\<close>

text \<open>The cursor as one number, the index of the cell it stands on.\<close>

definition cursor :: "'a console_scheme \<Rightarrow> int" where
  "cursor k = uint (terminal_row k) * 80 + uint (terminal_col k)"

definition cursor_ok :: "'a console_scheme \<Rightarrow> bool" where
  "cursor_ok k \<longleftrightarrow> terminal_col k < 80"

definition printable :: "u8 \<Rightarrow> bool" where
  "printable c \<longleftrightarrow> c \<noteq> 10 \<and> c \<noteq> 8"

lemma terminal_put_char_cursor [frame_simps, simp]:
  "terminal_row (terminal_put_char x y c col k) = terminal_row k"
  "terminal_col (terminal_put_char x y c col k) = terminal_col k"
  "cursor (terminal_put_char x y c col k) = cursor k"
  "console.more (terminal_put_char x y c col k) = console.more k"
  by (simp_all add: terminal_put_char_def cursor_def)

lemma u16_succ: "(a :: u16) < 80 \<Longrightarrow> uint (a + 1) = uint a + 1"
proof -
  assume "a < 80"
  then have "uint a < 80" by (simp add: word_less_def)
  then show ?thesis by (simp add: uint_word_ariths)
qed

lemma u16_pred: "0 < (a :: u16) \<Longrightarrow> uint (a - 1) = uint a - 1"
proof -
  assume "0 < a"
  then have "0 < uint a" by (simp add: word_less_def)
  moreover have "uint a < 65536" using unsigned_less [of a] by simp
  ultimately show ?thesis by (simp add: uint_word_ariths)
qed

lemma u16_row_succ: "uint (a :: u16) < 65535 \<Longrightarrow> uint (a + 1) = uint a + 1"
  by (simp add: uint_word_ariths)

lemma terminal_backspace_ok: "cursor_ok k \<Longrightarrow> cursor_ok (terminal_backspace k)"
  using u16_pred [of "terminal_col k"]
  by (auto simp: terminal_backspace_def cursor_ok_def Let_def word_less_def)

lemma terminal_write_char_ok: "cursor_ok k \<Longrightarrow> cursor_ok (terminal_write_char c color k)"
  using terminal_backspace_ok [of k]
  by (auto simp: terminal_write_char_def cursor_ok_def Let_def word_less_def)

lemma print_ok: "cursor_ok k \<Longrightarrow> cursor_ok (print str k)"
  unfolding print_def by (induction str arbitrary: k) (auto simp: terminal_write_char_ok)

lemma terminal_write_char_printable:
  assumes "cursor_ok k" and "printable c" and "cursor k + 1 < 5242880"
  shows "cursor (terminal_write_char c color k) = cursor k + 1"
    and "video_mem (terminal_write_char c color k) =
      (video_mem k)(cursor k := terminal_make_char c color)"
proof -
  let ?r = "terminal_row k" and ?c = "terminal_col k"
  have col: "uint ?c < 80" "0 \<le> uint ?c" using assms(1) by (simp_all add: cursor_ok_def word_less_def)
  have s: "uint (?c + 1) = uint ?c + 1" using assms(1) by (intro u16_succ) (simp add: cursor_ok_def)
  have r: "uint (?r + 1) = uint ?r + 1" if "uint ?c = 79"
    using assms(3) that by (intro u16_row_succ) (simp add: cursor_def)
  show "cursor (terminal_write_char c color k) = cursor k + 1"
  proof (cases "uint ?c = 79")
    case True
    with r have "uint (?r + 1) = uint ?r + 1" by simp
    with True s assms(2) show ?thesis
      by (simp add: terminal_write_char_def Let_def printable_def cursor_def)
  next
    case False
    with col s assms(2) show ?thesis
      by (simp add: terminal_write_char_def Let_def printable_def cursor_def)
  qed
  show "video_mem (terminal_write_char c color k) =
      (video_mem k)(cursor k := terminal_make_char c color)"
    using assms(2) by (simp add: terminal_write_char_def Let_def printable_def cursor_def terminal_put_char_def)
qed

lemma terminal_backspace_back:
  assumes "0 < cursor k"
  shows "cursor (terminal_backspace k) = cursor k - 1 \<and>
    video_mem (terminal_backspace k) = (video_mem k)(cursor k - 1 := terminal_make_char 0 15)"
proof (cases "terminal_col k = 0")
  case True
  with assms have "0 < terminal_row k" by (simp add: cursor_def word_neq_0_conv [symmetric]) fastforce
  with True show ?thesis
    by (auto simp: terminal_backspace_def Let_def cursor_def u16_pred terminal_put_char_def)
next
  case False
  then have "0 < terminal_col k" by (simp add: word_neq_0_conv)
  with False show ?thesis
    by (simp add: terminal_backspace_def Let_def cursor_def u16_pred terminal_put_char_def add_diff_eq)
qed

lemma console_more_frame [frame_simps]:
  "console.more (terminal_backspace k) = console.more k"
  "console.more (terminal_write_char c color k) = console.more k"
  by (simp_all add: terminal_backspace_def terminal_write_char_def terminal_put_char_def Let_def)

lemma print_frame [frame_simps]: "console.more (print str k) = console.more k"
  unfolding print_def by (induction str arbitrary: k) (auto simp: console_more_frame)

lemma fold_write_cells:
  assumes "cursor_ok k" and "list_all printable str" and "cursor k + int (length str) < 5242880"
  shows "cursor (print str k) = cursor k + int (length str) \<and>
    video_mem (print str k) = (\<lambda>i. if cursor k \<le> i \<and> i < cursor k + int (length str)
      then terminal_make_char (str ! nat (i - cursor k)) 15 else video_mem k i)"
  using assms
proof (induction str arbitrary: k)
  case (Cons c str)
  let ?k = "terminal_write_char c 15 k"
  note w = terminal_write_char_printable [of k c 15]
  from Cons.prems w have step: "cursor ?k = cursor k + 1"
    "video_mem ?k = (video_mem k)(cursor k := terminal_make_char c 15)" "cursor_ok ?k"
    by (simp_all add: terminal_write_char_ok)
  have "cursor ?k + int (length str) < 5242880" using Cons.prems(3) step(1) by simp
  with Cons.IH [OF step(3)] Cons.prems(2)
  have IH: "cursor (print str ?k) = cursor k + 1 + int (length str)"
    "video_mem (print str ?k) = (\<lambda>i. if cursor k + 1 \<le> i \<and> i < cursor k + 1 + int (length str)
      then terminal_make_char (str ! nat (i - (cursor k + 1))) 15 else video_mem ?k i)"
    unfolding step(1) by simp_all
  have "print (c # str) k = print str ?k" by (simp add: print_def)
  moreover have "nat (x - cursor k) - Suc 0 = nat (x - (cursor k + 1))" for x by arith
  ultimately show ?case using IH step by (auto simp: fun_eq_iff nth_Cons')
qed (auto simp: print_def fun_eq_iff)

section \<open>Properties\<close>

text \<open>C32. Printing text without newlines and backspaces fills the cells from the cursor on with its
  characters in white on black, in order and across line ends, touches no other cell, and moves the
  cursor by the length of the text. Nothing in the code keeps the cursor within the 20 rows the
  kernel clears; the only limit is that the 16-bit row counter must not wrap.\<close>

theorem print_fills_cells:
  assumes "cursor_ok k" and "list_all printable str" and "cursor k + int (length str) < 5242880"
  shows "cursor (print str k) = cursor k + int (length str) \<and>
    video_mem (print str k) = (\<lambda>i. if cursor k \<le> i \<and> i < cursor k + int (length str)
      then terminal_make_char (str ! nat (i - cursor k)) 15 else video_mem k i)"
  using assms by (rule fold_write_cells)

text \<open>The column stays below 80 whatever is printed, and a backspace right after a printable
  character brings the cursor back and leaves a blank cell there.\<close>

theorem backspace_undoes_char:
  assumes "cursor_ok k" and "printable c" and "cursor k + 1 < 5242880"
  shows "cursor_ok (terminal_backspace (terminal_write_char c color k)) \<and>
    cursor (terminal_backspace (terminal_write_char c color k)) = cursor k \<and>
    video_mem (terminal_backspace (terminal_write_char c color k)) =
      (video_mem k)(cursor k := terminal_make_char 0 15)"
proof -
  let ?k = "terminal_write_char c color k"
  note w = terminal_write_char_printable [OF assms, of color]
  have ok: "cursor_ok ?k" using assms(1) by (rule terminal_write_char_ok)
  have "0 < cursor ?k" using w(1) by (simp add: cursor_def)
  have b: "cursor (terminal_backspace ?k) = cursor ?k - 1 \<and>
    video_mem (terminal_backspace ?k) = (video_mem ?k)(cursor ?k - 1 := terminal_make_char 0 15)"
    by (rule terminal_backspace_back [OF \<open>0 < cursor ?k\<close>])
  show ?thesis using terminal_backspace_ok [OF ok] b w by (simp add: fun_upd_upd)
qed

definition console0 :: console where
  "console0 = \<lparr>video_mem = (\<lambda>i. 0), terminal_row = 0, terminal_col = 79\<rparr>"

theorem print_fills_cells_witness: "cursor (print [65, 66] console0) = 81"
  using print_fills_cells [of console0 "[65, 66]"]
  by (simp add: console0_def cursor_ok_def cursor_def printable_def)

theorem backspace_undoes_char_witness:
  "cursor (terminal_backspace (terminal_write_char 65 15 console0)) = 79"
  using backspace_undoes_char [of console0 65 15]
  by (simp add: console0_def cursor_ok_def cursor_def printable_def)

end
