(* ===== verification/Kheap.thy ===== *)
theory Kheap
  imports Heap Pages Console
begin

text \<open>
  The kernel heap of \<^verbatim>\<open>src/memory/heap/kheap.c\<close>: one global heap, the allocation functions the
  rest of the kernel calls, and the clearing of fresh memory. \<open>machine\<close> is the state every later
  component extends: the console, the kernel heap, and the raw memory.
\<close>

section \<open>The code\<close>

record machine = console +
  kernel_heap :: heap
  mem :: mem

text \<open>The heap table lies at \<^verbatim>\<open>0x7E00\<close>. \<open>kheap_init\<close> takes its bytes from there, and they are cleared there
  as in the table. From then on the table is the value in \<open>kernel_heap\<close>, which only the functions of \<open>heap.c\<close> read and
  write; the 25600 bytes of \<open>mem\<close> at this address do not follow it, and stand for nothing.\<close>

abbreviation (input) PEACHOS_HEAP_TABLE_ADDRESS :: u32 where "PEACHOS_HEAP_TABLE_ADDRESS \<equiv> 0x7E00"

definition kheap_fail_msg :: "u8 list" where
  "kheap_fail_msg = map (of_nat \<circ> of_char) ''Failed creating kernel heap'' @ [10]"

definition kheap_init :: "'a machine_scheme \<Rightarrow> 'a machine_scheme" where
  "kheap_init k =
     (let total_table_entries = PEACHOS_HEAP_SIZE_BYTES div PEACHOS_HEAP_BLOCK_SIZE;
          kernel_heap_table = \<lparr>ht_entries = map (\<lambda>i. mem k (PEACHOS_HEAP_TABLE_ADDRESS + of_nat i))
                                              [0..<unat total_table_entries]\<rparr>;
          end_ptr = PEACHOS_HEAP_ADDRESS + PEACHOS_HEAP_SIZE_BYTES;
          (res, h) = heap_create (kernel_heap k) PEACHOS_HEAP_ADDRESS end_ptr kernel_heap_table;
          k1 = k\<lparr>kernel_heap := h\<rparr>
      in if res < 0 then print kheap_fail_msg k1
         else k1\<lparr>mem := memset (mem k1) PEACHOS_HEAP_TABLE_ADDRESS (ucast HEAP_BLOCK_TABLE_ENTRY_FREE) total_table_entries\<rparr>)"

definition kmalloc :: "u32 \<Rightarrow> 'a machine_scheme \<Rightarrow> (u32 \<times> 'a machine_scheme) option" where
  "kmalloc sz k = do {
     (p, h) \<leftarrow> heap_malloc (kernel_heap k) sz;
     Some (p, k\<lparr>kernel_heap := h\<rparr>)
   }"

definition kzalloc :: "u32 \<Rightarrow> 'a machine_scheme \<Rightarrow> (u32 \<times> 'a machine_scheme) option" where
  "kzalloc sz k = do {
     (ptr, k) \<leftarrow> kmalloc sz k;
     if ptr = 0 then Some (0, k)
     else Some (ptr, k\<lparr>mem := memset (mem k) ptr 0 sz\<rparr>)
   }"

definition kfree :: "u32 \<Rightarrow> 'a machine_scheme \<Rightarrow> 'a machine_scheme" where
  "kfree ptr k = k\<lparr>kernel_heap := heap_free (kernel_heap k) ptr\<rparr>"

section \<open>The kernel heap is an allocator\<close>

definition kwf :: "'a machine_scheme \<Rightarrow> bool" where
  "kwf k \<longleftrightarrow> heap_wf (kernel_heap k)"

definition klive :: "'a machine_scheme \<Rightarrow> u32 \<Rightarrow> nat option" where
  "klive k = heap_live (kernel_heap k)"

definition kroom :: "'a machine_scheme \<Rightarrow> nat" where
  "kroom k = heap_room (kernel_heap k)"

lemma kmalloc_Some:
  "kmalloc sz k = Some (p, k') \<longleftrightarrow>
     (\<exists>h. heap_malloc (kernel_heap k) sz = Some (p, h) \<and> k' = k\<lparr>kernel_heap := h\<rparr>)"
  by (auto simp: kmalloc_def split: Option.bind_splits)

lemma kzalloc_Some:
  "kzalloc sz k = Some (p, k') \<longleftrightarrow>
     (\<exists>h. heap_malloc (kernel_heap k) sz = Some (p, h) \<and>
       k' = (if p = 0 then k\<lparr>kernel_heap := h\<rparr>
             else k\<lparr>kernel_heap := h, mem := memset (mem k) p 0 sz\<rparr>))"
  by (auto simp: kzalloc_def kmalloc_def split: Option.bind_splits if_splits)

interpretation kalloc: page_allocator "\<lambda>k n. kzalloc n k" "\<lambda>k p. kfree p k" klive kwf kroom
proof
  fix k k' :: "'a machine_scheme" and n p q i j
  assume wf: "kwf k"
  show "k' = k" if "good_size n" "kzalloc n k = Some (0, k')"
    using that wf blocks.alloc_null [of "kernel_heap k" n] by (auto simp: kzalloc_Some kwf_def)
  show "kwf k'" if "good_size n" "kzalloc n k = Some (p, k')"
    using that wf blocks.alloc_wf [of "kernel_heap k" n] by (auto simp: kzalloc_Some kwf_def split: if_splits)
  show "klive k p = None \<and> klive k' = (klive k)(p \<mapsto> nblocks n)"
    if "good_size n" "kzalloc n k = Some (p, k')" "p \<noteq> 0"
    using that wf blocks.alloc_live [of "kernel_heap k" n] by (auto simp: kzalloc_Some kwf_def klive_def)
  show "kwf (kfree p k)" "klive (kfree p k) = (klive k)(p := None)" if "klive k p = Some i"
    using that wf blocks.release_wf blocks.release_live by (auto simp: kwf_def klive_def kfree_def)
  show "kroom (kfree p k) = kroom k + i" if "klive k p = Some i"
    using that wf blocks.page_release by (simp add: kwf_def klive_def kroom_def kfree_def)
  show "0 < i \<and> p \<noteq> 0 \<and> unat p mod 4096 = 0 \<and> unat p + 4096 * i \<le> 2147483648"
    if "klive k p = Some i"
    using that wf blocks.live_region by (auto simp: kwf_def klive_def)
  show "unat p + 4096 * i \<le> unat q" if "klive k p = Some i" "klive k q = Some j" "unat p < unat q"
    using that wf blocks.live_apart by (auto simp: kwf_def klive_def)
  assume n: "0 < unat n" "unat n \<le> 4096"
  show "kzalloc n k = Some (0, k)" if "kroom k = 0"
    using that wf blocks.page_full [OF _ n] by (simp add: kzalloc_Some kwf_def kroom_def)
  show "\<exists>p k'. kzalloc n k = Some (p, k') \<and> p \<noteq> 0 \<and> Suc (kroom k') = kroom k" if "0 < kroom k"
  proof -
    from that wf blocks.page_room [OF _ n, of "kernel_heap k"] obtain p h where
      "heap_malloc (kernel_heap k) n = Some (p, h)" "p \<noteq> 0" "Suc (heap_room h) = heap_room (kernel_heap k)"
      by (auto simp: kwf_def kroom_def)
    then show ?thesis by (auto simp: kzalloc_Some kroom_def)
  qed
qed

lemma kzalloc_mem:
  "kzalloc n k = Some (p, k') \<Longrightarrow> p \<noteq> 0 \<Longrightarrow>
   mem k' = (\<lambda>a. if unat (a - p) < unat n then 0 else mem k a)"
  by (auto simp: kzalloc_Some memset_eq split: if_splits)

lemma kzalloc_frame [frame_simps]:
  "kzalloc n k = Some (p, k') \<Longrightarrow> machine.more k' = machine.more k"
  "kzalloc n k = Some (p, k') \<Longrightarrow> video_mem k' = video_mem k"
  "kzalloc n k = Some (p, k') \<Longrightarrow> terminal_row k' = terminal_row k"
  "kzalloc n k = Some (p, k') \<Longrightarrow> terminal_col k' = terminal_col k"
  by (auto simp: kzalloc_Some)

lemma kfree_frame [frame_simps, simp]:
  "mem (kfree p k) = mem k" "machine.more (kfree p k) = machine.more k"
  "video_mem (kfree p k) = video_mem k" "terminal_row (kfree p k) = terminal_row k"
  "terminal_col (kfree p k) = terminal_col k"
  by (simp_all add: kfree_def)

text \<open>Where the heap lies and how many blocks it has never changes; with that the set of live
  runs determines the heap.\<close>

definition kgeom :: "'a machine_scheme \<Rightarrow> u32 \<times> nat" where
  "kgeom k = (h_saddr (kernel_heap k), h_total (kernel_heap k))"

lemma mem_update_heap [simp]:
  "kwf (k\<lparr>mem := m\<rparr>) = kwf k" "klive (k\<lparr>mem := m\<rparr>) = klive k" "kroom (k\<lparr>mem := m\<rparr>) = kroom k"
  "kgeom (k\<lparr>mem := m\<rparr>) = kgeom k"
  by (simp_all add: kwf_def klive_def kroom_def kgeom_def)

lemma length_mark_free_loop: "length (mark_free_loop es i) = length es"
proof (induction es i rule: mark_free_loop.induct)
  case (1 es i)
  then show ?case by (subst mark_free_loop.simps) (simp add: Let_def)
qed

lemma kfree_geom [simp]: "kgeom (kfree p k) = kgeom k"
  by (simp add: kgeom_def kfree_def heap_free_def heap_mark_blocks_free_def length_mark_free_loop)

lemma kzalloc_geom:
  assumes "kwf k" "good_size n" "kzalloc n k = Some (p, k')"
  shows "kgeom k' = kgeom k"
proof -
  from assms(3) obtain h where h: "heap_malloc (kernel_heap k) n = Some (p, h)" "kernel_heap k' = h"
    by (auto simp: kzalloc_Some)
  have "heap_wf (kernel_heap k)" using assms(1) by (simp add: kwf_def)
  from this assms(2) h(1) have "h_saddr h = h_saddr (kernel_heap k) \<and> h_total h = h_total (kernel_heap k)"
  proof (cases rule: heap_malloc_cases)
    case (chunk cs b cs')
    then have "length (layout cs') = length (layout cs)"
      using chunk_malloc_layout [OF chunk(2)] by (auto simp: heap_rep_def)
    with chunk show ?thesis by (simp add: heap_rep_def)
  qed simp
  with h(2) show ?thesis by (simp add: kgeom_def)
qed

lemma klive_determines:
  assumes "kwf k" "kwf k'" "kgeom k' = kgeom k" "klive k' = klive k"
  shows "kernel_heap k' = kernel_heap k"
proof -
  have "h_entries (kernel_heap k') = h_entries (kernel_heap k)"
    using assms by (intro heap_live_determines) (simp_all add: kwf_def kgeom_def klive_def)
  with assms(3) show ?thesis by (simp add: kgeom_def heap.equality heap_table.equality)
qed

lemma kheap_init_rep:
  "heap_rep (kernel_heap (kheap_init k)) (replicate 25600 Free) \<and> h_saddr (kernel_heap (kheap_init k)) = 0x01000000 \<and>
   mem (kheap_init k) = memset (mem k) 0x7E00 0 25600 \<and> cursor (kheap_init k) = cursor k"
proof -
  define tbl where "tbl = \<lparr>ht_entries = map (\<lambda>i. mem k (0x7E00 + of_nat i)) [0..<25600]\<rparr>"
  have len: "length (ht_entries tbl) = 25600" by (simp add: tbl_def)
  have "unat (0x01000000 :: u32) = 16777216" "unat (0x01000000 + 104857600 :: u32) = 121634816" by simp_all
  then have "heap_create (kernel_heap k) 0x01000000 (0x01000000 + 104857600) tbl =
      (0, set_entries (replicate 25600 0) ((kernel_heap k)\<lparr>h_table := tbl, h_saddr := 0x01000000\<rparr>))"
    "heap_rep (set_entries (replicate 25600 0) ((kernel_heap k)\<lparr>h_table := tbl, h_saddr := 0x01000000\<rparr>)) (replicate 25600 Free)"
    using heap_create_eq [of "0x01000000" "0x01000000 + 104857600" tbl "kernel_heap k"] len by auto
  then show ?thesis
    by (simp add: kheap_init_def Let_def cursor_def flip: tbl_def)
qed

text \<open>Nothing but the heap and raw memory has changed.\<close>

definition same_rest :: "'a machine_scheme \<Rightarrow> 'a machine_scheme \<Rightarrow> bool" where
  "same_rest k0 k \<longleftrightarrow> k\<lparr>kernel_heap := kernel_heap k0, mem := mem k0\<rparr> = k0"

lemma same_rest_refl [simp]: "same_rest k k"
  by (simp add: same_rest_def)

lemma same_rest_trans: "same_rest a b \<Longrightarrow> same_rest b c \<Longrightarrow> same_rest a c"
  by (metis same_rest_def machine.update_convs machine.cases_scheme)

lemma same_rest_mem [simp]: "same_rest k0 (k\<lparr>mem := m\<rparr>) \<longleftrightarrow> same_rest k0 k"
  by (simp add: same_rest_def)

lemma same_rest_kfree [simp]: "same_rest k0 (kfree p k) \<longleftrightarrow> same_rest k0 k"
  by (simp add: same_rest_def kfree_def)

lemma same_rest_kzalloc: "kzalloc n k = Some (p, k') \<Longrightarrow> same_rest k k'"
  by (auto simp: kzalloc_Some same_rest_def)

lemma kzalloc_region:
  assumes "kwf k" and "good_size n" and "kzalloc n k = Some (p, k')" and "p \<noteq> 0"
  shows "kwf k'" and "klive k' = (klive k)(p \<mapsto> nblocks n)" and "klive k p = None"
    and "unat p mod 4096 = 0" and "unat p + 4096 * nblocks n \<le> 2147483648"
proof -
  show "kwf k'" using assms(1-3) by (rule kalloc.alloc_wf)
  moreover from kalloc.alloc_live [OF assms]
  show "klive k' = (klive k)(p \<mapsto> nblocks n)" "klive k p = None" by auto
  ultimately show "unat p mod 4096 = 0" "unat p + 4096 * nblocks n \<le> 2147483648"
    using kalloc.live_region [of k' p "nblocks n"] by auto
qed

text \<open>The bytes that no allocation can touch: those outside the heap area and those of live
  runs.\<close>

definition kept :: "'a machine_scheme \<Rightarrow> u32 \<Rightarrow> bool" where
  "kept k a \<longleftrightarrow> (in_range a (fst (kgeom k)) (4096 * snd (kgeom k)) \<longrightarrow>
     (\<exists>q j. klive k q = Some j \<and> in_range a q (4096 * j)))"

lemma kept_mem [simp]: "kept (k\<lparr>mem := m\<rparr>) a = kept k a"
  by (simp add: kept_def)

lemma kept_live: "klive k p = Some j \<Longrightarrow> in_range a p (4096 * j) \<Longrightarrow> kept k a"
  by (auto simp: kept_def)

lemma kept_mono:
  "kept k a \<Longrightarrow> kgeom k' = kgeom k \<Longrightarrow> (\<And>q j. klive k q = Some j \<Longrightarrow> klive k' q = Some j) \<Longrightarrow> kept k' a"
  by (auto simp: kept_def)

lemma kzalloc_in_area:
  assumes "kwf k" "good_size n" "kzalloc n k = Some (p, k')" "p \<noteq> 0" "in_range a p (4096 * nblocks n)"
  shows "in_range a (fst (kgeom k)) (4096 * snd (kgeom k))"
proof -
  from assms(3) obtain h where h: "heap_malloc (kernel_heap k) n = Some (p, h)" by (auto simp: kzalloc_Some)
  have "heap_wf (kernel_heap k)" using assms(1) by (simp add: kwf_def)
  from this assms(2) h show ?thesis
  proof (cases rule: heap_malloc_cases)
    case (chunk cs b cs')
    then have "b + nblocks n \<le> h_total (kernel_heap k)"
      using chunk_malloc_layout [OF chunk(2)] by (auto simp: heap_rep_def)
    moreover have "unat p = unat (h_saddr (kernel_heap k)) + 4096 * b"
      using chunk by (simp add: heap_rep_def unat_block_addr)
    ultimately show ?thesis using assms(5) by (auto simp: in_range_def kgeom_def)
  qed (use assms(4) in simp)
qed

lemma kzalloc_kept:
  assumes "kwf k" "good_size n" "kzalloc n k = Some (p, k')" "kept k a"
  shows "mem k' a = mem k a" and "kept k' a" and "p \<noteq> 0 \<Longrightarrow> \<not> in_range a p (4096 * nblocks n)"
proof -
  show out: "\<not> in_range a p (4096 * nblocks n)" if "p \<noteq> 0"
  proof
    assume r: "in_range a p (4096 * nblocks n)"
    from kzalloc_in_area [OF assms(1-3) that r] assms(4) obtain q j
      where "klive k q = Some j" "in_range a q (4096 * j)" by (auto simp: kept_def)
    with kalloc.alloc_disjoint [OF assms(1-3) that _ r] show False by blast
  qed
  show "mem k' a = mem k a"
  proof (cases "p = 0")
    case False
    then have "\<not> unat (a - p) < unat n"
      using out in_range_diff [of p "unat n" a] kzalloc_region(5) [OF assms(1-3) False] nblocks_bounds(3) [OF assms(2)]
      by (auto simp: in_range_def)
    then show ?thesis using kzalloc_mem [OF assms(3) False] by simp
  qed (use kalloc.alloc_null [OF assms(1,2)] assms(3) in auto)
  show "kept k' a"
  proof (cases "p = 0")
    case False
    show ?thesis
      by (rule kept_mono [OF assms(4) kzalloc_geom [OF assms(1-3)]])
        (use kzalloc_region(2,3) [OF assms(1-3) False] in auto)
  qed (use kalloc.alloc_null [OF assms(1,2)] assms(3,4) in auto)
qed

text \<open>A request of at most one block, when there is a free block.\<close>

lemma kzalloc_small:
  assumes "kwf k" "0 < kroom k" "0 < unat n" "unat n \<le> 4096"
  obtains p k' where "kzalloc n k = Some (p, k')" "p \<noteq> 0" "page_al p" "kwf k'" "Suc (kroom k') = kroom k"
    "klive k p = None" "klive k' = (klive k)(p \<mapsto> 1)" "kgeom k' = kgeom k" "same_rest k k'"
    "\<And>a. in_range a p (unat n) \<Longrightarrow> mem k' a = 0"
    "\<And>a. kept k a \<Longrightarrow> mem k' a = mem k a \<and> kept k' a \<and> \<not> in_range a p 4096"
proof -
  obtain p k' where a: "kzalloc n k = Some (p, k')" "p \<noteq> 0" "kwf k'" "Suc (kroom k') = kroom k"
    "klive k p = None" "klive k' = (klive k)(p \<mapsto> 1)"
    by (rule kalloc.page_alloc [OF assms(1,3,4,2)])
  have al: "page_al p" and up: "unat p + 4096 \<le> 2147483648"
    using kalloc.live_region [OF a(3), of p 1] a(6) by (simp_all add: page_al_def)
  have g: "good_size n" using assms(3,4) by (rule good_size_small)
  have nb: "nblocks n = 1" using assms(3,4) by (rule nblocks_one)
  have "in_range a p (unat n) \<longleftrightarrow> unat (a - p) < unat n" for a
    using up assms(4) by (intro in_range_diff) linarith
  then have z: "mem k' a = 0" if "in_range a p (unat n)" for a
    using that kzalloc_mem [OF a(1,2)] by simp
  have kp: "mem k' a = mem k a \<and> kept k' a \<and> \<not> in_range a p 4096" if "kept k a" for a
    using kzalloc_kept [OF assms(1) g a(1) that] a(2) by (simp add: nb)
  show ?thesis
    by (rule that [OF a(1,2) al a(3,4,5,6) kzalloc_geom [OF assms(1) g a(1)] same_rest_kzalloc [OF a(1)] z kp])
qed

lemma kfree_list:
  assumes "kwf k" "distinct ps" "\<forall>p \<in> set ps. \<exists>j. klive k p = Some j"
  shows "kwf (fold kfree ps k) \<and> klive (fold kfree ps k) = (\<lambda>p. if p \<in> set ps then None else klive k p) \<and>
    kgeom (fold kfree ps k) = kgeom k \<and> mem (fold kfree ps k) = mem k \<and> same_rest k (fold kfree ps k)"
  using assms
proof (induction ps arbitrary: k)
  case (Cons p ps)
  from Cons.prems obtain j where j: "klive k p = Some j" by auto
  have wf: "kwf (kfree p k)" and live: "klive (kfree p k) = (klive k)(p := None)"
    using kalloc.release_wf [OF Cons.prems(1) j] kalloc.release_live [OF Cons.prems(1) j] by simp_all
  have "\<forall>q \<in> set ps. \<exists>j. klive (kfree p k) q = Some j" using Cons.prems(2,3) by (auto simp: live)
  from Cons.IH [OF wf _ this] Cons.prems(2) have "kwf (fold kfree ps (kfree p k))"
    "klive (fold kfree ps (kfree p k)) = (\<lambda>q. if q \<in> set ps then None else klive (kfree p k) q)"
    "kgeom (fold kfree ps (kfree p k)) = kgeom k" "mem (fold kfree ps (kfree p k)) = mem k"
    "same_rest (kfree p k) (fold kfree ps (kfree p k))" by simp_all
  moreover from this(5) have "same_rest k (fold kfree ps (kfree p k))"
    by (rule same_rest_trans [rotated]) simp
  ultimately show ?case by (auto simp: live fun_eq_iff)
qed simp

lemma live_in_area:
  assumes "kwf k" "klive k p = Some j" "in_range a p (4096 * j)"
  shows "in_range a (fst (kgeom k)) (4096 * snd (kgeom k))"
proof -
  from assms(1) obtain cs where rep: "heap_rep (kernel_heap k) cs" by (auto simp: kwf_def heap_wf_def)
  from heap_live_Some [OF rep] assms(2) obtain b where b: "p = block_addr (kernel_heap k) b"
    "b < h_total (kernel_heap k)" "chunk_live cs b = Some j" unfolding klive_def by blast
  from b(3) have "b + j \<le> h_total (kernel_heap k)"
    using chunk_live_bound [of cs b j] rep by (auto simp: heap_rep_def)
  moreover have "unat p = unat (h_saddr (kernel_heap k)) + 4096 * b"
    using rep b by (simp add: heap_rep_def unat_block_addr)
  ultimately show ?thesis using assms(3) by (auto simp: in_range_def kgeom_def)
qed

subsection \<open>Growing by fresh pages\<close>

text \<open>\<open>grows W k ps k'\<close>: \<open>k'\<close> has the fresh one-block allocations \<open>ps\<close> on top of those of \<open>k\<close>, and
  the kept bytes of \<open>k\<close> outside \<open>W\<close> have kept their values.\<close>

definition grows :: "u32 set \<Rightarrow> 'a machine_scheme \<Rightarrow> u32 list \<Rightarrow> 'a machine_scheme \<Rightarrow> bool" where
  "grows W k ps k' \<longleftrightarrow> kwf k' \<and> kgeom k' = kgeom k \<and> same_rest k k' \<and> distinct ps \<and>
     (\<forall>p \<in> set ps. klive k p = None) \<and> klive k' = (\<lambda>p. if p \<in> set ps then Some 1 else klive k p) \<and>
     kroom k = kroom k' + length ps \<and> (\<forall>a. kept k a \<longrightarrow> a \<notin> W \<longrightarrow> mem k' a = mem k a)"

lemma grows_refl: "kwf k \<Longrightarrow> grows W k [] k"
  by (simp add: grows_def)

lemma grows_kept: "grows W k ps k' \<Longrightarrow> kept k a \<Longrightarrow> kept k' a"
  by (rule kept_mono) (auto simp: grows_def)

lemma grows_trans:
  assumes a: "grows W k ps k1" and b: "grows V k1 qs k2" and v: "\<And>a. kept k a \<Longrightarrow> a \<in> V \<Longrightarrow> a \<in> W"
  shows "grows W k (ps @ qs) k2"
proof -
  have "same_rest k k2" using a b unfolding grows_def by (blast intro: same_rest_trans)
  moreover have "mem k2 x = mem k x" if "kept k x" "x \<notin> W" for x
  proof -
    have "mem k2 x = mem k1 x" using b grows_kept [OF a that(1)] v [OF that(1)] that(2) by (auto simp: grows_def)
    then show ?thesis using a that by (simp add: grows_def)
  qed
  moreover have "\<forall>p \<in> set qs. p \<notin> set ps \<and> klive k p = None"
    using a b by (auto simp: grows_def split: if_splits)
  ultimately show ?thesis using a b by (auto simp: grows_def)
qed

lemma grows_mono: "grows W k ps k' \<Longrightarrow> W \<subseteq> V \<Longrightarrow> grows V k ps k'"
  by (auto simp: grows_def)

lemma grows_perm: "grows W k ps k' \<Longrightarrow> set qs = set ps \<Longrightarrow> distinct qs \<Longrightarrow> grows W k qs k'"
  using distinct_card [of ps] distinct_card [of qs] by (simp add: grows_def)

lemma grows_mem:
  assumes "grows W k ps k'" and "\<And>a. kept k a \<Longrightarrow> a \<notin> W \<Longrightarrow> m a = mem k' a"
  shows "grows W k ps (k'\<lparr>mem := m\<rparr>)"
  using assms by (simp add: grows_def)

lemma grows_page:
  assumes "grows W k ps k'" "p \<in> set ps"
  shows "p \<noteq> 0" and "page_al p" and "kept k a \<Longrightarrow> \<not> in_range a p 4096"
    and "in_range a p 4096 \<Longrightarrow> kept k' a" and "unat p + 4096 \<le> 2147483648"
proof -
  have wf: "kwf k'" and l: "klive k' p = Some 1" using assms by (simp_all add: grows_def)
  show p: "p \<noteq> 0" "page_al p" "unat p + 4096 \<le> 2147483648"
    using kalloc.live_region [OF wf l] by (simp_all add: page_al_def)
  show kp: "kept k' a" if "in_range a p 4096" for a using kept_live [OF l] that by simp
  show "\<not> in_range a p 4096" if "kept k a"
  proof
    assume r: "in_range a p 4096"
    have "in_range a (fst (kgeom k)) (4096 * snd (kgeom k))"
      using live_in_area [OF wf l, of a] r assms(1) by (simp add: grows_def)
    with that obtain q j where q: "klive k q = Some j" "in_range a q (4096 * j)" by (auto simp: kept_def)
    then have "q \<notin> set ps" "klive k' q = Some j" using assms(1) by (auto simp: grows_def)
    with kalloc.live_disjoint [OF wf l, of q j a] r q(2) assms(2) show False by auto
  qed
qed

lemma grows_kzalloc:
  assumes "kwf k" "0 < kroom k" "0 < unat n" "unat n \<le> 4096"
  obtains p k' where "kzalloc n k = Some (p, k')" "p \<noteq> 0" "grows {} k [p] k'"
    "\<And>a. in_range a p (unat n) \<Longrightarrow> mem k' a = 0"
proof -
  from kzalloc_small [OF assms] obtain p k' where a: "kzalloc n k = Some (p, k')" "p \<noteq> 0" "page_al p" "kwf k'"
    "Suc (kroom k') = kroom k" "klive k p = None" "klive k' = (klive k)(p \<mapsto> 1)" "kgeom k' = kgeom k" "same_rest k k'"
    "\<And>a. in_range a p (unat n) \<Longrightarrow> mem k' a = 0"
    "\<And>a. kept k a \<Longrightarrow> mem k' a = mem k a \<and> kept k' a \<and> \<not> in_range a p 4096" by blast
  then have "grows {} k [p] k'" by (auto simp: grows_def)
  from that [OF a(1,2) this a(10)] show ?thesis .
qed

lemma grows_free:
  assumes "kwf k" "grows W k ps k'" "set qs = set ps" "distinct qs"
  shows "grows W k [] (fold kfree qs k')" and "kernel_heap (fold kfree qs k') = kernel_heap k"
proof -
  have f: "kwf (fold kfree qs k') \<and> klive (fold kfree qs k') = (\<lambda>p. if p \<in> set qs then None else klive k' p) \<and>
    kgeom (fold kfree qs k') = kgeom k' \<and> mem (fold kfree qs k') = mem k' \<and> same_rest k' (fold kfree qs k')"
    using assms by (intro kfree_list) (auto simp: grows_def)
  then have l: "klive (fold kfree qs k') = klive k" using assms(2,3) by (auto simp: grows_def fun_eq_iff)
  then show h: "kernel_heap (fold kfree qs k') = kernel_heap k"
    using f assms(1,2) by (intro klive_determines) (simp_all add: grows_def)
  have "kroom (fold kfree qs k') = kroom k" by (simp add: kroom_def h)
  moreover have "same_rest k (fold kfree qs k')" using f assms(2) unfolding grows_def by (blast intro: same_rest_trans)
  ultimately show "grows W k [] (fold kfree qs k')" using f l assms(2) by (auto simp: grows_def)
qed

section \<open>Properties\<close>

text \<open>C25. \<open>kzalloc\<close> returns zeroed memory and changes nothing else: the requested bytes read 0,
  every byte outside the new run keeps its value, no run that was live before is touched, and on
  failure the whole state is unchanged.\<close>

theorem kzalloc_zeroes:
  assumes "kwf k" and "good_size n" and "kzalloc n k = Some (p, k')"
  shows "(p = 0 \<longrightarrow> k' = k) \<and>
    (p \<noteq> 0 \<longrightarrow> (\<forall>a. in_range a p (unat n) \<longrightarrow> mem k' a = 0) \<and>
      (\<forall>a. \<not> in_range a p (unat n) \<longrightarrow> mem k' a = mem k a) \<and>
      (\<forall>q j a. klive k q = Some j \<longrightarrow> in_range a q (4096 * j) \<longrightarrow> mem k' a = mem k a))"
proof (cases "p = 0")
  case True
  with assms show ?thesis by (auto dest: kalloc.alloc_null)
next
  case False
  note r = kzalloc_region [OF assms False] and nb = nblocks_bounds(3) [OF assms(2)]
  have rng: "in_range a p (unat n) \<longleftrightarrow> unat (a - p) < unat n" for a
    using r(5) nb by (intro in_range_diff) linarith
  have m: "mem k' = (\<lambda>a. if in_range a p (unat n) then 0 else mem k a)"
    unfolding rng by (rule kzalloc_mem [OF assms(3) False])
  have "\<not> in_range a p (unat n)" if "klive k q = Some j" "in_range a q (4096 * j)" for q j a
    using kalloc.alloc_disjoint [OF assms False that(1), of a] that(2) nb by (auto simp: in_range_def)
  with m False show ?thesis by auto
qed

definition machine4 :: machine where
  "machine4 = \<lparr>video_mem = (\<lambda>_. 0), terminal_row = 0, terminal_col = 0, kernel_heap = heap4, mem = (\<lambda>_. 7)\<rparr>"

lemma machine4_wf: "kwf machine4"
  by (simp add: kwf_def machine4_def heap4_wf)

lemma machine4_kzalloc: "\<exists>k'. kzalloc 8192 machine4 = Some (0x01000000, k')"
  by (simp add: kzalloc_Some machine4_def heap4_malloc)

theorem kzalloc_zeroes_witness:
  "\<exists>k'. kzalloc 8192 machine4 = Some (0x01000000, k') \<and> mem k' 0x01000001 = 0 \<and> mem k' 0x01002000 = 7"
proof -
  obtain k' where k': "kzalloc 8192 machine4 = Some (0x01000000, k')" using machine4_kzalloc by blast
  have "in_range 0x01000001 0x01000000 (unat (8192 :: u32))" "\<not> in_range 0x01002000 0x01000000 (unat (8192 :: u32))"
    by (simp_all add: in_range_def)
  then have "mem k' 0x01000001 = 0" "mem k' 0x01002000 = mem machine4 0x01002000"
    using kzalloc_zeroes [OF machine4_wf size_8192(1) k'] by simp_all
  with k' show ?thesis by (simp add: machine4_def)
qed

section \<open>A freshly booted machine\<close>

lemma booted_machine: "kwf (kheap_init machine4)" "kroom (kheap_init machine4) = 25600"
proof -
  have "heap_rep (kernel_heap (kheap_init machine4)) (replicate 25600 Free)" by (simp add: kheap_init_rep)
  then show "kwf (kheap_init machine4)" "kroom (kheap_init machine4) = 25600"
    by (auto simp: kwf_def heap_wf_def kroom_def heap_room_chunks count_list_Free)
qed

lemma booted_kept: "unat a < 16777216 \<Longrightarrow> kept (kheap_init machine4) a"
  using kheap_init_rep [of machine4] by (simp add: kept_def in_range_def kgeom_def)

end
