(* ===== verification/Paging.thy ===== *)
theory Paging
  imports Kheap
begin

text \<open>
  The page tables of \<^verbatim>\<open>src/memory/paging/paging.c\<close> and the two routines of
  \<^verbatim>\<open>src/memory/paging/paging.asm\<close>. A page directory and its 1024 page tables are pages of raw
  memory; \<open>paging_get\<close> and \<open>paging_set\<close> read and write one entry. The interface \<open>page_map\<close> is what
  mapping a range relies on; it is interpreted on the page tables in memory, for the directories
  that satisfy \<open>tables_ok\<close>: page aligned, with 1024 distinct tables, none of them the directory.
\<close>

section \<open>The code\<close>

definition PAGING_CACHE_DISABLED :: u32 where "PAGING_CACHE_DISABLED = 16"
definition PAGING_WRITE_THROUGH :: u32 where "PAGING_WRITE_THROUGH = 8"
definition PAGING_ACCESS_FROM_ALL :: u32 where "PAGING_ACCESS_FROM_ALL = 4"
definition PAGING_IS_WRITEABLE :: u32 where "PAGING_IS_WRITEABLE = 2"
definition PAGING_IS_PRESENT :: u32 where "PAGING_IS_PRESENT = 1"

abbreviation (input) PAGING_TOTAL_ENTRIES_PER_TABLE :: nat where "PAGING_TOTAL_ENTRIES_PER_TABLE \<equiv> 1024"
abbreviation (input) PAGING_PAGE_SIZE :: u32 where "PAGING_PAGE_SIZE \<equiv> 4096"

text \<open>\<open>current_directory\<close> is the static variable of \<^verbatim>\<open>paging.c\<close>; the control registers belong to the
  processor. A \<open>struct paging_4gb_chunk\<close> is the four bytes of its only field.\<close>

record paging_machine = machine +
  current_directory :: u32
  cr3 :: u32
  cr0 :: u32

definition paging_load_directory :: "u32 \<Rightarrow> 'a paging_machine_scheme \<Rightarrow> 'a paging_machine_scheme" where
  "paging_load_directory directory k = k\<lparr>cr3 := directory\<rparr>"

definition enable_paging :: "'a paging_machine_scheme \<Rightarrow> 'a paging_machine_scheme" where
  "enable_paging k = k\<lparr>cr0 := cr0 k OR 0x80000000\<rparr>"

definition fill_table :: "u32 \<Rightarrow> u32 \<Rightarrow> u8 \<Rightarrow> nat \<Rightarrow> mem \<Rightarrow> mem" where
  "fill_table entry offset flags n m =
     fold (\<lambda>b m. store32 m (entry + 4 * of_nat b) ((offset + of_nat b * PAGING_PAGE_SIZE) OR ucast flags)) [0..<n] m"

fun new_tables :: "u32 \<Rightarrow> u8 \<Rightarrow> nat \<Rightarrow> nat \<Rightarrow> u32 \<Rightarrow> 'a machine_scheme \<Rightarrow> 'a machine_scheme option" where
  "new_tables directory flags i 0 offset k = Some k"
| "new_tables directory flags i (Suc n) offset k = do {
     (entry, k) \<leftarrow> kzalloc (4 * of_nat PAGING_TOTAL_ENTRIES_PER_TABLE) k;
     let m = fill_table entry offset flags PAGING_TOTAL_ENTRIES_PER_TABLE (mem k);
     let m = store32 m (directory + 4 * of_nat i) (entry OR ucast flags OR PAGING_IS_WRITEABLE);
     new_tables directory flags (Suc i) n (offset + of_nat PAGING_TOTAL_ENTRIES_PER_TABLE * PAGING_PAGE_SIZE)
       (k\<lparr>mem := m\<rparr>)
   }"

definition paging_new_4gb :: "u8 \<Rightarrow> 'a machine_scheme \<Rightarrow> (u32 \<times> 'a machine_scheme) option" where
  "paging_new_4gb flags k = do {
     (directory, k) \<leftarrow> kzalloc (4 * of_nat PAGING_TOTAL_ENTRIES_PER_TABLE) k;
     k \<leftarrow> new_tables directory flags 0 PAGING_TOTAL_ENTRIES_PER_TABLE 0 k;
     (chunk, k) \<leftarrow> kzalloc 4 k;
     Some (chunk, k\<lparr>mem := store32 (mem k) chunk directory\<rparr>)
   }"

definition directory_entry :: "mem \<Rightarrow> u32 \<Rightarrow> u32" where
  "directory_entry m chunk = load32 m chunk"

definition paging_switch :: "u32 \<Rightarrow> 'a paging_machine_scheme \<Rightarrow> 'a paging_machine_scheme" where
  "paging_switch chunk k =
     (paging_load_directory (directory_entry (mem k) chunk) k)\<lparr>current_directory := directory_entry (mem k) chunk\<rparr>"

definition paging_free_4gb :: "u32 \<Rightarrow> 'a machine_scheme \<Rightarrow> 'a machine_scheme" where
  "paging_free_4gb chunk k =
     (let k = fold (\<lambda>i k. kfree (load32 (mem k) (directory_entry (mem k) chunk + 4 * of_nat i) AND 0xFFFFF000) k)
                [0..<PAGING_TOTAL_ENTRIES_PER_TABLE] k;
          k = kfree (directory_entry (mem k) chunk) k
      in kfree chunk k)"

definition paging_4gb_chunk_get_directory :: "mem \<Rightarrow> u32 \<Rightarrow> u32" where
  "paging_4gb_chunk_get_directory m chunk = directory_entry m chunk"

definition paging_is_aligned :: "u32 \<Rightarrow> bool" where
  "paging_is_aligned addr \<longleftrightarrow> addr mod PAGING_PAGE_SIZE = 0"

text \<open>The two out parameters keep the values the caller gave them when the address is not
  aligned.\<close>

definition paging_get_indexes :: "u32 \<Rightarrow> u32 \<Rightarrow> u32 \<Rightarrow> int \<times> u32 \<times> u32" where
  "paging_get_indexes virtual_address directory_index table_index =
     (if \<not> paging_is_aligned virtual_address then (- EINVARG, directory_index, table_index)
      else (0, virtual_address div (of_nat PAGING_TOTAL_ENTRIES_PER_TABLE * PAGING_PAGE_SIZE),
            virtual_address mod (of_nat PAGING_TOTAL_ENTRIES_PER_TABLE * PAGING_PAGE_SIZE) div PAGING_PAGE_SIZE))"

definition paging_set :: "u32 \<Rightarrow> u32 \<Rightarrow> u32 \<Rightarrow> mem \<Rightarrow> int \<times> mem" where
  "paging_set directory virt val m =
     (if \<not> paging_is_aligned virt then (- EINVARG, m)
      else let (res, dir_index, page_index) = paging_get_indexes virt 0 0
           in if res < 0 then (res, m)
              else let entry = load32 m (directory + 4 * dir_index);
                       table = entry AND 0xfffff000
                   in (0, store32 m (table + 4 * page_index) val))"

definition paging_get :: "mem \<Rightarrow> u32 \<Rightarrow> u32 \<Rightarrow> u32" where
  "paging_get m dir virt =
     (let (_, dir_index, table_index) = paging_get_indexes virt 0 0;
          entry = load32 m (dir + 4 * dir_index);
          table = entry AND 0xfffff000
      in load32 m (table + 4 * table_index))"

definition paging_map :: "u32 \<Rightarrow> u32 \<Rightarrow> u32 \<Rightarrow> u32 \<Rightarrow> mem \<Rightarrow> int \<times> mem" where
  "paging_map dir virt phys flags m =
     (if virt mod PAGING_PAGE_SIZE \<noteq> 0 \<or> phys mod PAGING_PAGE_SIZE \<noteq> 0 then (- EINVARG, m)
      else paging_set (directory_entry m dir) virt (phys OR flags) m)"

fun map_range_loop :: "u32 \<Rightarrow> u32 \<Rightarrow> u32 \<Rightarrow> u32 \<Rightarrow> nat \<Rightarrow> int \<Rightarrow> mem \<Rightarrow> int \<times> mem" where
  "map_range_loop dir virt phys flags 0 res m = (res, m)"
| "map_range_loop dir virt phys flags (Suc n) res m =
     (let (res, m) = paging_map dir virt phys flags m
      in if ISERR res then (res, m)
         else map_range_loop dir (virt + PAGING_PAGE_SIZE) (phys + PAGING_PAGE_SIZE) flags n res m)"

definition paging_map_range :: "u32 \<Rightarrow> u32 \<Rightarrow> u32 \<Rightarrow> int \<Rightarrow> u32 \<Rightarrow> mem \<Rightarrow> int \<times> mem" where
  "paging_map_range dir virt phys count flags m = map_range_loop dir virt phys flags (nat count) 0 m"

definition paging_map_to :: "u32 \<Rightarrow> u32 \<Rightarrow> u32 \<Rightarrow> u32 \<Rightarrow> u32 \<Rightarrow> mem \<Rightarrow> int \<times> mem" where
  "paging_map_to dir virt phys phys_end flags m =
     (if virt mod PAGING_PAGE_SIZE \<noteq> 0 \<or> phys mod PAGING_PAGE_SIZE \<noteq> 0 \<or> phys_end mod PAGING_PAGE_SIZE \<noteq> 0
      then (- EINVARG, m)
      else if phys_end < phys then (- EINVARG, m)
      else let total_bytes = phys_end - phys;
               total_pages = sint (total_bytes div PAGING_PAGE_SIZE)
           in paging_map_range dir virt phys total_pages flags m)"

definition paging_align_address :: "u32 \<Rightarrow> u32" where
  "paging_align_address ptr =
     (if ptr mod PAGING_PAGE_SIZE \<noteq> 0 then ptr + PAGING_PAGE_SIZE - ptr mod PAGING_PAGE_SIZE else ptr)"

definition paging_align_to_lower_page :: "u32 \<Rightarrow> u32" where
  "paging_align_to_lower_page addr =
     (if addr mod PAGING_PAGE_SIZE \<noteq> 0 then addr - addr mod PAGING_PAGE_SIZE else addr)"

definition paging_get_physical_address :: "mem \<Rightarrow> u32 \<Rightarrow> u32 \<Rightarrow> u32" where
  "paging_get_physical_address m dir virt =
     (let virt_new = paging_align_to_lower_page virt;
          offset = virt - virt_new
      in (paging_get m dir virt_new AND 0xfffff000) + offset)"

lemma paging_is_aligned_iff: "paging_is_aligned p \<longleftrightarrow> page_al p"
  by (simp add: paging_is_aligned_def mod_page_eq_0)

section \<open>The interface of a page map\<close>

text \<open>A map from pages to entries, and one that also tells what an update leaves alone.\<close>

locale page_map =
  fixes put :: "'s \<Rightarrow> u32 \<Rightarrow> u32 \<Rightarrow> 's"
    and get :: "'s \<Rightarrow> u32 \<Rightarrow> u32"
    and ok :: "'s \<Rightarrow> bool"
  assumes put_ok: "ok s \<Longrightarrow> page_al v \<Longrightarrow> ok (put s v x)"
    and get_put: "ok s \<Longrightarrow> page_al v \<Longrightarrow> get (put s v x) v = x"
    and get_put_other: "ok s \<Longrightarrow> page_al v \<Longrightarrow> page_al w \<Longrightarrow> w \<noteq> v \<Longrightarrow> get (put s v x) w = get s w"
begin

definition put_range :: "u32 \<Rightarrow> (nat \<Rightarrow> u32) \<Rightarrow> nat \<Rightarrow> 's \<Rightarrow> 's" where
  "put_range v f n s = fold (\<lambda>i s. put s (v + of_nat i * 4096) (f i)) [0..<n] s"

lemma put_range_0 [simp]: "put_range v f 0 s = s"
  by (simp add: put_range_def)

lemma put_range_Suc: "put_range v f (Suc n) s = put (put_range v f n s) (v + of_nat n * 4096) (f n)"
  by (simp add: put_range_def)

lemma put_range_shift: "put_range v f (Suc n) s = put_range (v + 4096) (\<lambda>i. f (Suc i)) n (put s v (f 0))"
  by (induction n) (simp_all add: put_range_Suc algebra_simps)

lemma put_range_ok: "ok s \<Longrightarrow> page_al v \<Longrightarrow> ok (put_range v f n s)"
  by (induction n) (auto simp: put_range_Suc intro: put_ok page_al_add)

lemma get_put_range:
  assumes "ok s" "page_al v" "page_al w" "n \<le> 1048576"
  shows "get (put_range v f n s) w =
    (if unat (w - v) < 4096 * n then f (unat (w - v) div 4096) else get s w)"
  using assms(4)
proof (induction n)
  case (Suc n)
  let ?v = "v + of_nat n * 4096"
  have al: "page_al ?v" using assms(2) by (rule page_al_add)
  have ok: "ok (put_range v f n s)" using assms(1,2) by (rule put_range_ok)
  have IH: "get (put_range v f n s) w =
      (if unat (w - v) < 4096 * n then f (unat (w - v) div 4096) else get s w)"
    using Suc by simp
  show ?case
  proof (cases "w = ?v")
    case True
    then have "unat (w - v) = 4096 * n" using Suc.prems by (simp add: unat_pages)
    with True get_put [OF ok al] show ?thesis by (simp add: put_range_Suc)
  next
    case False
    then have "unat (w - v) \<noteq> 4096 * n" using Suc.prems by (auto simp: unat_eq_pages)
    moreover obtain q where "unat (w - v) = 4096 * q"
      using page_al_diff [OF assms(3,2)] by (rule page_alE)
    ultimately have "unat (w - v) < 4096 * Suc n \<longleftrightarrow> unat (w - v) < 4096 * n" by auto
    with IH show ?thesis using get_put_other [OF ok al assms(3) False] by (simp add: put_range_Suc)
  qed
qed simp

end

locale framed_page_map = page_map put get ok
  for put :: "'s \<Rightarrow> u32 \<Rightarrow> u32 \<Rightarrow> 's" and get :: "'s \<Rightarrow> u32 \<Rightarrow> u32" and ok :: "'s \<Rightarrow> bool" +
  fixes frame :: "'s \<Rightarrow> 's \<Rightarrow> bool"
  assumes frame_refl: "frame s s"
    and frame_trans: "frame s t \<Longrightarrow> frame t u \<Longrightarrow> frame s u"
    and put_frame: "ok s \<Longrightarrow> page_al v \<Longrightarrow> frame s (put s v x)"
begin

lemma put_range_frame: "ok s \<Longrightarrow> page_al v \<Longrightarrow> frame s (put_range v f n s)"
proof (induction n)
  case 0
  then show ?case by (simp add: frame_refl)
next
  case (Suc n)
  show ?case
    unfolding put_range_Suc
    by (rule frame_trans [OF Suc.IH put_frame]) (use Suc.prems in \<open>auto intro: put_range_ok page_al_add\<close>)
qed

end

section \<open>Page tables in memory are a page map\<close>

definition table_at :: "mem \<Rightarrow> u32 \<Rightarrow> nat \<Rightarrow> u32" where
  "table_at m dir i = page_of (load32 m (dir + 4 * of_nat i))"

definition tables_ok :: "mem \<Rightarrow> u32 \<Rightarrow> bool" where
  "tables_ok m dir \<longleftrightarrow> page_al dir \<and> (\<forall>i < 1024. table_at m dir i \<noteq> dir) \<and> inj_on (table_at m dir) {..<1024}"

text \<open>The memory an update of a page map may change: its 1024 tables.\<close>

definition in_tables :: "mem \<Rightarrow> u32 \<Rightarrow> u32 \<Rightarrow> bool" where
  "in_tables m dir a \<longleftrightarrow> (\<exists>i < 1024. in_range a (table_at m dir i) 4096)"

definition tables_frame :: "u32 \<Rightarrow> mem \<Rightarrow> mem \<Rightarrow> bool" where
  "tables_frame dir m m' \<longleftrightarrow> (\<forall>i < 1024. load32 m' (dir + 4 * of_nat i) = load32 m (dir + 4 * of_nat i)) \<and>
     (\<forall>a. \<not> in_tables m dir a \<longrightarrow> m' a = m a)"

definition dix :: "u32 \<Rightarrow> nat" where "dix v = unat v div 4194304"
definition tix :: "u32 \<Rightarrow> nat" where "tix v = unat v mod 4194304 div 4096"

lemma dix_less: "dix v < 1024" and tix_less: "tix v < 1024"
  using unat_u32_lt [of v] by (simp_all add: dix_def tix_def less_mult_imp_div_less)

lemma page_index_sum:
  assumes "page_al x"
  shows "4194304 * dix x + 4096 * tix x = unat x"
proof -
  from assms obtain q where q: "unat x = 4096 * q" by (rule page_alE)
  have "4096 * q div 4194304 = q div 1024" using div_mult_mult1 [of 4096 q 1024] by simp
  moreover have "4096 * q mod 4194304 = 4096 * (q mod 1024)" using mod_mult_mult1 [of 4096 q 1024] by simp
  moreover have "4096 * (q mod 1024) div 4096 = q mod 1024" by simp
  moreover have "4194304 * (q div 1024) + 4096 * (q mod 1024) = 4096 * q"
    using arg_cong [OF mult_div_mod_eq [of 1024 q], of "(*) 4096"] by (simp only: distrib_left mult.assoc [symmetric])
  ultimately show ?thesis unfolding dix_def tix_def q by (simp only:)
qed

lemma page_indexes_inj:
  assumes "page_al v" "page_al w" "dix v = dix w" "tix v = tix w"
  shows "v = w"
  using page_index_sum [OF assms(1)] page_index_sum [OF assms(2)] assms(3,4) by (simp add: word_unat_eq_iff)

lemma paging_get_indexes_eq:
  "page_al v \<Longrightarrow> paging_get_indexes v d t = (0, of_nat (dix v), of_nat (tix v))"
  by (simp add: paging_get_indexes_def paging_is_aligned_iff word_unat_eq_iff unat_div_distrib unat_mod_distrib
      unat_of_nat_u32 less_trans [OF dix_less] less_trans [OF tix_less]) (simp add: dix_def tix_def)

lemma paging_set_eq:
  "page_al v \<Longrightarrow> paging_set dir v x m = (0, store32 m (table_at m dir (dix v) + 4 * of_nat (tix v)) x)"
  by (simp add: paging_set_def paging_get_indexes_eq paging_is_aligned_iff table_at_def page_of_def)

lemma paging_get_eq:
  "page_al v \<Longrightarrow> paging_get m dir v = load32 m (table_at m dir (dix v) + 4 * of_nat (tix v))"
  by (simp add: paging_get_def paging_get_indexes_eq table_at_def page_of_def)

lemma table_at_al [simp]: "page_al (table_at m dir i)"
  by (simp add: table_at_def)

lemma paging_set_dir:
  assumes "tables_ok m dir" "i < 1024" "j < 1024" "k < 1024"
  shows "load32 (store32 m (table_at m dir j + 4 * of_nat k) x) (dir + 4 * of_nat i) = load32 m (dir + 4 * of_nat i)"
  using assms by (intro store_entry_other) (auto simp: tables_ok_def)

lemma tables_frame_table: "tables_frame dir m m' \<Longrightarrow> i < 1024 \<Longrightarrow> table_at m' dir i = table_at m dir i"
  by (simp add: tables_frame_def table_at_def)

lemma tables_frame_in: "tables_frame dir m m' \<Longrightarrow> in_tables m' dir a = in_tables m dir a"
  by (auto simp: in_tables_def tables_frame_table)

lemma tables_frame_ok: "tables_frame dir m m' \<Longrightarrow> tables_ok m' dir = tables_ok m dir"
  unfolding tables_ok_def by (auto simp: tables_frame_table inj_on_def)

lemma paging_set_frame:
  assumes "tables_ok m dir" "page_al v"
  shows "tables_frame dir m (snd (paging_set dir v x m))"
proof -
  have "store32 m (table_at m dir (dix v) + 4 * of_nat (tix v)) x a = m a" if "\<not> in_tables m dir a" for a
    using that dix_less [of v] by (intro store_entry_frame tix_less) (auto simp: in_tables_def)
  with assms show ?thesis
    by (simp add: tables_frame_def paging_set_eq paging_set_dir dix_less tix_less)
qed

interpretation pages: framed_page_map "\<lambda>m v x. snd (paging_set dir v x m)" "\<lambda>m v. paging_get m dir v"
  "\<lambda>m. tables_ok m dir" "tables_frame dir" for dir
proof
  fix s t u :: mem and v w x :: u32
  show "tables_frame dir s s" by (simp add: tables_frame_def)
  show "tables_frame dir s u" if "tables_frame dir s t" "tables_frame dir t u"
    using that by (auto simp: tables_frame_def tables_frame_in [OF that(1)])
  assume ok: "tables_ok s dir" and v: "page_al v"
  show fr: "tables_frame dir s (snd (paging_set dir v x s))" using ok v by (rule paging_set_frame)
  show "tables_ok (snd (paging_set dir v x s)) dir" using ok by (simp add: tables_frame_ok [OF fr])
  have tab: "table_at (snd (paging_set dir v x s)) dir i = table_at s dir i" if "i < 1024" for i
    using fr that by (rule tables_frame_table)
  show "paging_get (snd (paging_set dir v x s)) dir v = x"
    unfolding paging_get_eq [OF v] tab [OF dix_less] by (simp add: paging_set_eq [OF v])
  assume w: "page_al w" and ne: "w \<noteq> v"
  then have "dix v \<noteq> dix w \<or> tix v \<noteq> tix w" using page_indexes_inj [OF v w] by auto
  then have "table_at s dir (dix v) \<noteq> table_at s dir (dix w) \<or> tix v \<noteq> tix w"
    using ok dix_less by (auto simp: tables_ok_def inj_on_def)
  then show "paging_get (snd (paging_set dir v x s)) dir w = paging_get s dir w"
    unfolding paging_get_eq [OF w] tab [OF dix_less]
    by (simp add: paging_set_eq [OF v] store_entry_other tix_less)
qed

section \<open>Mapping a range\<close>

text \<open>A chunk: its structure holds the directory's address, and lies outside the tables.\<close>

definition chunk_ok :: "mem \<Rightarrow> u32 \<Rightarrow> bool" where
  "chunk_ok m c \<longleftrightarrow> page_al c \<and> tables_ok m (load32 m c) \<and> (\<forall>i < 1024. table_at m (load32 m c) i \<noteq> c)"

lemma chunk_frame:
  assumes "chunk_ok m c" "tables_frame (load32 m c) m m'"
  shows "load32 m' c = load32 m c" and "chunk_ok m' c"
proof -
  let ?d = "load32 m c"
  have c: "page_al c" using assms(1) by (simp add: chunk_ok_def)
  have "\<not> in_tables m ?d (c + of_nat k)" if "k < 4" for k
  proof
    assume "in_tables m ?d (c + of_nat k)"
    then obtain i where i: "i < 1024" "in_range (c + of_nat k) (table_at m ?d i) 4096"
      by (auto simp: in_tables_def)
    have u: "unat (c + of_nat k) = unat c + k" using c that by (intro page_offset) simp_all
    obtain p where "unat c = 4096 * p" using c by (rule page_alE)
    moreover obtain q where "unat (table_at m ?d i) = 4096 * q" using table_at_al by (rule page_alE)
    ultimately have "unat c = unat (table_at m ?d i)" using i(2) u that by (auto simp: in_range_def)
    with assms(1) i(1) show False by (auto simp: chunk_ok_def word_unat_eq_iff)
  qed
  then have "m' (c + of_nat k) = m (c + of_nat k)" if "k < 4" for k
    using assms(2) that by (simp add: tables_frame_def)
  from this [of 0] this [of 1] this [of 2] this [of 3] show l: "load32 m' c = load32 m c"
    by (intro load32_cong) simp_all
  show "chunk_ok m' c"
    using assms by (simp add: chunk_ok_def l tables_frame_ok tables_frame_table)
qed

lemma paging_map_eq:
  "page_al v \<Longrightarrow> page_al p \<Longrightarrow>
   paging_map c v p flags m = (0, snd (paging_set (load32 m c) v (p OR flags) m))"
  by (simp add: paging_map_def mod_page_eq_0 directory_entry_def paging_set_eq)

lemma map_range_loop_eq:
  assumes "chunk_ok m c" "page_al v" "page_al p"
  shows "map_range_loop c v p flags n 0 m =
    (0, pages.put_range (load32 m c) v (\<lambda>i. (p + of_nat i * 4096) OR flags) n m)"
  using assms
proof (induction n arbitrary: m v p)
  case 0
  then show ?case by simp
next
  case (Suc n)
  let ?d = "load32 m c"
  let ?m = "snd (paging_set ?d v (p OR flags) m)"
  have "tables_frame ?d m ?m"
    using Suc.prems by (intro paging_set_frame) (simp_all add: chunk_ok_def)
  from chunk_frame [OF Suc.prems(1) this] Suc.IH [of ?m "v + 4096" "p + 4096"] Suc.prems(2,3)
  have "map_range_loop c (v + 4096) (p + 4096) flags n 0 ?m =
      (0, pages.put_range ?d (v + 4096) (\<lambda>i. (p + 4096 + of_nat i * 4096) OR flags) n ?m)"
    by (simp add: page_al_Suc)
  moreover have "(\<lambda>i. (p + 4096 + of_nat i * 4096) OR flags) = (\<lambda>i. (p + of_nat (Suc i) * 4096) OR flags)"
    by (simp add: algebra_simps)
  ultimately show ?case
    using Suc.prems(2,3) by (simp add: paging_map_eq ISERR_def pages.put_range_shift)
qed

section \<open>Building and freeing a chunk\<close>

lemma fill_table_Suc:
  "fill_table p off fl (Suc n) m =
   store32 (fill_table p off fl n m) (p + 4 * of_nat n) ((off + of_nat n * 4096) OR ucast fl)"
  by (simp add: fill_table_def)

lemma fill_table_out:
  "page_al p \<Longrightarrow> n \<le> 1024 \<Longrightarrow> \<not> in_range a p 4096 \<Longrightarrow> fill_table p off fl n m a = m a"
proof (induction n)
  case 0
  then show ?case by (simp add: fill_table_def)
next
  case (Suc n)
  then show ?case by (simp add: fill_table_Suc store_entry_frame)
qed

lemma fill_table_load:
  "page_al p \<Longrightarrow> n \<le> 1024 \<Longrightarrow> b < n \<Longrightarrow>
   load32 (fill_table p off fl n m) (p + 4 * of_nat b) = (off + of_nat b * 4096) OR ucast fl"
proof (induction n)
  case (Suc n)
  then show ?case
    by (cases "b = n") (simp_all add: fill_table_Suc store_entry_other)
qed simp

text \<open>What \<open>paging_new_4gb\<close> has built after some tables: \<open>ts\<close> are their addresses in order.\<close>

definition building :: "'a machine_scheme \<Rightarrow> u32 \<Rightarrow> u8 \<Rightarrow> u32 list \<Rightarrow> 'a machine_scheme \<Rightarrow> bool" where
  "building k0 dir fl ts k \<longleftrightarrow> kwf k \<and> kgeom k = kgeom k0 \<and> distinct (dir # ts) \<and>
     klive k = (\<lambda>p. if p \<in> set (dir # ts) then Some 1 else klive k0 p) \<and>
     (\<forall>p \<in> set (dir # ts). klive k0 p = None \<and> page_al p) \<and>
     (\<forall>j < length ts. load32 (mem k) (dir + 4 * of_nat j) = ts ! j OR ucast fl OR PAGING_IS_WRITEABLE) \<and>
     (\<forall>j < length ts. \<forall>b < 1024. load32 (mem k) (ts ! j + 4 * of_nat b) =
        (of_nat j * 4194304 + of_nat b * 4096) OR ucast fl) \<and>
     (\<forall>a. (\<forall>p \<in> set (dir # ts). \<not> in_range a p 4096) \<longrightarrow> mem k a = mem k0 a) \<and>
     same_rest k0 k"

lemma kzalloc_page:
  assumes "kwf k" "0 < kroom k"
  obtains p k' where "kzalloc 4096 k = Some (p, k')" "p \<noteq> 0" "page_al p" "kwf k'" "Suc (kroom k') = kroom k"
    "klive k p = None" "klive k' = (klive k)(p \<mapsto> 1)" "kgeom k' = kgeom k"
    "mem k' = (\<lambda>a. if in_range a p 4096 then 0 else mem k a)"
    "same_rest k k'"
proof -
  obtain p k' where a: "kzalloc 4096 k = Some (p, k')" "p \<noteq> 0" "kwf k'" "Suc (kroom k') = kroom k"
    "klive k p = None" "klive k' = (klive k)(p \<mapsto> 1)"
    by (rule kalloc.page_alloc [OF assms(1) _ _ assms(2), of 4096]) simp_all
  have al: "page_al p" using kalloc.live_region [OF a(3), of p 1] a(6) by (simp add: page_al_def)
  have g: "kgeom k' = kgeom k"
    using assms(1) a(1) by (intro kzalloc_geom [of k 4096 p]) (simp_all add: good_size_def)
  have m: "mem k' = (\<lambda>a. if in_range a p 4096 then 0 else mem k a)"
    using kzalloc_mem [OF a(1,2)] by (simp add: page_range [OF al] fun_eq_iff)
  show ?thesis by (rule that [OF a(1,2) al a(3,4) a(5,6) g m same_rest_kzalloc [OF a(1)]])
qed

lemma building_step:
  assumes b: "building k0 dir fl ts k" and i: "length ts < 1024" and room: "0 < kroom k"
  obtains p k1 k2 where "kzalloc 4096 k = Some (p, k1)" "Suc (kroom k1) = kroom k"
    "k2 = k1\<lparr>mem := store32 (fill_table p (of_nat (length ts) * 4194304) fl 1024 (mem k1))
       (dir + 4 * of_nat (length ts)) (p OR ucast fl OR PAGING_IS_WRITEABLE)\<rparr>"
    "kroom k2 = kroom k1" "building k0 dir fl (ts @ [p]) k2"
proof -
  let ?i = "length ts" and ?off = "of_nat (length ts) * 4194304 :: u32"
  from b have wf: "kwf k" by (simp add: building_def)
  from kzalloc_page [OF wf room] obtain p k1 where a: "kzalloc 4096 k = Some (p, k1)" "p \<noteq> 0" "page_al p" "kwf k1"
    "Suc (kroom k1) = kroom k" "klive k p = None" "klive k1 = (klive k)(p \<mapsto> 1)" "kgeom k1 = kgeom k"
    and m1: "mem k1 = (\<lambda>a. if in_range a p 4096 then 0 else mem k a)"
    and fr1: "same_rest k k1" .
  define m2 where "m2 = fill_table p ?off fl 1024 (mem k1)"
  define m3 where "m3 = store32 m2 (dir + 4 * of_nat ?i) (p OR ucast fl OR PAGING_IS_WRITEABLE)"
  have al: "page_al q" if "q \<in> set (dir # ts)" for q using b that unfolding building_def by blast
  have ald: "page_al dir" using al by simp
  have new: "p \<notin> set (dir # ts)" "klive k0 p = None"
    using b a(6) by (auto simp: building_def split: if_splits)
  have m2_out: "m2 a = mem k a" if "\<not> in_range a p 4096" for a
    using that a(3) m1 by (simp add: m2_def fill_table_out)
  have m2_page: "load32 m2 (q + 4 * of_nat j) = load32 (mem k) (q + 4 * of_nat j)"
    if "q \<in> set (dir # ts)" "j < 1024" for q j
  proof (rule page_load_cong [OF _ al [OF that(1)] that(2)])
    fix a assume "in_range a q 4096"
    moreover have "p \<noteq> q" using new(1) that(1) by auto
    ultimately show "m2 a = mem k a" using m2_out pages_disjoint [OF a(3) al [OF that(1)]] by blast
  qed
  have m3_dir: "load32 m3 (dir + 4 * of_nat j) = load32 (mem k) (dir + 4 * of_nat j)" if "j < ?i" for j
    using that i ald m2_page [of dir j] by (simp add: m3_def store_entry_other)
  have m3_tab: "load32 m3 (q + 4 * of_nat j) = load32 m2 (q + 4 * of_nat j)"
    if "page_al q" "q \<noteq> dir" "j < 1024" for q j
    using that i ald by (simp add: m3_def store_entry_other)
  have m3_new: "load32 m3 (p + 4 * of_nat j) = (?off + of_nat j * 4096) OR ucast fl" if "j < 1024" for j
    using m3_tab [OF a(3) _ that] new(1) fill_table_load [OF a(3) _ that] by (auto simp: m2_def)
  have tsd: "ts ! j \<in> set ts \<and> ts ! j \<noteq> dir" if "j < ?i" for j
    using b nth_mem [OF that] by (auto simp: building_def)
  let ?k2 = "k1\<lparr>mem := m3\<rparr>"
  have "building k0 dir fl (ts @ [p]) ?k2"
    unfolding building_def
  proof (intro conjI)
    show "kwf ?k2" using a(4) by (simp add: kwf_def)
    show "kgeom ?k2 = kgeom k0" using a(8) b by (simp add: building_def kgeom_def)
    show "distinct (dir # ts @ [p])" using b new(1) by (auto simp: building_def)
    have "klive k = (\<lambda>q. if q \<in> set (dir # ts) then Some 1 else klive k0 q)" using b by (simp add: building_def)
    then show "klive ?k2 = (\<lambda>q. if q \<in> set (dir # ts @ [p]) then Some 1 else klive k0 q)"
      using a(7) by (auto simp: klive_def fun_eq_iff)
    show "\<forall>q \<in> set (dir # ts @ [p]). klive k0 q = None \<and> page_al q"
      using b new(2) a(3) by (auto simp: building_def)
    show "\<forall>j < length (ts @ [p]). load32 (mem ?k2) (dir + 4 * of_nat j) = (ts @ [p]) ! j OR ucast fl OR PAGING_IS_WRITEABLE"
    proof (intro allI impI)
      fix j assume "j < length (ts @ [p])"
      then consider "j < ?i" | "j = ?i" by force
      then show "load32 (mem ?k2) (dir + 4 * of_nat j) = (ts @ [p]) ! j OR ucast fl OR PAGING_IS_WRITEABLE"
      proof cases
        case 1
        then show ?thesis using m3_dir [OF 1] b by (simp add: building_def nth_append)
      next
        case 2
        then show ?thesis by (simp add: m3_def)
      qed
    qed
    show "\<forall>j < length (ts @ [p]). \<forall>c < 1024. load32 (mem ?k2) ((ts @ [p]) ! j + 4 * of_nat c) =
        (of_nat j * 4194304 + of_nat c * 4096) OR ucast fl"
    proof (intro allI impI)
      fix j c assume j: "j < length (ts @ [p])" and c: "c < (1024 :: nat)"
      from j consider "j < ?i" | "j = ?i" by force
      then show "load32 (mem ?k2) ((ts @ [p]) ! j + 4 * of_nat c) = (of_nat j * 4194304 + of_nat c * 4096) OR ucast fl"
      proof cases
        case 1
        then have "load32 m3 (ts ! j + 4 * of_nat c) = load32 (mem k) (ts ! j + 4 * of_nat c)"
          using tsd [OF 1] al m3_tab [of "ts ! j" c] m2_page [of "ts ! j" c] c by auto
        with 1 c b show ?thesis by (simp add: building_def nth_append)
      next
        case 2
        then show ?thesis using m3_new [OF c] by simp
      qed
    qed
    show "\<forall>a. (\<forall>q \<in> set (dir # ts @ [p]). \<not> in_range a q 4096) \<longrightarrow> mem ?k2 a = mem k0 a"
    proof (intro allI impI)
      fix a assume out: "\<forall>q \<in> set (dir # ts @ [p]). \<not> in_range a q 4096"
      then have "m3 a = m2 a" using i ald by (simp add: m3_def store_entry_frame)
      also have "\<dots> = mem k a" using out by (simp add: m2_out)
      also have "\<dots> = mem k0 a" using out b by (simp add: building_def)
      finally show "mem ?k2 a = mem k0 a" by simp
    qed
    have "same_rest k0 k" using b by (simp add: building_def)
    with fr1 show "same_rest k0 ?k2" by (auto intro: same_rest_trans)
  qed
  then show ?thesis using a(1,5) by (intro that [of p k1 ?k2]) (simp_all add: m3_def m2_def kroom_def)
qed

lemma new_tables_building:
  assumes "building k0 dir fl ts k" "length ts + n = 1024" "n \<le> kroom k"
  shows "\<exists>us k'. new_tables dir fl (length ts) n (of_nat (length ts) * 4194304) k = Some k' \<and>
    building k0 dir fl us k' \<and> length us = 1024 \<and> kroom k = kroom k' + n"
  using assms
proof (induction n arbitrary: ts k)
  case (Suc n)
  obtain p k1 k2
    where s: "kzalloc 4096 k = Some (p, k1)" "Suc (kroom k1) = kroom k"
    "k2 = k1\<lparr>mem := store32 (fill_table p (of_nat (length ts) * 4194304) fl 1024 (mem k1))
       (dir + 4 * of_nat (length ts)) (p OR ucast fl OR PAGING_IS_WRITEABLE)\<rparr>"
    "kroom k2 = kroom k1" "building k0 dir fl (ts @ [p]) k2" 
    by (rule building_step [OF Suc.prems(1)]) (use Suc.prems(2,3) in simp_all)
  have "new_tables dir fl (length ts) (Suc n) (of_nat (length ts) * 4194304) k =
      new_tables dir fl (length (ts @ [p])) n (of_nat (length (ts @ [p])) * 4194304) k2"
    using s(1,3) by (simp add: Let_def algebra_simps)
  moreover have "\<exists>us k'. new_tables dir fl (length (ts @ [p])) n (of_nat (length (ts @ [p])) * 4194304) k2 = Some k' \<and>
      building k0 dir fl us k' \<and> length us = 1024 \<and> kroom k2 = kroom k' + n"
    using s Suc.prems by (intro Suc.IH [OF s(5)]) simp_all
  ultimately show ?case using s(2,4) by auto
qed auto

text \<open>A chunk together with its pages: the structure, the directory and the 1024 tables, all
  separately allocated.\<close>

definition owned_pages :: "mem \<Rightarrow> u32 \<Rightarrow> u32 list" where
  "owned_pages m c = c # load32 m c # map (table_at m (load32 m c)) [0..<1024]"

definition owns_chunk :: "'a machine_scheme \<Rightarrow> u32 \<Rightarrow> bool" where
  "owns_chunk k c \<longleftrightarrow> kwf k \<and> chunk_ok (mem k) c \<and> distinct (owned_pages (mem k) c) \<and>
     (\<forall>p \<in> set (owned_pages (mem k) c). klive k p = Some 1)"

lemma owned_pages_frame:
  assumes "chunk_ok m c" "tables_frame (load32 m c) m m'"
  shows "owned_pages m' c = owned_pages m c"
  using chunk_frame(1) [OF assms] assms(2) by (simp add: owned_pages_def tables_frame_table)

lemma owns_chunk_frame:
  assumes "owns_chunk k c" "tables_frame (load32 (mem k) c) (mem k) m"
  shows "owns_chunk (k\<lparr>mem := m\<rparr>) c"
proof -
  have ok: "chunk_ok (mem k) c" using assms(1) by (simp add: owns_chunk_def)
  with assms chunk_frame(2) [OF ok assms(2)] show ?thesis
    by (simp add: owns_chunk_def owned_pages_frame kwf_def klive_def)
qed

lemma page_split: "page_al v \<Longrightarrow> of_nat (dix v) * 4194304 + of_nat (tix v) * 4096 = v"
proof -
  assume "page_al v"
  then have "(of_nat (4194304 * dix v + 4096 * tix v) :: u32) = of_nat (unat v)"
    by (simp only: page_index_sum)
  then show ?thesis by (simp add: mult.commute)
qed

lemma paging_new_4gb_correct':
  assumes wf: "kwf k" and room: "1026 \<le> kroom k"
  shows "\<exists>c k'. paging_new_4gb fl k = Some (c, k') \<and> owns_chunk k' c \<and> kroom k = kroom k' + 1026 \<and>
    (\<forall>v. page_al v \<longrightarrow> paging_get (mem k') (load32 (mem k') c) v = v OR ucast fl) \<and>
    (\<forall>p \<in> set (owned_pages (mem k') c). klive k p = None) \<and>
    klive k' = (\<lambda>p. if p \<in> set (owned_pages (mem k') c) then Some 1 else klive k p) \<and>
    kgeom k' = kgeom k \<and> same_rest k k' \<and>
    (\<forall>a. (\<forall>p \<in> set (owned_pages (mem k') c). \<not> in_range a p 4096) \<longrightarrow> mem k' a = mem k a)"
proof -
  from room have "0 < kroom k" by simp
  from kzalloc_page [OF wf this] obtain d k1 where d: "kzalloc 4096 k = Some (d, k1)" "d \<noteq> 0" "page_al d" "kwf k1"
    "Suc (kroom k1) = kroom k" "klive k d = None" "klive k1 = (klive k)(d \<mapsto> 1)" "kgeom k1 = kgeom k"
    "mem k1 = (\<lambda>a. if in_range a d 4096 then 0 else mem k a)" "same_rest k k1" .
  have "building k d fl [] k1"
    using d by (auto simp: building_def fun_eq_iff)
  from new_tables_building [OF this, of 1024] d(5) room obtain ts k2
    where b: "new_tables d fl 0 1024 0 k1 = Some k2" "building k d fl ts k2" "length ts = 1024"
      "kroom k1 = kroom k2 + 1024" by auto
  have wf2: "kwf k2" using b(2) by (simp add: building_def)
  have "0 < kroom k2" using d(5) b(4) room by linarith
  then obtain c k3 where c: "kzalloc 4 k2 = Some (c, k3)" "c \<noteq> 0" "kwf k3" "Suc (kroom k3) = kroom k2"
    "klive k2 c = None" "klive k3 = (klive k2)(c \<mapsto> 1)"
    by (rule kalloc.page_alloc [OF wf2, of 4, rotated 2]) simp_all
  have alc: "page_al c" using kalloc.live_region [OF c(3), of c 1] c(6) by (simp add: page_al_def)
  define m where "m = store32 (mem k3) c d"
  let ?k = "k3\<lparr>mem := m\<rparr>"
  have m3: "mem k3 a = mem k2 a" if "\<not> in_range a c 4096" for a
    using kzalloc_mem [OF c(1,2)] that page_range [OF alc, of a] by auto
  have out: "m a = mem k2 a" if "\<not> in_range a c 4096" for a
    using that m3 store_entry_frame [OF alc, of 0 a] by (simp add: m_def)
  have al: "page_al q" if "q \<in> set (d # ts)" for q using b(2) that unfolding building_def by blast
  have new: "c \<notin> set (d # ts)" "klive k c = None"
    using b(2) c(5) by (auto simp: building_def split: if_splits)
  have ld: "load32 m (q + 4 * of_nat j) = load32 (mem k2) (q + 4 * of_nat j)" if "q \<in> set (d # ts)" "j < 1024" for q j
  proof (rule page_load_cong [OF _ al [OF that(1)] that(2)])
    fix a assume "in_range a q 4096"
    moreover have "c \<noteq> q" using new(1) that(1) by auto
    ultimately show "m a = mem k2 a" using out pages_disjoint [OF alc al [OF that(1)]] by blast
  qed
  have dir: "load32 m c = d" by (simp add: m_def)
  have tab: "table_at m d j = ts ! j" if "j < 1024" for j
  proof -
    have "load32 m (d + 4 * of_nat j) = ts ! j OR ucast fl OR PAGING_IS_WRITEABLE"
      using ld [of d j] b(2,3) that by (simp add: building_def)
    moreover have "page_al (ts ! j)" using al b(3) that by simp
    ultimately show ?thesis
      by (simp add: table_at_def page_of_or_any unat_ucast_u8 PAGING_IS_WRITEABLE_def or.assoc [symmetric])
  qed
  have owned: "owned_pages m c = c # d # ts"
    using b(3) tab by (auto simp: owned_pages_def dir intro: nth_equalityI)
  have dist: "distinct (c # d # ts)" using b(2) new(1) by (auto simp: building_def)
  have tabs: "tables_ok m d"
    unfolding tables_ok_def
  proof (intro conjI)
    show "page_al d" by (rule d(3))
    show "\<forall>i < 1024. table_at m d i \<noteq> d"
      using dist b(3) tab nth_mem [of _ ts] by fastforce
    show "inj_on (table_at m d) {..<1024}"
      using dist b(3) by (intro inj_onI) (simp add: tab nth_eq_iff_index_eq)
  qed
  have "owns_chunk ?k c"
    unfolding owns_chunk_def chunk_ok_def
  proof (intro conjI)
    show "kwf ?k" using c(3) by (simp add: kwf_def)
    show "page_al c" by (rule alc)
    show "tables_ok (mem ?k) (load32 (mem ?k) c)" using tabs by (simp add: dir)
    show "\<forall>i < 1024. table_at (mem ?k) (load32 (mem ?k) c) i \<noteq> c"
      using dist b(3) tab nth_mem [of _ ts] by (fastforce simp: dir)
    show "distinct (owned_pages (mem ?k) c)" using dist by (simp add: owned)
    have "klive k2 = (\<lambda>q. if q \<in> set (d # ts) then Some 1 else klive k q)" using b(2) by (simp add: building_def)
    then show "\<forall>p \<in> set (owned_pages (mem ?k) c). klive ?k p = Some 1"
      using c(6) by (auto simp: owned klive_def)
  qed
  moreover have "paging_get m d v = v OR ucast fl" if "page_al v" for v
  proof -
    have "paging_get m d v = load32 (mem k2) (ts ! dix v + 4 * of_nat (tix v))"
      using that b(3) dix_less [of v] tix_less [of v] by (simp add: paging_get_eq tab ld)
    also have "\<dots> = v OR ucast fl"
      using b(2,3) dix_less [of v] tix_less [of v] page_split [OF that] by (simp add: building_def)
    finally show ?thesis .
  qed
  moreover have "paging_new_4gb fl k = Some (c, ?k)"
    using d(1) b(1) c(1) by (simp add: paging_new_4gb_def m_def)
  moreover have "kroom k = kroom ?k + 1026" using d(5) b(4) c(4) by (simp add: kroom_def)
  moreover have "\<forall>p \<in> set (owned_pages m c). klive k p = None"
    using b(2) new(2) by (auto simp: owned building_def)
  moreover have "klive ?k = (\<lambda>p. if p \<in> set (owned_pages m c) then Some 1 else klive k p)"
    using b(2) c(6) by (auto simp: owned building_def klive_def)
  moreover have "kgeom ?k = kgeom k"
    using b(2) kzalloc_geom [OF wf2 _ c(1)] by (simp add: building_def kgeom_def good_size_def)
  moreover have "same_rest k ?k"
    using b(2) same_rest_kzalloc [OF c(1)] by (auto simp: building_def intro: same_rest_trans)
  moreover have "\<forall>a. (\<forall>p \<in> set (owned_pages m c). \<not> in_range a p 4096) \<longrightarrow> m a = mem k a"
    using b(2) out by (auto simp: owned building_def)
  ultimately show ?thesis by (intro exI [of _ c] exI [of _ ?k]) (simp add: dir)
qed

lemma paging_free_4gb_eq:
  "paging_free_4gb c k = fold kfree (map (table_at (mem k) (load32 (mem k) c)) [0..<1024] @ [load32 (mem k) c, c]) k"
proof -
  have "fold (\<lambda>i k. kfree (load32 (mem k) (directory_entry (mem k) c + 4 * of_nat i) AND 0xFFFFF000) k) xs k =
      fold kfree (map (table_at (mem k) (load32 (mem k) c)) xs) k" for xs
    by (induction xs arbitrary: k) (simp_all add: table_at_def page_of_def directory_entry_def)
  moreover have "mem (fold kfree ps k) = mem k" for ps
    by (induction ps arbitrary: k) simp_all
  ultimately show ?thesis
    unfolding paging_free_4gb_def Let_def by (simp add: directory_entry_def)
qed

lemma paging_free_4gb_correct':
  assumes "owns_chunk k c"
  shows "kwf (paging_free_4gb c k) \<and>
    klive (paging_free_4gb c k) = (\<lambda>p. if p \<in> set (owned_pages (mem k) c) then None else klive k p) \<and>
    kgeom (paging_free_4gb c k) = kgeom k \<and> mem (paging_free_4gb c k) = mem k \<and> same_rest k (paging_free_4gb c k)"
proof -
  let ?ps = "map (table_at (mem k) (load32 (mem k) c)) [0..<1024] @ [load32 (mem k) c, c]"
  have s: "set ?ps = set (owned_pages (mem k) c)" by (auto simp: owned_pages_def)
  have "distinct ?ps" using assms by (auto simp: owns_chunk_def owned_pages_def)
  moreover have "\<forall>p \<in> set ?ps. \<exists>j. klive k p = Some j" unfolding s using assms by (auto simp: owns_chunk_def)
  moreover have "kwf k" using assms by (simp add: owns_chunk_def)
  ultimately show ?thesis using kfree_list [of k ?ps] unfolding paging_free_4gb_eq s by blast
qed

section \<open>Addresses\<close>

lemma lower_page_eq: "paging_align_to_lower_page a = page_of a"
proof -
  have m: "unat (a mod 4096) \<le> unat a" by (simp add: unat_mod_distrib)
  then have "unat (a - a mod 4096) = unat a - unat a mod 4096"
    by (simp add: unat_sub word_le_unat unat_mod_distrib)
  also have "\<dots> = 4096 * (unat a div 4096)" by (rule minus_mod_eq_mult_div)
  finally have "a - a mod 4096 = page_of a" by (simp add: word_unat_eq_iff page_of_unat)
  then show ?thesis by (cases "a mod 4096 = 0") (simp_all only: paging_align_to_lower_page_def diff_0_right if_True if_False not_True_eq_False not_False_eq_True simp_thms)
qed

lemma page_of_decomp:
  obtains b where "a = page_of a + of_nat b" "b < 4096"
proof
  show "unat a mod 4096 < 4096" by simp
  have "unat (page_of a + of_nat (unat a mod 4096)) = 4096 * (unat a div 4096) + unat a mod 4096"
    by (subst page_offset) (simp_all add: page_of_unat)
  then show "a = page_of a + of_nat (unat a mod 4096)" by (simp add: word_unat_eq_iff)
qed

lemma page_mult: "page_al x \<Longrightarrow> of_nat (unat x div 4096) * 4096 = x"
proof -
  assume "page_al x"
  then have "unat x div 4096 * 4096 = unat x" by (auto simp: page_al_def)
  then have "(of_nat (unat x div 4096 * 4096) :: u32) = of_nat (unat x)" by (simp only:)
  then show ?thesis by simp
qed

lemma map_to_eq:
  assumes "chunk_ok m c" "page_al v" "page_al p" "page_al e" "p \<le> e"
  shows "paging_map_to c v p e fl m =
    (0, pages.put_range (load32 m c) v (\<lambda>i. (p + of_nat i * 4096) OR fl) (unat (e - p) div 4096) m)"
proof -
  have "unat ((e - p) div 4096) < 2147483648"
    using unat_u32_lt [of "e - p"] by (simp add: unat_div_distrib less_mult_imp_div_less)
  then have "nat (sint ((e - p) div 4096)) = unat (e - p) div 4096"
    by (simp add: sint_eq_unat unat_div_distrib)
  moreover have "\<not> e < p" using assms(5) by (simp add: not_less)
  ultimately show ?thesis using assms
    by (simp add: paging_map_to_def mod_page_eq_0 paging_map_range_def map_range_loop_eq)
qed

lemma map_to_correct':
  assumes c: "chunk_ok m c" and al: "page_al v" "page_al p" "page_al e" "p \<le> e"
  shows "\<exists>m'. paging_map_to c v p e fl m = (0, m') \<and> tables_frame (load32 m c) m m' \<and>
    (\<forall>w. page_al w \<longrightarrow> paging_get m' (load32 m c) w =
      (if unat (w - v) < unat (e - p) then (p + (w - v)) OR fl else paging_get m (load32 m c) w))"
proof -
  let ?d = "load32 m c" and ?n = "unat (e - p) div 4096"
  have ok: "tables_ok m ?d" using c by (simp add: chunk_ok_def)
  have n: "4096 * ?n = unat (e - p)" using page_al_diff [OF al(3,2)] by (auto simp: page_al_def)
  then have n': "?n \<le> 1048576" using unat_u32_lt [of "e - p"] by linarith
  have "paging_get (pages.put_range ?d v (\<lambda>i. (p + of_nat i * 4096) OR fl) ?n m) ?d w =
      (if unat (w - v) < unat (e - p) then (p + (w - v)) OR fl else paging_get m ?d w)" if "page_al w" for w
    using pages.get_put_range [OF ok al(1) that n', of "\<lambda>i. (p + of_nat i * 4096) OR fl"]
      page_mult [OF page_al_diff [OF that al(1)]] n by (simp only:)
  with pages.put_range_frame [OF ok al(1)] map_to_eq [OF c al] show ?thesis by auto
qed

lemma align_address_eq:
  "paging_align_address a = (if page_al a then a else page_of a + 4096)"
proof (cases "a mod 4096 = 0")
  case True
  then have "page_al a" by (simp only: mod_page_eq_0)
  with True show ?thesis by (simp only: paging_align_address_def if_True simp_thms if_False)
next
  case False
  then have n: "page_al a = False" by (simp only: mod_page_eq_0)
  have low: "a - a mod 4096 = page_of a"
    using lower_page_eq [of a] False by (simp only: paging_align_to_lower_page_def simp_thms if_True)
  have "paging_align_address a = a + 4096 - a mod 4096"
    using False by (simp only: paging_align_address_def if_True simp_thms)
  also have "\<dots> = a - a mod 4096 + 4096" by simp
  finally show ?thesis by (simp only: low n if_False)
qed

lemma align_address_bounds:
  "page_al (paging_align_address a) \<and>
   (if unat a \<le> 4294963200
    then unat a \<le> unat (paging_align_address a) \<and> unat (paging_align_address a) < unat a + 4096
    else paging_align_address a = 0)"
proof -
  define q where "q = unat a div 4096"
  have q: "unat (page_of a) = 4096 * q" by (simp add: page_of_unat q_def)
  have a: "4096 * q \<le> unat a" "unat a < 4096 * q + 4096" by (simp_all add: q_def)
  have lt: "unat a < 4294967296" by (rule unat_u32_lt)
  have s: "unat (page_of a + 4096) = (4096 * q + 4096) mod 4294967296" using q by (simp add: unat_word_ariths)
  have al: "page_al (page_of a + 4096)" by (intro page_al_Suc) simp
  show ?thesis
  proof (cases "page_al a")
    case True
    then obtain p where "unat a = 4096 * p" "p < 1048576" by (rule page_alE)
    with True show ?thesis by (simp add: align_address_eq)
  next
    case False
    have ne: "unat a \<noteq> 4096 * q"
    proof
      assume "unat a = 4096 * q"
      then show False using False by (simp add: page_al_def)
    qed
    show ?thesis
    proof (cases "q = 1048575")
      case True
      with s have "page_of a + 4096 = 0" by (simp add: word_unat_eq_iff)
      with False True a ne show ?thesis by (simp add: align_address_eq)
    next
      case qs: False
      then have "q < 1048575" using a lt by linarith
      with s have "unat (page_of a + 4096) = 4096 * q + 4096" by simp
      with False a ne al \<open>q < 1048575\<close> show ?thesis by (simp add: align_address_eq)
    qed
  qed
qed

section \<open>Properties\<close>

text \<open>C26. Writing a page table entry: for a well-formed directory and a page-aligned address,
  \<open>paging_set\<close> succeeds, \<open>paging_get\<close> reads the value back, the entry of every other page and
  every byte outside the 1024 tables keep their values, and the directory stays well formed.\<close>

theorem paging_set_get:
  assumes "tables_ok m dir" and "page_al virt"
  shows "\<exists>m'. paging_set dir virt val m = (0, m') \<and> tables_ok m' dir \<and> paging_get m' dir virt = val \<and>
    (\<forall>w. page_al w \<longrightarrow> w \<noteq> virt \<longrightarrow> paging_get m' dir w = paging_get m dir w) \<and>
    (\<forall>a. \<not> in_tables m dir a \<longrightarrow> m' a = m a)"
proof -
  obtain m' where m': "paging_set dir virt val m = (0, m')" using assms(2) by (simp add: paging_set_eq)
  with pages.put_ok [OF assms, of val] pages.get_put [OF assms, of val] pages.get_put_other [OF assms, of _ val]
    pages.put_frame [OF assms, of val]
  show ?thesis by (auto simp: tables_frame_def)
qed

text \<open>C9. \<open>paging_map_to\<close> maps exactly the range asked for. With page-aligned arguments and
  \<open>phys \<le> phys_end\<close> it returns 0, the page at distance \<open>d\<close> from \<open>virt\<close> is mapped to \<open>phys + d\<close> with
  the flags when \<open>d\<close> is below the length, every other page keeps its entry, and no byte outside the
  tables changes; with any other arguments it returns \<open>-EINVARG\<close> and changes nothing.\<close>

theorem paging_map_to_correct:
  assumes "chunk_ok m c"
  shows "if page_al virt \<and> page_al phys \<and> page_al phys_end \<and> phys \<le> phys_end
    then \<exists>m'. paging_map_to c virt phys phys_end flags m = (0, m') \<and> chunk_ok m' c \<and> load32 m' c = load32 m c \<and>
      (\<forall>w. page_al w \<longrightarrow> paging_get m' (load32 m c) w =
        (if unat (w - virt) < unat (phys_end - phys) then (phys + (w - virt)) OR flags
         else paging_get m (load32 m c) w)) \<and>
      (\<forall>a. \<not> in_tables m (load32 m c) a \<longrightarrow> m' a = m a)
    else paging_map_to c virt phys phys_end flags m = (- EINVARG, m)"
proof (cases "page_al virt \<and> page_al phys \<and> page_al phys_end \<and> phys \<le> phys_end")
  case True
  then obtain m' where m': "paging_map_to c virt phys phys_end flags m = (0, m')"
    "tables_frame (load32 m c) m m'"
    "\<forall>w. page_al w \<longrightarrow> paging_get m' (load32 m c) w =
      (if unat (w - virt) < unat (phys_end - phys) then (phys + (w - virt)) OR flags else paging_get m (load32 m c) w)"
    using map_to_correct' [OF assms] by blast
  with chunk_frame [OF assms m'(2)] True show ?thesis by (simp add: tables_frame_def)
next
  case False
  then show ?thesis by (auto simp: paging_map_to_def mod_page_eq_0 not_less)
qed

text \<open>C29. Address translation agrees with the mapping: after a successful \<open>paging_map_to\<close> with flags
  below the page size, the physical address of every byte of the range, aligned or not, is the byte at
  the same distance from \<open>phys\<close>.\<close>

theorem physical_address_mapped:
  assumes "chunk_ok m c" and "page_al virt" "page_al phys" "page_al phys_end" "phys \<le> phys_end"
    and "unat flags < 4096" and "unat (a - virt) < unat (phys_end - phys)"
  shows "paging_get_physical_address (snd (paging_map_to c virt phys phys_end flags m)) (load32 m c) a = phys + (a - virt)"
proof -
  obtain b where b: "a = page_of a + of_nat b" "b < 4096" by (rule page_of_decomp)
  have al: "page_al (page_of a - virt)" using assms(2) by (intro page_al_diff) simp_all
  have "a - virt = (page_of a - virt) + of_nat b" using b(1) by (metis add_diff_eq diff_add_eq)
  then have "unat (a - virt) = unat (page_of a - virt) + b" using page_offset [OF al b(2)] by (simp only:)
  with assms(7) have "unat (page_of a - virt) < unat (phys_end - phys)" by linarith
  moreover obtain m' where "paging_map_to c virt phys phys_end flags m = (0, m')"
    "\<forall>w. page_al w \<longrightarrow> paging_get m' (load32 m c) w =
      (if unat (w - virt) < unat (phys_end - phys) then (phys + (w - virt)) OR flags else paging_get m (load32 m c) w)"
    using map_to_correct' [OF assms(1-5)] by blast
  ultimately have "paging_get_physical_address (snd (paging_map_to c virt phys phys_end flags m)) (load32 m c) a =
      page_of ((phys + (page_of a - virt)) OR flags) + (a - page_of a)"
    by (simp add: paging_get_physical_address_def lower_page_eq Let_def flip: page_of_def)
  also have "page_of ((phys + (page_of a - virt)) OR flags) = page_of (phys + (page_of a - virt))"
    using assms(6) by (rule page_of_or_any)
  also have "\<dots> = phys + (page_of a - virt)"
    using page_al_add [OF assms(3), of "unat (page_of a - virt) div 4096"] by (simp only: page_mult [OF al] page_of_self)
  finally show ?thesis by simp
qed

text \<open>C27. \<open>paging_new_4gb\<close> builds an identity map: with 1026 free blocks it succeeds, every page of the
  4 GB is mapped to itself with the flags given, the structure, the directory and the 1024 tables are
  separate fresh allocations, and no byte outside them changes.\<close>

theorem paging_new_4gb_identity:
  assumes "kwf k" and "1026 \<le> kroom k"
  shows "\<exists>c k'. paging_new_4gb flags k = Some (c, k') \<and> owns_chunk k' c \<and> kroom k = kroom k' + 1026 \<and>
    (\<forall>v. page_al v \<longrightarrow> paging_get (mem k') (load32 (mem k') c) v = v OR ucast flags) \<and>
    (\<forall>p \<in> set (owned_pages (mem k') c). klive k p = None) \<and>
    (\<forall>a. (\<forall>p \<in> set (owned_pages (mem k') c). \<not> in_range a p 4096) \<longrightarrow> mem k' a = mem k a)"
  using paging_new_4gb_correct' [OF assms] by blast

text \<open>C28. Freeing a chunk gives back everything \<open>paging_new_4gb\<close> took, whatever the page tables say by
  then: the kernel heap's table is byte for byte what it was before.\<close>

theorem paging_free_new:
  assumes "kwf k" and "1026 \<le> kroom k" and "paging_new_4gb flags k = Some (c, k')"
    and "tables_frame (load32 (mem k') c) (mem k') m"
  shows "kernel_heap (paging_free_4gb c (k'\<lparr>mem := m\<rparr>)) = kernel_heap k"
proof -
  from paging_new_4gb_correct' [OF assms(1,2), of flags] assms(3)
  have k': "owns_chunk k' c" "kgeom k' = kgeom k" "\<forall>p \<in> set (owned_pages (mem k') c). klive k p = None"
    "klive k' = (\<lambda>p. if p \<in> set (owned_pages (mem k') c) then Some 1 else klive k p)" by auto
  have own: "owned_pages m c = owned_pages (mem k') c"
    using k'(1) assms(4) by (intro owned_pages_frame) (simp add: owns_chunk_def)
  let ?r = "paging_free_4gb c (k'\<lparr>mem := m\<rparr>)"
  have r: "kwf ?r" "kgeom ?r = kgeom k"
    "klive ?r = (\<lambda>p. if p \<in> set (owned_pages (mem k') c) then None else klive k' p)"
    using paging_free_4gb_correct' [OF owns_chunk_frame [OF k'(1) assms(4)]] k'(2)
    by (simp_all add: own cong: if_cong)
  have "klive ?r = klive k" using r(3) k'(3,4) by (auto simp: fun_eq_iff)
  with r(1,2) assms(1) show ?thesis by (intro klive_determines)
qed

text \<open>The two rounding functions: rounding down gives the greatest page boundary not above the
  address, rounding up the least one not below it, which is 0 for an address in the last page.\<close>

theorem paging_align_bounds:
  "page_al (paging_align_to_lower_page a) \<and> page_al (paging_align_address a) \<and>
   unat (paging_align_to_lower_page a) \<le> unat a \<and> unat a < unat (paging_align_to_lower_page a) + 4096 \<and>
   (if unat a \<le> 4294963200
    then unat a \<le> unat (paging_align_address a) \<and> unat (paging_align_address a) < unat a + 4096
    else paging_align_address a = 0)"
  using align_address_bounds [of a] page_of_unat [of a] by (auto simp: lower_page_eq)

section \<open>A concrete page map\<close>

lemma booted_chunk:
  obtains c k where "paging_new_4gb 3 (kheap_init machine4) = Some (c, k)" "owns_chunk k c" "chunk_ok (mem k) c"
    "tables_ok (mem k) (load32 (mem k) c)"
    "\<And>v. page_al v \<Longrightarrow> paging_get (mem k) (load32 (mem k) c) v = v OR 3"
proof -
  have "1026 \<le> kroom (kheap_init machine4)" by (simp add: booted_machine)
  from paging_new_4gb_correct' [OF booted_machine(1) this, of 3] that show ?thesis
    by (auto simp: owns_chunk_def chunk_ok_def)
qed

theorem paging_set_get_witness:
  "\<exists>m dir m'. paging_set dir 0x5000 7 m = (0, m') \<and> paging_get m' dir 0x5000 = 7 \<and> paging_get m' dir 0x6000 = 0x6003"
proof -
  obtain c k where b: "paging_new_4gb 3 (kheap_init machine4) = Some (c, k)" "owns_chunk k c" "chunk_ok (mem k) c"
    "tables_ok (mem k) (load32 (mem k) c)"
    "\<And>v. page_al v \<Longrightarrow> paging_get (mem k) (load32 (mem k) c) v = v OR 3" by (rule booted_chunk) (rule that)
  note k = b(4,5)
  have al: "page_al 0x5000" "page_al 0x6000" by (simp_all add: page_al_def)
  obtain m' where m': "paging_set (load32 (mem k) c) 0x5000 7 (mem k) = (0, m')"
    "paging_get m' (load32 (mem k) c) 0x5000 = 7"
    "\<forall>w. page_al w \<longrightarrow> w \<noteq> 0x5000 \<longrightarrow> paging_get m' (load32 (mem k) c) w = paging_get (mem k) (load32 (mem k) c) w"
    using paging_set_get [OF k(1) al(1), of 7] by blast
  from m'(3) al(2) k(2) [OF al(2)] have "paging_get m' (load32 (mem k) c) 0x6000 = 0x6003" by simp
  with m'(1,2) show ?thesis by blast
qed

theorem paging_map_to_correct_witness:
  "\<exists>c m m'. paging_map_to c 0x400000 0x800000 0x802000 7 m = (0, m') \<and>
     paging_get m' (load32 m c) 0x401000 = 0x801007 \<and> paging_get m' (load32 m c) 0x402000 = 0x402003"
proof -
  obtain c k where b: "paging_new_4gb 3 (kheap_init machine4) = Some (c, k)" "owns_chunk k c" "chunk_ok (mem k) c"
    "tables_ok (mem k) (load32 (mem k) c)"
    "\<And>v. page_al v \<Longrightarrow> paging_get (mem k) (load32 (mem k) c) v = v OR 3" by (rule booted_chunk) (rule that)
  note k = b(3,5)
  have al: "page_al 0x400000" "page_al 0x800000" "page_al 0x802000" "page_al 0x401000" "page_al 0x402000"
    by (simp_all add: page_al_def)
  have "page_al 0x400000 \<and> page_al 0x800000 \<and> page_al 0x802000 \<and> (0x800000 :: u32) \<le> 0x802000" using al by simp
  with paging_map_to_correct [OF k(1), of "0x400000" "0x800000" "0x802000" 7]
  obtain m' where m': "paging_map_to c 0x400000 0x800000 0x802000 7 (mem k) = (0, m')"
    "\<forall>w. page_al w \<longrightarrow> paging_get m' (load32 (mem k) c) w =
      (if unat (w - 0x400000) < unat (0x802000 - 0x800000 :: u32) then (0x800000 + (w - 0x400000)) OR 7
       else paging_get (mem k) (load32 (mem k) c) w)" by (simp only: if_True simp_thms) blast
  have "paging_get m' (load32 (mem k) c) 0x401000 = 0x801007"
    using spec [OF m'(2), of "0x401000"] al(4) by simp
  moreover have "paging_get m' (load32 (mem k) c) 0x402000 = 0x402003"
    using spec [OF m'(2), of "0x402000"] al(5) k(2) [OF al(5)] by simp
  ultimately show ?thesis using m'(1) by blast
qed

theorem physical_address_mapped_witness:
  "\<exists>c m. paging_get_physical_address (snd (paging_map_to c 0x400000 0x800000 0x802000 7 m)) (load32 m c) 0x401234 = 0x801234"
proof -
  obtain c k where b: "paging_new_4gb 3 (kheap_init machine4) = Some (c, k)" "owns_chunk k c" "chunk_ok (mem k) c"
    "tables_ok (mem k) (load32 (mem k) c)"
    "\<And>v. page_al v \<Longrightarrow> paging_get (mem k) (load32 (mem k) c) v = v OR 3" by (rule booted_chunk) (rule that)
  note k = b(3)
  have "page_al 0x400000" "page_al 0x800000" "page_al 0x802000" by (simp_all add: page_al_def)
  then have "paging_get_physical_address (snd (paging_map_to c 0x400000 0x800000 0x802000 7 (mem k)))
      (load32 (mem k) c) 0x401234 = 0x800000 + (0x401234 - 0x400000)"
    by (rule physical_address_mapped [OF k]) simp_all
  then show ?thesis by (intro exI [of _ c] exI [of _ "mem k"]) simp
qed

theorem paging_new_4gb_identity_witness:
  "\<exists>c k. paging_new_4gb 3 (kheap_init machine4) = Some (c, k) \<and> paging_get (mem k) (load32 (mem k) c) 0x12345000 = 0x12345003"
proof -
  have r: "1026 \<le> kroom (kheap_init machine4)" by (simp add: booted_machine)
  have al: "page_al 0x12345000" by (simp add: page_al_def)
  obtain c k where k: "paging_new_4gb 3 (kheap_init machine4) = Some (c, k)"
    "\<forall>v. page_al v \<longrightarrow> paging_get (mem k) (load32 (mem k) c) v = v OR ucast (3 :: u8)"
    using paging_new_4gb_identity [OF booted_machine(1) r, of 3] by blast
  from k(2) al have "paging_get (mem k) (load32 (mem k) c) 0x12345000 = 0x12345003" by simp
  with k(1) show ?thesis by blast
qed

theorem paging_free_new_witness:
  "\<exists>c k. paging_new_4gb 3 (kheap_init machine4) = Some (c, k) \<and>
     kernel_heap (paging_free_4gb c (k\<lparr>mem := mem k\<rparr>)) = kernel_heap (kheap_init machine4)"
proof -
  have r: "1026 \<le> kroom (kheap_init machine4)" by (simp add: booted_machine)
  obtain c k where b: "paging_new_4gb 3 (kheap_init machine4) = Some (c, k)" "owns_chunk k c" "chunk_ok (mem k) c"
    "tables_ok (mem k) (load32 (mem k) c)"
    "\<And>v. page_al v \<Longrightarrow> paging_get (mem k) (load32 (mem k) c) v = v OR 3" by (rule booted_chunk) (rule that)
  note k = b(1)
  have "tables_frame (load32 (mem k) c) (mem k) (mem k)" by (simp add: tables_frame_def)
  from paging_free_new [OF booted_machine(1) r k this] k show ?thesis by blast
qed

end
