(* ===== verification/Disk.thy ===== *)
theory Disk
  imports Paging
begin

text \<open>
  The disk driver of \<^verbatim>\<open>src/disk/disk.c\<close>, on the port routines of \<^verbatim>\<open>src/io/io.asm\<close>.

  The devices behind the ports are not part of the program. They are two functions \<open>dev_b\<close> and
  \<open>dev_w\<close> in the state that answer a port read from the history of all port accesses, which the
  state records. What the driver relies on is the hypothesis \<open>ata_holds\<close>: after the commands of a
  sector read, the status port announces data within a bounded number of polls and the data port
  delivers the words of the disk image in order. \<open>struct disk\<close> lies in raw memory at the address
  \<open>addr_disk\<close> the linker gave it.
\<close>

section \<open>Ports\<close>

datatype io_event = Outb u16 u8 | Insb u16 | Insw u16

record io_machine = paging_machine +
  io_log :: "io_event list"
  dev_b :: "io_event list \<Rightarrow> u16 \<Rightarrow> u8"
  dev_w :: "io_event list \<Rightarrow> u16 \<Rightarrow> u16"
  addr_disk :: u32

definition outb :: "u16 \<Rightarrow> u8 \<Rightarrow> 'a io_machine_scheme \<Rightarrow> 'a io_machine_scheme" where
  "outb port val k = k\<lparr>io_log := io_log k @ [Outb port val]\<rparr>"

definition insb :: "u16 \<Rightarrow> 'a io_machine_scheme \<Rightarrow> u8 \<times> 'a io_machine_scheme" where
  "insb port k = (dev_b k (io_log k) port, k\<lparr>io_log := io_log k @ [Insb port]\<rparr>)"

definition insw :: "u16 \<Rightarrow> 'a io_machine_scheme \<Rightarrow> u16 \<times> 'a io_machine_scheme" where
  "insw port k = (dev_w k (io_log k) port, k\<lparr>io_log := io_log k @ [Insw port]\<rparr>)"

section \<open>The code\<close>

abbreviation (input) PEACHOS_SECTOR_SIZE :: u32 where "PEACHOS_SECTOR_SIZE \<equiv> 512"
abbreviation (input) PEACHOS_DISK_TYPE_REAL :: u32 where "PEACHOS_DISK_TYPE_REAL \<equiv> 0"

definition disk_type :: "mem \<Rightarrow> u32 \<Rightarrow> u32" where "disk_type m d = load32 m d"
definition disk_sector_size :: "mem \<Rightarrow> u32 \<Rightarrow> u32" where "disk_sector_size m d = load32 m (d + 4)"
definition disk_id :: "mem \<Rightarrow> u32 \<Rightarrow> u32" where "disk_id m d = load32 m (d + 8)"
definition disk_filesystem :: "mem \<Rightarrow> u32 \<Rightarrow> u32" where "disk_filesystem m d = load32 m (d + 12)"
definition disk_fs_private :: "mem \<Rightarrow> u32 \<Rightarrow> u32" where "disk_fs_private m d = load32 m (d + 16)"

text \<open>The polling loop ends only when the device sets bit 3.\<close>

partial_function (option) ata_wait :: "'a io_machine_scheme \<Rightarrow> 'a io_machine_scheme option" where
  "ata_wait k = (let (c, k) = insb 0x1F7 k in if c AND 0x08 = 0 then ata_wait k else Some k)"

fun read_words :: "nat \<Rightarrow> 'a io_machine_scheme \<Rightarrow> u16 list \<times> 'a io_machine_scheme" where
  "read_words 0 k = ([], k)"
| "read_words (Suc n) k = (let (w, k) = insw 0x1F0 k; (ws, k) = read_words n k in (w # ws, k))"

fun read_sectors :: "nat \<Rightarrow> 'a io_machine_scheme \<Rightarrow> (u16 list \<times> 'a io_machine_scheme) option" where
  "read_sectors 0 k = Some ([], k)"
| "read_sectors (Suc n) k = do {
     k \<leftarrow> ata_wait k;
     let (ws, k) = read_words 256 k;
     (vs, k) \<leftarrow> read_sectors n k;
     Some (ws @ vs, k)
   }"

definition word_bytes :: "u16 list \<Rightarrow> u8 list" where
  "word_bytes ws = concat (map (\<lambda>w. [ucast w, ucast (drop_bit 8 w)]) ws)"

text \<open>The caller's buffer is a local array: the bytes stored through \<open>buf\<close> are returned.\<close>

definition disk_read_sector ::
  "u32 \<Rightarrow> u32 \<Rightarrow> 'a io_machine_scheme \<Rightarrow> (int \<times> u8 list \<times> 'a io_machine_scheme) option" where
  "disk_read_sector lba tot k =
     (let k = outb 0x1F6 (ucast (drop_bit 24 lba OR 0xE0)) k;
          k = outb 0x1F2 (ucast tot) k;
          k = outb 0x1F3 (ucast (lba AND 0xFF)) k;
          k = outb 0x1F4 (ucast (drop_bit 8 lba)) k;
          k = outb 0x1F5 (ucast (drop_bit 16 lba)) k;
          k = outb 0x1F7 0x20 k
      in do {
        (ws, k) \<leftarrow> read_sectors (nat (sint tot)) k;
        Some (0, word_bytes ws, k)
      })"

definition disk_get :: "u32 \<Rightarrow> 'a io_machine_scheme \<Rightarrow> u32" where
  "disk_get index k = (if index \<noteq> 0 then 0 else addr_disk k)"

definition disk_read_block ::
  "u32 \<Rightarrow> u32 \<Rightarrow> u32 \<Rightarrow> 'a io_machine_scheme \<Rightarrow> (int \<times> u8 list \<times> 'a io_machine_scheme) option" where
  "disk_read_block idisk lba tot k =
     (if idisk \<noteq> addr_disk k then Some (- EIO, [], k) else disk_read_sector lba tot k)"

section \<open>The drive behind the ports\<close>

definition ata_command :: "u32 \<Rightarrow> io_event list" where
  "ata_command lba = [Outb 0x1F6 (ucast (drop_bit 24 lba OR 0xE0)), Outb 0x1F2 1, Outb 0x1F3 (ucast (lba AND 0xFF)),
     Outb 0x1F4 (ucast (drop_bit 8 lba)), Outb 0x1F5 (ucast (drop_bit 16 lba)), Outb 0x1F7 0x20]"

definition image_word :: "(nat \<Rightarrow> u8) \<Rightarrow> nat \<Rightarrow> u16" where
  "image_word img p = ucast (img p) OR push_bit 8 (ucast (img (p + 1)))"

text \<open>What the ATA protocol promises for a read of one sector: a host that polls the status after the command
  sees the data request bit at last, and after the poll that saw it the data port delivers the 256 words of the
  sector. Nothing is said about the data port before, or when the host does anything else.\<close>

definition status_polls :: "nat \<Rightarrow> io_event list" where
  "status_polls n = replicate n (Insb 0x1F7)"

definition data_reads :: "nat \<Rightarrow> io_event list" where
  "data_reads n = replicate n (Insw 0x1F0)"

definition data_request :: "'a io_machine_scheme \<Rightarrow> io_event list \<Rightarrow> bool" where
  "data_request k h \<longleftrightarrow> dev_b k h 0x1F7 AND 0x08 \<noteq> 0"

definition ata_holds :: "'a io_machine_scheme \<Rightarrow> (nat \<Rightarrow> u8) \<Rightarrow> bool" where
  "ata_holds k img \<longleftrightarrow> (\<forall>h lba. unat lba < 268435456 \<longrightarrow> (\<exists>j. data_request k (h @ ata_command lba @ status_polls j)) \<and>
     (\<forall>j n. data_request k (h @ ata_command lba @ status_polls j) \<longrightarrow> n < 256 \<longrightarrow>
        dev_w k (h @ ata_command lba @ status_polls (Suc j) @ data_reads n) 0x1F0 = image_word img (512 * unat lba + 2 * n)))"

text \<open>Only the history of port accesses has grown.\<close>

definition io_only :: "'a io_machine_scheme \<Rightarrow> 'a io_machine_scheme \<Rightarrow> bool" where
  "io_only k k' \<longleftrightarrow> (\<exists>l. k' = k\<lparr>io_log := l\<rparr>)"

lemma ata_holds_cong: "dev_b k' = dev_b k \<Longrightarrow> dev_w k' = dev_w k \<Longrightarrow> ata_holds k' img = ata_holds k img"
  by (simp add: ata_holds_def data_request_def)

lemma ata_holds_log [simp]: "ata_holds (k\<lparr>io_log := l\<rparr>) img = ata_holds k img"
  by (rule ata_holds_cong) simp_all

lemma ata_holds_mem [simp]: "ata_holds (k\<lparr>mem := m\<rparr>) img = ata_holds k img"
  by (rule ata_holds_cong) simp_all

lemma status_polls_Suc: "status_polls i @ [Insb 0x1F7] = status_polls (Suc i)"
  by (simp add: status_polls_def replicate_append_same)

lemma data_reads_Suc: "data_reads i @ [Insw 0x1F0] = data_reads (Suc i)"
  by (simp add: data_reads_def replicate_append_same)

text \<open>Waiting ends with a poll that saw the bit.\<close>

lemma ata_wait_polls:
  assumes "data_request k (h @ status_polls j)" "io_log k = h @ status_polls i" "i \<le> j"
  shows "\<exists>j'. data_request k (h @ status_polls j') \<and> ata_wait k = Some (k\<lparr>io_log := h @ status_polls (Suc j')\<rparr>)"
  using assms
proof (induction "j - i" arbitrary: k i)
  case 0
  then show ?case
    by (intro exI [of _ i]) (subst ata_wait.simps, simp add: insb_def data_request_def flip: status_polls_Suc)
next
  case (Suc n)
  show ?case
  proof (cases "data_request k (h @ status_polls i)")
    case True
    then show ?thesis using Suc.prems(2)
      by (intro exI [of _ i]) (subst ata_wait.simps, simp add: insb_def data_request_def flip: status_polls_Suc)
  next
    case False
    let ?k = "k\<lparr>io_log := h @ status_polls (Suc i)\<rparr>"
    have "n = j - Suc i" "data_request ?k (h @ status_polls j)" "io_log ?k = h @ status_polls (Suc i)" "Suc i \<le> j"
      using Suc.hyps(2) Suc.prems by (simp_all add: data_request_def)
    from Suc.hyps(1) [OF this] obtain j' where "data_request k (h @ status_polls j')"
      "ata_wait ?k = Some (k\<lparr>io_log := h @ status_polls (Suc j')\<rparr>)" by (auto simp: data_request_def)
    moreover have "ata_wait k = ata_wait ?k"
      using False Suc.prems(2) by (subst ata_wait.simps) (simp add: insb_def data_request_def flip: status_polls_Suc)
    ultimately show ?thesis by auto
  qed
qed

lemma read_words_image:
  assumes "\<And>n. n < 256 \<Longrightarrow> dev_w k (h @ data_reads n) 0x1F0 = image_word img (b + 2 * n)"
    and "io_log k = h @ data_reads i" "i + n \<le> 256"
  shows "\<exists>l. read_words n k = (map (\<lambda>j. image_word img (b + 2 * (i + j))) [0..<n], k\<lparr>io_log := l\<rparr>)"
  using assms
proof (induction n arbitrary: k i)
  case 0
  then show ?case by (intro exI [of _ "io_log k"]) simp
next
  case (Suc n)
  let ?k = "k\<lparr>io_log := h @ data_reads (Suc i)\<rparr>"
  have "\<exists>l. read_words n ?k = (map (\<lambda>j. image_word img (b + 2 * (Suc i + j))) [0..<n], ?k\<lparr>io_log := l\<rparr>)"
    using Suc.prems by (intro Suc.IH) simp_all
  moreover have "map (\<lambda>j. image_word img (b + 2 * (i + j))) [0..<Suc n] =
      image_word img (b + 2 * i) # map (\<lambda>j. image_word img (b + 2 * (Suc i + j))) [0..<n]"
    by (simp add: upt_conv_Cons map_Suc_upt [symmetric] comp_def del: upt_Suc)
  ultimately show ?case
    using Suc.prems by (auto simp: insw_def data_reads_Suc)
qed

lemma image_word_bytes:
  "ucast (image_word img p) = img p" "ucast (drop_bit 8 (image_word img p)) = img (p + 1)"
  by (rule bit_word_eqI; auto simp: image_word_def bit_simps dest: bit_imp_le_length)+

lemma word_bytes_image:
  "word_bytes (map (\<lambda>i. image_word img (b + 2 * i)) [0..<n]) = map img [b..<b + 2 * n]"
  by (induction n) (simp_all add: word_bytes_def image_word_bytes)

lemma disk_read_sector_image:
  assumes ata: "ata_holds k img" and lba: "unat lba < 268435456"
  shows "\<exists>l. disk_read_sector lba 1 k = Some (0, map img [512 * unat lba..<512 * unat lba + 512], k\<lparr>io_log := l\<rparr>)"
proof -
  let ?h = "io_log k @ ata_command lba"
  let ?k = "k\<lparr>io_log := ?h\<rparr>"
  note at = ata [unfolded ata_holds_def, rule_format, OF lba, of "io_log k"]
  obtain j where "data_request ?k (?h @ status_polls j)" using conjunct1 [OF at] by (auto simp: data_request_def)
  moreover have "io_log ?k = ?h @ status_polls 0" by (simp add: status_polls_def)
  ultimately obtain j' where j': "data_request ?k (?h @ status_polls j')" "ata_wait ?k = Some (k\<lparr>io_log := ?h @ status_polls (Suc j')\<rparr>)"
    using ata_wait_polls [of ?k ?h j 0] by auto
  let ?k1 = "k\<lparr>io_log := ?h @ status_polls (Suc j')\<rparr>"
  have "dev_w ?k1 ((?h @ status_polls (Suc j')) @ data_reads n) 0x1F0 = image_word img (512 * unat lba + 2 * n)" if "n < 256" for n
    using conjunct2 [OF at, rule_format, of j' n] j'(1) that by (simp add: data_request_def)
  then have "\<exists>l. read_words 256 ?k1 = (map (\<lambda>i. image_word img (512 * unat lba + 2 * (0 + i))) [0..<256], ?k1\<lparr>io_log := l\<rparr>)"
    by (intro read_words_image [of ?k1 "?h @ status_polls (Suc j')"]) (simp_all add: data_reads_def)
  then obtain l where l: "read_words 256 ?k1 = (map (\<lambda>i. image_word img (512 * unat lba + 2 * i)) [0..<256], k\<lparr>io_log := l\<rparr>)" by auto
  have "disk_read_sector lba 1 k = do { (ws, k) \<leftarrow> read_sectors (Suc 0) ?k; Some (0, word_bytes ws, k) }"
    by (simp add: disk_read_sector_def outb_def ata_command_def)
  also have "\<dots> = Some (0, map img [512 * unat lba..<512 * unat lba + 512], k\<lparr>io_log := l\<rparr>)"
    using j'(2) l word_bytes_image [of img "512 * unat lba" 256] by simp
  finally show ?thesis by blast
qed

section \<open>A drive\<close>

text \<open>A drive that is busy for two polls after each command and then delivers an image; its data port is 0 until a
  poll has seen the data request bit. The number of the sector is in the last command.\<close>

fun out_byte :: "io_event \<Rightarrow> u8" where
  "out_byte (Outb p b) = b"
| "out_byte _ = 0"

definition command_lba :: "u8 list \<Rightarrow> nat" where
  "command_lba bs = unat (bs ! 3) + 256 * unat (bs ! 2) + 65536 * unat (bs ! 1) + 16777216 * (unat (bs ! 5) mod 16)"

definition drive_byte :: "io_event list \<Rightarrow> u16 \<Rightarrow> u8" where
  "drive_byte h port = (if 2 \<le> length (takeWhile (\<lambda>e. e = Insb 0x1F7) (rev h)) then 0x08 else 0x80)"

definition drive_word :: "(nat \<Rightarrow> u8) \<Rightarrow> io_event list \<Rightarrow> u16 \<Rightarrow> u16" where
  "drive_word img h port =
     (let r = dropWhile (\<lambda>e. e = Insw 0x1F0) (rev h); c = dropWhile (\<lambda>e. e = Insb 0x1F7) r
      in if 3 \<le> length (takeWhile (\<lambda>e. e = Insb 0x1F7) r)
         then image_word img (512 * command_lba (map out_byte c) + 2 * length (takeWhile (\<lambda>e. e = Insw 0x1F0) (rev h)))
         else 0)"

lemma command_lba_eq:
  fixes lba :: u32
  assumes "unat lba < 268435456"
  shows "unat (ucast (lba AND 0xFF) :: u8) + 256 * unat (ucast (drop_bit 8 lba) :: u8) + 65536 * unat (ucast (drop_bit 16 lba) :: u8) +
    16777216 * (unat (ucast (drop_bit 24 lba OR 0xE0) :: u8) mod 16) = unat lba"
proof -
  have b: "unat (ucast x :: u8) = unat x mod 256" for x :: u32 by (simp add: unsigned_ucast_eq take_bit_eq_mod)
  have p4: "(2 :: nat) ^ 4 = 16" by simp
  have low: "\<not> bit (0xE0 :: u32) n" if "n < 4" for n
  proof -
    have "n = 0 \<or> n = 1 \<or> n = 2 \<or> n = 3" using that by linarith
    then show ?thesis by (auto simp: bit_numeral_rec)
  qed
  have "take_bit 4 (ucast (drop_bit 24 lba OR 0xE0) :: u8) = take_bit 4 (ucast (drop_bit 24 lba))"
    by (rule bit_word_eqI) (simp only: bit_simps, use low in blast)
  then have "unat (take_bit 4 (ucast (drop_bit 24 lba OR 0xE0) :: u8)) = unat (take_bit 4 (ucast (drop_bit 24 lba) :: u8))" by simp
  then have o: "unat (ucast (drop_bit 24 lba OR 0xE0) :: u8) mod 16 = unat (ucast (drop_bit 24 lba) :: u8) mod 16"
    unfolding unsigned_take_bit_eq by (simp only: take_bit_eq_mod p4)
  have d: "unat (drop_bit j lba) = unat lba div 2 ^ j" for j
    unfolding unsigned_drop_bit_eq using unat_u32_lt [of lba] by (simp add: drop_bit_eq_div take_bit_nat_eq_self)
  have e: "(0xFF :: u32) = mask 8" by (simp add: mask_eq_exp_minus_1)
  have f: "ucast (lba AND 0xFF) = (ucast lba :: u8)"
    unfolding e by (rule bit_word_eqI) (simp add: bit_simps)
  define x q1 q2 q3 where "x = unat lba" and "q1 = x div 256" and "q2 = q1 div 256" and "q3 = q2 div 256"
  have q: "x div 2 ^ 8 = q1" "x div 2 ^ 16 = q2" "x div 2 ^ 24 = q3"
    using div_mult2_eq [of x 256 256] div_mult2_eq [of x 65536 256] by (simp_all add: q1_def q2_def q3_def)
  have "q3 < 16" using assms less_mult_imp_div_less [of x 16 16777216] q(3) by (simp add: x_def)
  moreover have "x = 256 * q1 + x mod 256" "q1 = 256 * q2 + q1 mod 256" "q2 = 256 * q3 + q2 mod 256"
    by (simp_all add: q1_def q2_def q3_def)
  ultimately show ?thesis unfolding o unfolding f b d x_def [symmetric] q by simp
qed

lemma while_replicate:
  assumes "ys = [] \<or> hd ys \<noteq> x"
  shows "takeWhile (\<lambda>e. e = x) (replicate n x @ ys) = replicate n x" "dropWhile (\<lambda>e. e = x) (replicate n x @ ys) = ys"
  using assms by (induction n; cases ys; simp)+

lemma drive_holds:
  fixes k :: "'a io_machine_scheme"
  assumes "dev_w k = drive_word img" "dev_b k = drive_byte"
  shows "ata_holds k img"
proof -
  have p: "rev (h @ ata_command lba @ status_polls j) = replicate j (Insb 0x1F7) @ rev (ata_command lba) @ rev h" for h lba j
    by (simp add: status_polls_def)
  have c: "hd (rev (ata_command lba) @ rev h) = Outb 0x1F7 0x20" for h lba by (simp add: ata_command_def)
  have dr: "data_request k (h @ ata_command lba @ status_polls j) \<longleftrightarrow> 2 \<le> j" for h lba j
  proof -
    have "takeWhile (\<lambda>e. e = Insb 0x1F7) (rev (h @ ata_command lba @ status_polls j)) = replicate j (Insb 0x1F7)"
      unfolding p by (rule while_replicate) (simp add: c)
    then show ?thesis by (simp add: data_request_def assms drive_byte_def)
  qed
  have "drive_word img (h @ ata_command lba @ status_polls (Suc j) @ data_reads n) 0x1F0 = image_word img (512 * unat lba + 2 * n)"
    if "unat lba < 268435456" "2 \<le> j" for h lba j n
  proof -
    let ?r = "replicate (Suc j) (Insb 0x1F7) @ rev (ata_command lba) @ rev h"
    have r: "rev (h @ ata_command lba @ status_polls (Suc j) @ data_reads n) = replicate n (Insw 0x1F0) @ ?r"
      using p [of h lba "Suc j"] by (simp add: data_reads_def)
    have n1: "?r = [] \<or> hd ?r \<noteq> Insw 0x1F0" by simp
    have n2: "rev (ata_command lba) @ rev h = [] \<or> hd (rev (ata_command lba) @ rev h) \<noteq> Insb 0x1F7" by (simp add: c)
    have l: "command_lba (map out_byte (rev (ata_command lba) @ rev h)) = unat lba"
      using command_lba_eq [OF that(1)] by (simp add: command_lba_def ata_command_def)
    show ?thesis unfolding drive_word_def r while_replicate [OF n1] while_replicate [OF n2] Let_def l using that(2) by simp
  qed
  then show ?thesis using assms(1) dr by (auto simp: ata_holds_def)
qed

end
