(* ===== verification/Streamer.thy ===== *)
theory Streamer
  imports Disk
begin

text \<open>
  The disk stream of \<^verbatim>\<open>src/disk/streamer.c\<close>: a byte position on a disk, from which reads of any
  length are served sector by sector. The C code reads a stream as a sequence of recursive calls;
  \<open>diskstreamer_read\<close> keeps that recursion. The local sector buffer is a list, and an access outside
  it (a negative position) is the outcome \<open>None\<close>.
\<close>

section \<open>The code\<close>

definition stream_pos :: "mem \<Rightarrow> u32 \<Rightarrow> int" where "stream_pos m s = sint (load32 m s)"
definition stream_disk :: "mem \<Rightarrow> u32 \<Rightarrow> u32" where "stream_disk m s = load32 m (s + 4)"

definition diskstreamer_new :: "u32 \<Rightarrow> 'a io_machine_scheme \<Rightarrow> (u32 \<times> 'a io_machine_scheme) option" where
  "diskstreamer_new index k =
     (let disk = disk_get index k
      in if disk = 0 then Some (0, k)
         else do {
           (streamer, k) \<leftarrow> kzalloc 8 k;
           if streamer = 0 then Some (0, k)
           else let m = store32 (mem k) streamer 0;
                    m = store32 m (streamer + 4) disk
                in Some (streamer, k\<lparr>mem := m\<rparr>)
         })"

definition diskstreamer_seek :: "u32 \<Rightarrow> int \<Rightarrow> 'a io_machine_scheme \<Rightarrow> int \<times> 'a io_machine_scheme" where
  "diskstreamer_seek stream pos k = (0, k\<lparr>mem := store32 (mem k) stream (word_of_int pos)\<rparr>)"

fun copy_out :: "u32 \<Rightarrow> u8 list \<Rightarrow> mem \<Rightarrow> mem" where
  "copy_out p [] m = m"
| "copy_out p (x # xs) m = copy_out (p + 1) xs (m(p := x))"

partial_function (option) diskstreamer_read ::
  "u32 \<Rightarrow> u32 \<Rightarrow> int \<Rightarrow> 'a io_machine_scheme \<Rightarrow> (int \<times> 'a io_machine_scheme) option" where
  "diskstreamer_read stream out tot k =
     (let sector = stream_pos (mem k) stream sdiv 512;
          offset = stream_pos (mem k) stream smod 512;
          overflow = (offset + tot \<ge> 512);
          total_to_read = (if overflow then 512 - offset else tot)
      in do {
        (res, buf, k) \<leftarrow> disk_read_block (stream_disk (mem k) stream) (word_of_int sector) 1 k;
        if res < 0 then Some (res, k)
        else if 0 < total_to_read \<and> (offset < 0 \<or> int (length buf) < offset + total_to_read) then None
        else let bytes = take (nat total_to_read) (drop (nat offset) buf);
                 m = copy_out out bytes (mem k);
                 out = out + word_of_int (int (nat total_to_read));
                 m = store32 m stream (word_of_int (stream_pos m stream + total_to_read));
                 k = k\<lparr>mem := m\<rparr>
             in if overflow then diskstreamer_read stream out (tot - total_to_read) k else Some (res, k)
      })"

definition diskstreamer_close :: "u32 \<Rightarrow> 'a io_machine_scheme \<Rightarrow> 'a io_machine_scheme" where
  "diskstreamer_close stream k = kfree stream k"

section \<open>Copying\<close>

lemma copy_out_eq:
  "length xs < 4294967296 \<Longrightarrow>
   copy_out p xs m = (\<lambda>a. if unat (a - p) < length xs then xs ! unat (a - p) else m a)"
proof (induction xs arbitrary: p m)
  case (Cons x xs)
  show ?case
  proof
    fix a
    show "copy_out p (x # xs) m a = (if unat (a - p) < length (x # xs) then (x # xs) ! unat (a - p) else m a)"
    proof (cases "a = p")
      case True
      have "\<not> unat (p - (p + 1)) < length xs" using Cons.prems unfolding unat_pred_self by simp
      then show ?thesis using Cons True by simp
    next
      case False
      then show ?thesis using Cons unat_diff_one [OF False] by simp
    qed
  qed
qed simp

lemma store32_cong:
  assumes "aligned4 s" "\<And>a. \<not> in_range a s 4 \<Longrightarrow> f a = g a"
  shows "store32 f s v = store32 g s v"
proof
  fix a
  show "store32 f s v a = store32 g s v a"
  proof (cases "in_range a s 4")
    case True
    then have "unat a = unat s \<or> unat a = unat (s + 1) \<or> unat a = unat (s + 2) \<or> unat a = unat (s + 3)"
      using aligned4_bytes [OF assms(1)] by (auto simp: in_range_def)
    then have "a = s \<or> a = s + 1 \<or> a = s + 2 \<or> a = s + 3" by (simp add: word_unat_eq_iff)
    then show ?thesis by (auto simp: store32_def)
  next
    case False
    then show ?thesis using assms by (simp add: store32_frame)
  qed
qed

section \<open>What a read delivers\<close>

definition stream_at :: "'a io_machine_scheme \<Rightarrow> u32 \<Rightarrow> nat \<Rightarrow> bool" where
  "stream_at k s p \<longleftrightarrow> aligned4 s \<and> unat s + 8 \<le> 4294967296 \<and> stream_pos (mem k) s = int p \<and>
     stream_disk (mem k) s = addr_disk k"

lemma stream_addr:
  assumes "stream_at k s p"
  shows "aligned4 s" "unat (s + 4) = unat s + 4" "aligned4 (s + 4)" "s \<noteq> s + 4"
proof -
  show "aligned4 s" using assms by (simp add: stream_at_def)
  show u: "unat (s + 4) = unat s + 4" using assms by (simp add: stream_at_def unat_word_ariths)
  then show "s \<noteq> s + 4" by auto
  show "aligned4 (s + 4)" using assms u by (simp add: stream_at_def aligned4_def)
qed

definition image_at :: "u32 \<Rightarrow> nat \<Rightarrow> (nat \<Rightarrow> u8) \<Rightarrow> nat \<Rightarrow> mem \<Rightarrow> mem" where
  "image_at out n img p m = (\<lambda>a. if unat (a - out) < n then img (p + unat (a - out)) else m a)"

lemma image_at_append:
  assumes "n + n' < 4294967296"
  shows "image_at (out + of_nat n) n' img (p + n) (image_at out n img p m) = image_at out (n + n') img p m"
proof
  fix a
  have u: "unat (of_nat n :: u32) = n" using assms by (intro unat_of_nat_u32) linarith
  have e: "a - (out + of_nat n) = (a - out) - of_nat n" by simp
  show "image_at (out + of_nat n) n' img (p + n) (image_at out n img p m) a = image_at out (n + n') img p m a"
  proof (cases "unat (a - out) < n")
    case True
    then have "unat (a - out - of_nat n) = unat (a - out) + 4294967296 - n"
      using unat_sub_if' [of "a - out" "of_nat n"] u by simp
    then have "\<not> unat (a - out - of_nat n) < n'" using assms by linarith
    then show ?thesis using True by (simp only: image_at_def e) simp
  next
    case False
    then have "unat (a - out - of_nat n) = unat (a - out) - n"
      by (subst unat_sub) (simp_all add: word_le_unat u)
    then show ?thesis using False by (simp only: image_at_def e) auto
  qed
qed

lemma diskstreamer_read_step:
  assumes ata: "ata_holds k img" and s: "stream_at k s p" and small: "p + n < 2147483136"
    and apart: "\<And>a. unat (a - out) < n \<Longrightarrow> \<not> in_range a s 8"
    and c: "c = (if p mod 512 + n \<ge> 512 then 512 - p mod 512 else n)"
  shows "\<exists>l. diskstreamer_read s out (int n) k =
    (let k1 = k\<lparr>io_log := l, mem := store32 (image_at out c img p (mem k)) s (word_of_int (int (p + c)))\<rparr>
     in if p mod 512 + n \<ge> 512 then diskstreamer_read s (out + of_nat c) (int (n - c)) k1 else Some (0, k1))"
proof -
  have cn: "c \<le> n" and cb: "p mod 512 + c \<le> 512" using c by (auto split: if_splits)
  have pos: "stream_pos (mem k) s sdiv 512 = int (p div 512)" "stream_pos (mem k) s smod 512 = int (p mod 512)"
    using s sdiv_nat [of p 512] smod_nat [of p 512] by (simp_all add: stream_at_def)
  have dl: "p div 512 < 8388608" using small by (simp add: less_mult_imp_div_less)
  then have lba: "unat (word_of_int (int (p div 512)) :: u32) = p div 512"
    using unat_of_nat_u32 [of "p div 512"] by simp
  then have "unat (word_of_int (int (p div 512)) :: u32) < 268435456" using dl by linarith
  from disk_read_sector_image [OF ata this] obtain l where
    l: "disk_read_sector (word_of_int (int (p div 512))) 1 k =
      Some (0, map img [512 * (p div 512)..<512 * (p div 512) + 512], k\<lparr>io_log := l\<rparr>)"
    unfolding lba by blast
  let ?buf = "map img [512 * (p div 512)..<512 * (p div 512) + 512]"
  let ?k = "k\<lparr>io_log := l\<rparr>"
  have ttr: "(if p mod 512 + n \<ge> 512 then 512 - int (p mod 512) else int n) = int c"
    using c by (auto simp: of_nat_diff)
  have ov: "int (p mod 512) + int n \<ge> 512 \<longleftrightarrow> p mod 512 + n \<ge> 512" by linarith
  have bytes: "take c (drop (p mod 512) ?buf) = map (\<lambda>i. img (p + i)) [0..<c]"
  proof (rule nth_equalityI)
    show "length (take c (drop (p mod 512) ?buf)) = length (map (\<lambda>i. img (p + i)) [0..<c])" using cb by simp
    fix i assume "i < length (take c (drop (p mod 512) ?buf))"
    then have i: "i < c" using cb by simp
    have lt: "512 * (p div 512) + (p mod 512 + i) < 512 * (p div 512) + 512" using i cb by linarith
    have "[512 * (p div 512)..<512 * (p div 512) + 512] ! (p mod 512 + i) = 512 * (p div 512) + (p mod 512 + i)"
      using lt by (rule nth_upt)
    also have "\<dots> = p + i" by simp
    finally show "take c (drop (p mod 512) ?buf) ! i = map (\<lambda>i. img (p + i)) [0..<c] ! i"
      using i cb by simp
  qed
  have copy: "copy_out out (map (\<lambda>i. img (p + i)) [0..<c]) (mem k) = image_at out c img p (mem k)"
    using small cn by (subst copy_out_eq) (auto simp: image_at_def)
  have posm: "stream_pos (image_at out c img p (mem k)) s = int p"
  proof -
    have "image_at out c img p (mem k) (s + of_nat j) = mem k (s + of_nat j)" if "j < 4" for j
    proof -
      have "unat (s + of_nat j) = unat s + j" using s that by (intro aligned4_unat) (simp_all add: stream_at_def)
      then have "in_range (s + of_nat j) s 8" using that by (simp add: in_range_def)
      then have "\<not> unat (s + of_nat j - out) < n" using apart by blast
      then show ?thesis using cn by (simp add: image_at_def del: add_diff_eq)
    qed
    note b = this [of 0] this [of 1] this [of 2] this [of 3]
    have "load32 (image_at out c img p (mem k)) s = load32 (mem k) s" using b by (intro load32_cong) simp_all
    then show ?thesis using s by (simp add: stream_at_def stream_pos_def)
  qed
  have inside: "\<not> (0 < int c \<and> (int (p mod 512) < 0 \<or> int (length ?buf) < int (p mod 512) + int c))"
    using cb by auto
  have read: "disk_read_block (stream_disk (mem k) s) (word_of_int (int (p div 512))) 1 k = Some (0, ?buf, ?k)"
    using s l by (simp add: disk_read_block_def stream_at_def)
  have memk: "mem ?k = mem k" by simp
  have sub: "int n - int c = int (n - c)" using cn by simp
  have "diskstreamer_read s out (int n) k =
    (let k1 = ?k\<lparr>mem := store32 (image_at out c img p (mem k)) s (word_of_int (int (p + c)))\<rparr>
     in if p mod 512 + n \<ge> 512 then diskstreamer_read s (out + of_nat c) (int (n - c)) k1 else Some (0, k1))"
    by (subst diskstreamer_read.simps)
      (simp only: Let_def pos ttr ov read Option.bind.bind_lunit prod.case less_irrefl if_False inside nat_int bytes
        memk copy posm sub, simp)
  then show ?thesis by blast 
qed

lemma stream_at_moved:
  assumes "stream_at k s p" "p' < 2147483648" "\<And>a. in_range a s 8 \<Longrightarrow> f a = mem k a"
  shows "stream_at (k\<lparr>io_log := l, mem := store32 f s (word_of_int (int p'))\<rparr>) s p'"
proof -
  note al = stream_addr [OF assms(1)]
  have "load32 f (s + 4) = load32 (mem k) (s + 4)"
  proof -
    have "f (s + 4 + of_nat j) = mem k (s + 4 + of_nat j)" if "j < 4" for j
      using aligned4_unat [OF al(3) that] al(2) that by (intro assms(3)) (simp add: in_range_def)
    from this [of 0] this [of 1] this [of 2] this [of 3] show ?thesis by (intro load32_cong) simp_all
  qed
  then show ?thesis
    using assms(1,2) al
    by (simp add: stream_at_def stream_pos_def stream_disk_def sint_small_int load32_store32_other del: of_int_of_nat_eq)
qed

lemma diskstreamer_read_image:
  assumes "ata_holds k img" and "stream_at k s p" and "p + n < 2147483136"
    and "\<And>a. unat (a - out) < n \<Longrightarrow> \<not> in_range a s 8"
  shows "\<exists>l. diskstreamer_read s out (int n) k =
    Some (0, k\<lparr>io_log := l, mem := store32 (image_at out n img p (mem k)) s (word_of_int (int (p + n)))\<rparr>)"
  using assms
proof (induction n arbitrary: k p out rule: less_induct)
  case (less n)
  define c where "c = (if p mod 512 + n \<ge> 512 then 512 - p mod 512 else n)"
  from diskstreamer_read_step [OF less.prems c_def] obtain l where l: "diskstreamer_read s out (int n) k =
    (let k1 = k\<lparr>io_log := l, mem := store32 (image_at out c img p (mem k)) s (word_of_int (int (p + c)))\<rparr>
     in if p mod 512 + n \<ge> 512 then diskstreamer_read s (out + of_nat c) (int (n - c)) k1 else Some (0, k1))" by blast
  show ?case
  proof (cases "p mod 512 + n \<ge> 512")
    case False
    with l show ?thesis by (auto simp: c_def Let_def)
  next
    case True
    have pm: "p mod 512 < 512" by simp
    then have c: "0 < c" "c \<le> n" using True by (auto simp: c_def)
    let ?M = "image_at out c img p (mem k)"
    let ?k = "k\<lparr>io_log := l, mem := store32 ?M s (word_of_int (int (p + c)))\<rparr>"
    have n: "n - c < n" using c by linarith
    have out: "?M a = mem k a" if "in_range a s 8" for a
      using less.prems(4) [of a] that c by (auto simp: image_at_def)
    have st: "stream_at ?k s (p + c)"
      using less.prems(3) c out by (intro stream_at_moved [OF less.prems(2)]) auto
    have small: "n < 4294967296" using less.prems(3) by linarith
    have "unat (of_nat c :: u32) = c" using c small by (intro unat_of_nat_u32) linarith
    then have apart: "\<not> in_range a s 8" if "unat (a - (out + of_nat c)) < n - c" for a
    proof -
      have e: "a - out = (a - (out + of_nat c)) + of_nat c" by simp
      have "unat (a - (out + of_nat c)) + unat (of_nat c :: u32) < 2 ^ LENGTH(32)"
        unfolding \<open>unat (of_nat c :: u32) = c\<close> using that small by simp
      then have "unat (a - out) = unat (a - (out + of_nat c)) + c"
        unfolding e by (simp only: unat_add_small \<open>unat (of_nat c :: u32) = c\<close>)
      then show ?thesis using that by (intro less.prems(4)) linarith
    qed
    obtain l' where l': "diskstreamer_read s (out + of_nat c) (int (n - c)) ?k =
      Some (0, ?k\<lparr>io_log := l', mem := store32 (image_at (out + of_nat c) (n - c) img (p + c) (mem ?k)) s
        (word_of_int (int (p + c + (n - c))))\<rparr>)"
    proof -
      have "ata_holds ?k img" "p + c + (n - c) < 2147483136" using less.prems(1,3) c by simp_all
      from less.IH [OF n this(1) st this(2) apart] that show ?thesis by blast
    qed
    have "store32 (image_at (out + of_nat c) (n - c) img (p + c) (mem ?k)) s v =
        store32 (image_at out n img p (mem k)) s v" for v
    proof -
      have "store32 (image_at (out + of_nat c) (n - c) img (p + c) (mem ?k)) s v =
          store32 (image_at (out + of_nat c) (n - c) img (p + c) ?M) s v"
        by (rule store32_cong) (use stream_addr(1) [OF less.prems(2)] in \<open>auto simp: image_at_def store32_frame\<close>)
      also have "\<dots> = store32 (image_at out n img p (mem k)) s v"
        using image_at_append [of c "n - c" out img p "mem k"] c small by simp
      finally show ?thesis .
    qed
    then show ?thesis using l l' True c by (intro exI [of _ l']) (simp add: Let_def)
  qed
qed

lemma diskstreamer_seek_read_image:
  assumes "ata_holds k img" and "stream_at k s q" and "p + n < 2147483136"
    and "\<And>a. unat (a - out) < n \<Longrightarrow> \<not> in_range a s 8"
  shows "\<exists>l. diskstreamer_read s out (int n) (snd (diskstreamer_seek s (int p) k)) =
    Some (0, k\<lparr>io_log := l, mem := store32 (image_at out n img p (mem k)) s (word_of_int (int (p + n)))\<rparr>)"
proof -
  let ?k = "k\<lparr>mem := store32 (mem k) s (word_of_int (int p))\<rparr>"
  have "p < 2147483648" using assms(3) by linarith
  from stream_at_moved [OF assms(2) this, of "mem k" "io_log k"] have st: "stream_at ?k s p" by simp
  have "ata_holds ?k img" using assms(1) by simp
  from diskstreamer_read_image [OF this st assms(3,4)] obtain l where
    "diskstreamer_read s out (int n) ?k =
      Some (0, ?k\<lparr>io_log := l, mem := store32 (image_at out n img p (mem ?k)) s (word_of_int (int (p + n)))\<rparr>)"
    by blast
  moreover have "store32 (image_at out n img p (mem ?k)) s v = store32 (image_at out n img p (mem k)) s v" for v
    by (rule store32_cong) (use stream_addr(1) [OF assms(2)] in \<open>auto simp: image_at_def store32_frame\<close>)
  ultimately show ?thesis by (auto simp: diskstreamer_seek_def)
qed

lemma diskstreamer_new_at:
  assumes "kwf k" "0 < kroom k" "addr_disk k \<noteq> 0"
  shows "\<exists>s k'. diskstreamer_new 0 k = Some (s, k') \<and> s \<noteq> 0 \<and> grows {} k [s] k' \<and> stream_at k' s 0"
proof -
  obtain s k1 where s: "kzalloc 8 k = Some (s, k1)" "s \<noteq> 0" "grows {} k [s] k1" "\<And>a. in_range a s 8 \<Longrightarrow> mem k1 a = 0"
    using grows_kzalloc [OF assms(1,2), of 8] by auto
  have al: "page_al s" "unat s + 4096 \<le> 2147483648" and far: "\<And>a. kept k a \<Longrightarrow> \<not> in_range a s 4096"
    using grows_page [OF s(3), of s] by auto
  let ?m = "store32 (store32 (mem k1) s 0) (s + 4) (addr_disk k)"
  have a4: "aligned4 s" "aligned4 (s + 4)" "s \<noteq> s + 4"
    using entry_offset(2) [OF al(1), of 0] entry_offset(2) [OF al(1), of 1] by simp_all
  have "grows {} k [s] (k1\<lparr>mem := ?m\<rparr>)"
  proof (rule grows_mem [OF s(3)])
    fix a assume "kept k a"
    then show "?m a = mem k1 a"
      using far store_entry_frame [OF al(1), of 0 a] store_entry_frame [OF al(1), of 1 a] by simp
  qed
  moreover have "addr_disk k1 = addr_disk k" using s(1,2) by (auto simp: kzalloc_Some)
  ultimately show ?thesis
    using s(1,2) al a4 assms(3)
    by (auto simp: diskstreamer_new_def disk_get_def stream_at_def stream_pos_def stream_disk_def load32_store32_other)
qed

section \<open>Properties\<close>

text \<open>C10. Seeking to \<open>p\<close> and reading \<open>n\<close> bytes delivers exactly the bytes \<open>p .. p + n - 1\<close> of the disk,
  across any number of sectors, advances the position by \<open>n\<close>, returns 0, and changes no other
  byte of memory and nothing else but the history of port accesses.\<close>

theorem diskstreamer_read_correct:
  assumes "ata_holds k img" and "stream_at k s q" and "p + n < 2147483136"
    and "\<And>a. unat (a - out) < n \<Longrightarrow> \<not> in_range a s 8"
  shows "\<exists>l. diskstreamer_read s out (int n) (snd (diskstreamer_seek s (int p) k)) =
    Some (0, k\<lparr>io_log := l, mem := store32 (image_at out n img p (mem k)) s (word_of_int (int (p + n)))\<rparr>)"
  using assms by (rule diskstreamer_seek_read_image)

text \<open>C11. The driver's port protocol reads a sector: with a drive that answers as documented, the polling
  ends after the data request bit was seen, the 512 bytes read then are those of the sector addressed, and only the
  history of port accesses changes.\<close>

theorem disk_read_sector_correct:
  assumes "ata_holds k img" and "unat lba < 268435456"
  shows "\<exists>l. disk_read_sector lba 1 k = Some (0, map img [512 * unat lba..<512 * unat lba + 512], k\<lparr>io_log := l\<rparr>)"
  using assms by (rule disk_read_sector_image)

text \<open>A drive whose byte number \<open>i\<close> is \<open>i\<close> modulo 256.\<close>

definition disk_machine :: io_machine where
  "disk_machine = \<lparr>video_mem = (\<lambda>_. 0), terminal_row = 0, terminal_col = 0,
     kernel_heap = kernel_heap (kheap_init machine4), mem = store32 (\<lambda>_. 0) 0x9004 0x8000,
     current_directory = 0, cr3 = 0, cr0 = 0, io_log = [], dev_b = drive_byte, dev_w = drive_word of_nat, addr_disk = 0x8000\<rparr>"

lemma disk_machine_ata: "ata_holds disk_machine of_nat"
  by (rule drive_holds) (simp_all add: disk_machine_def)

lemma disk_machine_stream: "stream_at disk_machine 0x9000 0"
  by (simp add: stream_at_def disk_machine_def aligned4_def stream_pos_def stream_disk_def load32_store32_other)
    (simp add: load32_def)

theorem diskstreamer_read_correct_witness:
  "\<exists>k'. diskstreamer_read 0x9000 0xA000 1000 (snd (diskstreamer_seek 0x9000 300 disk_machine)) = Some (0, k') \<and>
     mem k' 0xA000 = 44 \<and> mem k' 0xA001 = 45"
proof -
  have "\<not> in_range a 0x9000 8" if "unat (a - 0xA000) < 1000" for a :: u32
    using in_range_diff [of "0x9000" 8 a] in_range_diff [of "0xA000" 1000 a] that by (auto simp: in_range_def)
  note apart = this
  have "300 + 1000 < (2147483136 :: nat)" by simp
  from diskstreamer_read_correct [OF disk_machine_ata disk_machine_stream this, of "0xA000"] apart
  obtain l where "diskstreamer_read 0x9000 0xA000 1000 (snd (diskstreamer_seek 0x9000 300 disk_machine)) =
    Some (0, disk_machine\<lparr>io_log := l, mem := store32 (image_at 0xA000 1000 of_nat 300 (mem disk_machine)) 0x9000 1300\<rparr>)"
    by auto
  then show ?thesis by (auto simp: store32_frame aligned4_def in_range_def image_at_def)
qed

theorem disk_read_sector_correct_witness:
  "\<exists>k'. disk_read_sector 2 1 disk_machine = Some (0, map of_nat [1024..<1536], k')"
  using disk_read_sector_correct [OF disk_machine_ata, of 2] by auto

end
