(* ===== verification/Cstring.thy ===== *)
theory Cstring
  imports Memory
begin

text \<open>
  The string routines of \<^verbatim>\<open>src/string/string.c\<close> on raw memory. \<open>strlen\<close> and \<open>strcpy\<close> stop at the
  first zero byte only, so they are partial: \<open>None\<close> is a scan that never ends. The others are
  bounded by an \<open>int\<close>, whose negative values make the loop empty. \<open>c_string m p s\<close> says that the
  zero-terminated string at \<open>p\<close> has the characters \<open>s\<close>.
\<close>

section \<open>The code\<close>

definition toLower :: "u8 \<Rightarrow> u8" where
  "toLower c = (if sint c \<ge> 65 \<and> sint c \<le> 90 then c + 32 else c)"

partial_function (option) strlen_loop :: "mem \<Rightarrow> u32 \<Rightarrow> u32 \<Rightarrow> u32 option" where
  "strlen_loop m str len = (if m str = 0 then Some len else strlen_loop m (str + 1) (len + 1))"

definition strlen :: "mem \<Rightarrow> u32 \<Rightarrow> u32 option" where
  "strlen m str = strlen_loop m str 0"

fun strnlen_loop :: "mem \<Rightarrow> u32 \<Rightarrow> nat \<Rightarrow> int" where
  "strnlen_loop m ptr 0 = 0"
| "strnlen_loop m ptr (Suc k) = (if m ptr = 0 then 0 else 1 + strnlen_loop m (ptr + 1) k)"

definition strnlen :: "mem \<Rightarrow> u32 \<Rightarrow> int \<Rightarrow> int" where
  "strnlen m ptr mx = strnlen_loop m ptr (nat mx)"

partial_function (option) strcpy :: "mem \<Rightarrow> u32 \<Rightarrow> u32 \<Rightarrow> mem option" where
  "strcpy m dest src =
     (if m src \<noteq> 0 then strcpy (m(dest := m src)) (dest + 1) (src + 1) else Some (m(dest := 0)))"

fun strncpy_loop :: "mem \<Rightarrow> u32 \<Rightarrow> u32 \<Rightarrow> nat \<Rightarrow> mem" where
  "strncpy_loop m dest src 0 = m(dest := 0)"
| "strncpy_loop m dest src (Suc k) =
     (if m src = 0 then m(dest := 0)
      else strncpy_loop (m(dest := m src)) (dest + 1) (src + 1) k)"

definition strncpy :: "mem \<Rightarrow> u32 \<Rightarrow> u32 \<Rightarrow> int \<Rightarrow> mem" where
  "strncpy m dest src count = strncpy_loop m dest src (nat (count - 1))"

fun istrncmp_loop :: "mem \<Rightarrow> u32 \<Rightarrow> u32 \<Rightarrow> nat \<Rightarrow> int" where
  "istrncmp_loop m str1 str2 0 = 0"
| "istrncmp_loop m str1 str2 (Suc k) =
     (let u1 = m str1; u2 = m str2
      in if u1 \<noteq> u2 \<and> toLower u1 \<noteq> toLower u2 then uint u1 - uint u2
         else if u1 = 0 then 0 else istrncmp_loop m (str1 + 1) (str2 + 1) k)"

definition istrncmp :: "mem \<Rightarrow> u32 \<Rightarrow> u32 \<Rightarrow> int \<Rightarrow> int" where
  "istrncmp m str1 str2 n = istrncmp_loop m str1 str2 (nat n)"

fun strncmp_loop :: "mem \<Rightarrow> u32 \<Rightarrow> u32 \<Rightarrow> nat \<Rightarrow> int" where
  "strncmp_loop m str1 str2 0 = 0"
| "strncmp_loop m str1 str2 (Suc k) =
     (let u1 = m str1; u2 = m str2
      in if u1 \<noteq> u2 then uint u1 - uint u2
         else if u1 = 0 then 0 else strncmp_loop m (str1 + 1) (str2 + 1) k)"

definition strncmp :: "mem \<Rightarrow> u32 \<Rightarrow> u32 \<Rightarrow> int \<Rightarrow> int" where
  "strncmp m str1 str2 n = strncmp_loop m str1 str2 (nat n)"

fun strnlen_terminator_loop :: "mem \<Rightarrow> u32 \<Rightarrow> nat \<Rightarrow> u8 \<Rightarrow> int" where
  "strnlen_terminator_loop m str 0 terminator = 0"
| "strnlen_terminator_loop m str (Suc k) terminator =
     (if m str = 0 \<or> m str = terminator then 0
      else 1 + strnlen_terminator_loop m (str + 1) k terminator)"

definition strnlen_terminator :: "mem \<Rightarrow> u32 \<Rightarrow> int \<Rightarrow> u8 \<Rightarrow> int" where
  "strnlen_terminator m str mx terminator = strnlen_terminator_loop m str (nat mx) terminator"

definition isdigit :: "u8 \<Rightarrow> bool" where
  "isdigit c \<longleftrightarrow> sint c \<ge> 48 \<and> sint c \<le> 57"

definition tonumericdigit :: "u8 \<Rightarrow> int" where
  "tonumericdigit c = sint c - 48"

section \<open>Strings in memory\<close>

fun bytes_at :: "mem \<Rightarrow> u32 \<Rightarrow> u8 list \<Rightarrow> bool" where
  "bytes_at m p [] = True"
| "bytes_at m p (x # xs) = (m p = x \<and> bytes_at m (p + 1) xs)"

definition c_string :: "mem \<Rightarrow> u32 \<Rightarrow> u8 list \<Rightarrow> bool" where
  "c_string m p s \<longleftrightarrow> 0 \<notin> set s \<and> bytes_at m p (s @ [0])"

text \<open>\<open>chars\<close> turns a HOL string literal into bytes.\<close>

definition chars :: "string \<Rightarrow> u8 list" where
  "chars s = map (\<lambda>c. of_nat (of_char c)) s"

text \<open>Two address ranges of \<open>n\<close> and \<open>k\<close> bytes that share no address.\<close>

definition apart :: "u32 \<Rightarrow> nat \<Rightarrow> u32 \<Rightarrow> nat \<Rightarrow> bool" where
  "apart d n s k \<longleftrightarrow> (\<forall>i < n. \<forall>j < k. d + of_nat i \<noteq> s + of_nat j)"

lemma c_string_Nil [simp]: "c_string m p [] \<longleftrightarrow> m p = 0"
  by (simp add: c_string_def)

lemma c_string_Cons: "c_string m p (x # xs) \<longleftrightarrow> x \<noteq> 0 \<and> m p = x \<and> c_string m (p + 1) xs"
  by (auto simp: c_string_def)

lemma c_string_drop:
  "c_string m p s \<Longrightarrow> n \<le> length s \<Longrightarrow> c_string m (p + of_nat n) (drop n s)"
proof (induction n arbitrary: p s)
  case (Suc n)
  then obtain x xs where s: "s = x # xs" by (cases s) auto
  with Suc have "c_string m (p + 1 + of_nat n) (drop n xs)" by (simp add: c_string_Cons)
  then show ?case by (simp add: s algebra_simps)
qed simp

lemma c_string_hd: "c_string m p s \<Longrightarrow> m p = (if s = [] then 0 else hd s)"
  by (cases s) (auto simp: c_string_Cons)

lemma bytes_at_append: "bytes_at m p (xs @ ys) \<longleftrightarrow> bytes_at m p xs \<and> bytes_at m (p + of_nat (length xs)) ys"
  by (induction xs arbitrary: p) (auto simp: algebra_simps)

lemma bytes_at_nth: "bytes_at m p xs \<longleftrightarrow> (\<forall>i < length xs. m (p + of_nat i) = xs ! i)"
proof (induction xs arbitrary: p)
  case (Cons x xs)
  show ?case
    unfolding bytes_at.simps Cons.IH by (auto simp: All_less_Suc2 algebra_simps)
qed simp

lemma bytes_at_cong:
  "bytes_at m p xs \<Longrightarrow> (\<And>i. i < length xs \<Longrightarrow> m' (p + of_nat i) = m (p + of_nat i)) \<Longrightarrow> bytes_at m' p xs"
  by (simp add: bytes_at_nth)

lemma c_string_cong:
  assumes "c_string m p s" and "\<And>i. i \<le> length s \<Longrightarrow> m' (p + of_nat i) = m (p + of_nat i)"
  shows "c_string m' p s"
proof -
  have "bytes_at m' p (s @ [0])"
  proof (rule bytes_at_cong)
    show "bytes_at m p (s @ [0])" using assms(1) by (simp add: c_string_def)
    show "m' (p + of_nat i) = m (p + of_nat i)" if "i < length (s @ [0])" for i
      by (rule assms(2)) (use that in simp)
  qed
  with assms(1) show ?thesis by (simp add: c_string_def)
qed

lemma apart_Suc:
  "apart d (Suc n) s (Suc k) \<Longrightarrow> apart (d + 1) n (s + 1) k"
  unfolding apart_def
proof (intro allI impI)
  fix i j assume "\<forall>i<Suc n. \<forall>j<Suc k. d + of_nat i \<noteq> s + of_nat j" "i < n" "j < k"
  then have "d + of_nat (Suc i) \<noteq> s + of_nat (Suc j)" by blast
  then show "d + 1 + of_nat i \<noteq> s + 1 + of_nat j" by (simp add: algebra_simps)
qed

lemma apart_hd:
  assumes "apart d n s k" and "0 < n" and "j < k"
  shows "s + of_nat j \<noteq> d"
proof -
  from assms have "d + of_nat 0 \<noteq> s + of_nat j" unfolding apart_def by blast
  then show ?thesis by auto
qed

lemma strlen_loop_c_string:
  "c_string m p s \<Longrightarrow> strlen_loop m p l = Some (l + of_nat (length s))"
proof (induction s arbitrary: p l)
  case Nil
  then show ?case by (simp add: strlen_loop.simps)
next
  case (Cons x xs)
  then show ?case
    by (subst strlen_loop.simps) (auto simp: c_string_Cons algebra_simps)
qed

lemma strlen_c_string: "c_string m p s \<Longrightarrow> strlen m p = Some (of_nat (length s))"
  by (simp add: strlen_def strlen_loop_c_string)

lemma strnlen_loop_c_string: "c_string m p s \<Longrightarrow> strnlen_loop m p k = int (min k (length s))"
proof (induction s arbitrary: p k)
  case Nil
  then show ?case by (cases k) auto
next
  case (Cons x xs)
  then show ?case by (cases k) (auto simp: c_string_Cons)
qed

lemma strnlen_c_string: "c_string m p s \<Longrightarrow> 0 \<le> n \<Longrightarrow> strnlen m p n = min n (int (length s))"
  by (auto simp: strnlen_def strnlen_loop_c_string)

text \<open>Where the bytes copied from lie outside the bytes written, \<open>strncpy\<close> writes the source cut
  to \<open>count - 1\<close> characters, a terminator, and nothing else.\<close>

lemma strncpy_loop_eq:
  assumes "c_string m src s" and "apart dest (Suc k) src (Suc (length s))" and "k < 4294967295"
  shows "c_string (strncpy_loop m dest src k) dest (take k s) \<and>
    (\<forall>a. \<not> unat (a - dest) < Suc (min k (length s)) \<longrightarrow> strncpy_loop m dest src k a = m a)"
  using assms
proof (induction k arbitrary: m dest src s)
  case 0
  then show ?case by (auto simp: unat_eq_0)
next
  case (Suc k)
  show ?case
  proof (cases s)
    case Nil
    with Suc.prems(1) show ?thesis by (auto simp: unat_eq_0)
  next
    case (Cons x xs)
    with Suc.prems(1) have x: "x \<noteq> 0" "m src = x" "c_string m (src + 1) xs" by (auto simp: c_string_Cons)
    let ?m = "m(dest := x)" and ?r = "strncpy_loop (m(dest := x)) (dest + 1) (src + 1) k"
    have ap: "apart dest (Suc (Suc k)) src (Suc (Suc (length xs)))" using Suc.prems(2) Cons by simp
    have "c_string ?m (src + 1) xs"
    proof (rule c_string_cong [OF x(3)])
      fix i assume "i \<le> length xs"
      then have "src + of_nat (Suc i) \<noteq> dest" by (intro apart_hd [OF ap]) simp_all
      then show "?m (src + 1 + of_nat i) = m (src + 1 + of_nat i)" by (simp add: algebra_simps)
    qed
    have k: "k < 4294967295" using Suc.prems(3) by linarith
    note IH = Suc.IH [OF \<open>c_string ?m (src + 1) xs\<close> apart_Suc [OF ap] k]
    have far: "?r a = ?m a" if "\<not> unat (a - (dest + 1)) < Suc (min k (length xs))" for a
      using conjunct2 [OF IH] that by blast
    have "\<not> unat (dest - (dest + 1)) < Suc (min k (length xs))"
      unfolding unat_pred_self using k by linarith
    from far [OF this] have "?r dest = x" by (simp only: fun_upd_same)
    moreover have "?r a = m a" if "\<not> unat (a - dest) < Suc (Suc (min k (length xs)))" for a
    proof -
      from that have ne: "a \<noteq> dest" by auto
      from that have "\<not> unat (a - (dest + 1)) < Suc (min k (length xs))"
        unfolding unat_diff_one [OF ne] by linarith
      from far [OF this] show ?thesis by (simp only: fun_upd_other [OF ne])
    qed
    moreover have "strncpy_loop m dest src (Suc k) = ?r" using x(1,2) by simp
    moreover have "min (Suc k) (length s) = Suc (min k (length xs))" "take (Suc k) s = x # take k xs"
      using Cons by simp_all
    ultimately show ?thesis
      using x(1) conjunct1 [OF IH] by (simp only: c_string_Cons) blast
  qed
qed


lemma toLower_0 [simp]: "toLower c = 0 \<longleftrightarrow> c = 0"
proof
  assume "toLower c = 0"
  moreover have "c = 224" if "c + 32 = 0"
  proof -
    from that have "c = 0 - 32" by (metis add_diff_cancel_right')
    then show ?thesis by simp
  qed
  ultimately show "c = 0" by (auto simp: toLower_def split: if_splits)
qed (simp add: toLower_def)

lemma toLower_0' [simp]: "toLower 0 = 0" "0 = toLower c \<longleftrightarrow> c = 0"
  using toLower_0 [of 0] toLower_0 [of c] by (simp, metis)

lemma uint_u8_eq: "uint (a :: u8) = uint b \<longleftrightarrow> a = b" "uint (a :: u8) = 0 \<longleftrightarrow> a = 0"
  by (simp_all add: word_uint_eq_iff)

lemma istrncmp_loop_0:
  "c_string m p s \<Longrightarrow> c_string m q t \<Longrightarrow>
   istrncmp_loop m p q k = 0 \<longleftrightarrow> map toLower (take k s) = map toLower (take k t)"
proof (induction k arbitrary: p q s t)
  case (Suc k)
  show ?case
  proof (cases s)
    case Nil
    then show ?thesis using Suc.prems
      by (cases t) (auto simp: c_string_Cons Let_def uint_u8_eq)
  next
    case s: (Cons x xs)
    show ?thesis
    proof (cases t)
      case Nil
      then show ?thesis using Suc.prems s
        by (auto simp: c_string_Cons Let_def uint_u8_eq)
    next
      case (Cons y ys)
      then show ?thesis using Suc.prems s Suc.IH [of "p + 1" xs "q + 1" ys]
        by (auto simp: c_string_Cons Let_def uint_u8_eq)
    qed
  qed
qed simp

lemma strncmp_loop_0:
  "c_string m p s \<Longrightarrow> c_string m q t \<Longrightarrow> strncmp_loop m p q k = 0 \<longleftrightarrow> take k s = take k t"
proof (induction k arbitrary: p q s t)
  case (Suc k)
  show ?case
    using Suc.prems Suc.IH [of "p + 1" _ "q + 1"]
    by (cases s; cases t) (auto simp: c_string_Cons Let_def uint_u8_eq)
qed simp

lemma strncpy_correct':
  assumes "c_string m src s" and "apart dest (nat count) src (Suc (length s))" and "0 < count"
    and "count < 2147483648"
  shows "c_string (strncpy m dest src count) dest (take (nat (count - 1)) s) \<and>
    (\<forall>a. \<not> unat (a - dest) < nat count \<longrightarrow> strncpy m dest src count a = m a)"
proof -
  have c: "nat count = Suc (nat (count - 1))" "nat (count - 1) < 4294967295" using assms(3,4) by linarith+
  note * = strncpy_loop_eq [OF assms(1) assms(2) [unfolded c(1)] c(2)]
  show ?thesis unfolding strncpy_def c(1) using * by auto
qed

section \<open>Properties\<close>

text \<open>\<open>strncpy\<close> with a positive \<open>count\<close> leaves in the destination the source string cut to
  \<open>count - 1\<close> characters, always with its terminator inside the \<open>count\<close> bytes, and changes no byte
  outside them, provided the two do not overlap.\<close>

theorem strncpy_correct:
  assumes "c_string m src s" and "apart dest (nat count) src (Suc (length s))" and "0 < count"
    and "count < 2147483648"
  shows "c_string (strncpy m dest src count) dest (take (nat (count - 1)) s) \<and>
    (\<forall>a. \<not> unat (a - dest) < nat count \<longrightarrow> strncpy m dest src count a = m a)"
  using assms by (rule strncpy_correct')

definition string_mem :: mem where
  "string_mem = (\<lambda>_. 0)(16 := 72, 17 := 105, 18 := 33, 32 := 104, 33 := 73)"

theorem strncpy_correct_witness:
  "c_string (strncpy string_mem 64 16 3) 64 [72, 105] \<and> strncpy string_mem 64 16 3 16 = 72"
proof -
  have "c_string string_mem 16 [72, 105, 33]" by (simp add: c_string_Cons string_mem_def)
  moreover have "apart 64 (nat 3) 16 (Suc (length [72::u8, 105, 33]))"
    by (simp add: apart_def All_less_Suc numeral_3_eq_3)
  ultimately show ?thesis
    using strncpy_correct [of string_mem 16 "[72, 105, 33]" 64 3] by (simp add: string_mem_def)
qed

text \<open>\<open>istrncmp\<close>, which decides whether a directory entry has the name looked for, is 0
  exactly when the first \<open>n\<close> characters agree up to the case of the letters A to Z.\<close>

theorem istrncmp_eq_0:
  assumes "c_string m p s" and "c_string m q t"
  shows "istrncmp m p q n = 0 \<longleftrightarrow> map toLower (take (nat n) s) = map toLower (take (nat n) t)"
  unfolding istrncmp_def using assms by (rule istrncmp_loop_0)

theorem istrncmp_eq_0_witness:
  "istrncmp string_mem 16 32 2 = 0 \<and> istrncmp string_mem 16 32 3 \<noteq> 0"
proof -
  have "c_string string_mem 16 [72, 105, 33]" "c_string string_mem 32 [104, 73]"
    by (simp_all add: c_string_Cons string_mem_def)
  from istrncmp_eq_0 [OF this] show ?thesis by (simp add: toLower_def numeral_2_eq_2)
qed

end
