(* ===== verification/Pparser.thy ===== *)
theory Pparser
  imports Kheap Cstring
begin

text \<open>
  The path parser of \<^verbatim>\<open>src/fs/pparser.c\<close>. A path \<^verbatim>\<open>0:/a/b\<close> becomes a heap structure: a root with
  the drive number, and a linked list of parts, each with its own 108-byte buffer. The structures are
  read and written in raw memory, field by field.
\<close>

section \<open>The code\<close>

abbreviation (input) PEACHOS_MAX_PATH :: u32 where "PEACHOS_MAX_PATH \<equiv> 108"

text \<open>Fields of \<open>struct path_root\<close> and \<open>struct path_part\<close>, 8 bytes each.\<close>

definition root_drive_no :: "mem \<Rightarrow> u32 \<Rightarrow> u32" where "root_drive_no m r = load32 m r"
definition root_first :: "mem \<Rightarrow> u32 \<Rightarrow> u32" where "root_first m r = load32 m (r + 4)"
definition part_part :: "mem \<Rightarrow> u32 \<Rightarrow> u32" where "part_part m p = load32 m p"
definition part_next :: "mem \<Rightarrow> u32 \<Rightarrow> u32" where "part_next m p = load32 m (p + 4)"

text \<open>\<open>memcmp\<close> against the two bytes of the literal.\<close>

definition pathparser_path_valid_format :: "mem \<Rightarrow> u32 \<Rightarrow> bool" where
  "pathparser_path_valid_format m path \<longleftrightarrow>
     (let len = strnlen m path 108
      in len \<ge> 3 \<and> isdigit (m path) \<and> m (path + 1) = 58 \<and> m (path + 1 + 1) = 47)"

definition pathparser_get_drive_by_path :: "mem \<Rightarrow> u32 \<Rightarrow> int \<times> u32" where
  "pathparser_get_drive_by_path m path =
     (if \<not> pathparser_path_valid_format m path then (- EBADPATH, path)
      else (tonumericdigit (m path), path + 3))"

definition pathparser_create_root :: "int \<Rightarrow> 'a machine_scheme \<Rightarrow> (u32 \<times> 'a machine_scheme) option" where
  "pathparser_create_root drive_number k = do {
     (path_r, k) \<leftarrow> kzalloc 8 k;
     let m = store32 (mem k) path_r (word_of_int drive_number);
     let m = store32 m (path_r + 4) 0;
     Some (path_r, k\<lparr>mem := m\<rparr>)
   }"

partial_function (option) get_part_loop :: "mem \<Rightarrow> u32 \<Rightarrow> u32 \<Rightarrow> u32 \<Rightarrow> (mem \<times> u32 \<times> u32) option" where
  "get_part_loop m result i path =
     (if m path \<noteq> 47 \<and> m path \<noteq> 0
      then get_part_loop (m(result + i := m path)) result (i + 1) (path + 1)
      else Some (m, i, path))"

definition pathparser_get_path_part ::
  "u32 \<Rightarrow> 'a machine_scheme \<Rightarrow> (u32 \<times> u32 \<times> 'a machine_scheme) option" where
  "pathparser_get_path_part path k = do {
     (result_path_part, k) \<leftarrow> kzalloc PEACHOS_MAX_PATH k;
     (m, i, path) \<leftarrow> get_part_loop (mem k) result_path_part 0 path;
     let k = k\<lparr>mem := m\<rparr>;
     let path = (if mem k path = 47 then path + 1 else path);
     if i = 0 then Some (0, path, kfree result_path_part k) else Some (result_path_part, path, k)
   }"

definition pathparser_parse_path_part ::
  "u32 \<Rightarrow> u32 \<Rightarrow> 'a machine_scheme \<Rightarrow> (u32 \<times> u32 \<times> 'a machine_scheme) option" where
  "pathparser_parse_path_part last_part path k = do {
     (path_part_str, path, k) \<leftarrow> pathparser_get_path_part path k;
     if path_part_str = 0 then Some (0, path, k)
     else do {
       (part, k) \<leftarrow> kzalloc 8 k;
       let m = store32 (mem k) part path_part_str;
       let m = store32 m (part + 4) 0;
       let m = (if last_part \<noteq> 0 then store32 m (last_part + 4) part else m);
       Some (part, path, k\<lparr>mem := m\<rparr>)
     }
   }"

partial_function (option) parse_parts_loop :: "u32 \<Rightarrow> u32 \<Rightarrow> 'a machine_scheme \<Rightarrow> 'a machine_scheme option" where
  "parse_parts_loop part path k =
     (if part = 0 then Some k
      else do {
        (part, path, k) \<leftarrow> pathparser_parse_path_part part path k;
        parse_parts_loop part path k
      })"

partial_function (option) free_parts_loop :: "u32 \<Rightarrow> 'a machine_scheme \<Rightarrow> 'a machine_scheme option" where
  "free_parts_loop part k =
     (if part = 0 then Some k
      else let next_part = part_next (mem k) part;
               k = kfree (part_part (mem k) part) k;
               k = kfree part k
           in free_parts_loop next_part k)"

definition pathparser_free :: "u32 \<Rightarrow> 'a machine_scheme \<Rightarrow> 'a machine_scheme option" where
  "pathparser_free root k = do {
     k \<leftarrow> free_parts_loop (root_first (mem k) root) k;
     Some (kfree root k)
   }"

text \<open>\<open>current_directory_path\<close> is never used.\<close>

definition pathparser_parse ::
  "u32 \<Rightarrow> u32 \<Rightarrow> 'a machine_scheme \<Rightarrow> (u32 \<times> 'a machine_scheme) option" where
  "pathparser_parse path current_directory_path k = do {
     len \<leftarrow> strlen (mem k) path;
     if len > PEACHOS_MAX_PATH then Some (0, k)
     else let (res, tmp_path) = pathparser_get_drive_by_path (mem k) path in
       if res < 0 then Some (0, k)
       else do {
         (path_root, k) \<leftarrow> pathparser_create_root res k;
         if path_root = 0 then Some (0, k)
         else do {
           (first_part, tmp_path, k) \<leftarrow> pathparser_parse_path_part 0 tmp_path k;
           if first_part = 0 then Some (path_root, k)
           else do {
             let k = k\<lparr>mem := store32 (mem k) (path_root + 4) first_part\<rparr>;
             (part, tmp_path, k) \<leftarrow> pathparser_parse_path_part first_part tmp_path k;
             k \<leftarrow> parse_parts_loop part tmp_path k;
             Some (path_root, k)
           }
         }
       }
   }"

section \<open>What a path means\<close>

text \<open>The parts of what follows the drive: the pieces between slashes, up to the first empty
  one.\<close>

function path_parts :: "u8 list \<Rightarrow> u8 list list" where
  "path_parts s = (let p = takeWhile (\<lambda>c. c \<noteq> 47) s
     in if p = [] then [] else p # path_parts (drop (Suc (length p)) s))"
  by pat_completeness auto
termination
  by (relation "measure length") (auto simp: takeWhile_eq_Nil_iff)

declare path_parts.simps [simp del]

text \<open>The linked list of parts from \<open>p\<close>: each node has its own pages for the structure and for
  the string.\<close>

fun part_list :: "mem \<Rightarrow> u32 \<Rightarrow> (u32 \<times> u32 \<times> u8 list) list \<Rightarrow> bool" where
  "part_list m p [] \<longleftrightarrow> p = 0"
| "part_list m p ((p', q, t) # ns) \<longleftrightarrow> p = p' \<and> p \<noteq> 0 \<and> q \<noteq> 0 \<and> page_al p \<and> page_al q \<and>
     part_part m p = q \<and> length t < 108 \<and> c_string m q t \<and> part_list m (part_next m p) ns"

definition node_pages :: "(u32 \<times> u32 \<times> u8 list) list \<Rightarrow> u32 list" where
  "node_pages ns = concat (map (\<lambda>(p, q, t). [p, q]) ns)"

section \<open>Reading one part\<close>

lemma get_part_loop_eq:
  assumes "c_string m path s" and "t = takeWhile (\<lambda>c. c \<noteq> 47) s" and "length s < 4294967295"
    and "apart (res + i) (length t) path (Suc (length s))"
  shows "\<exists>m'. get_part_loop m res i path = Some (m', i + of_nat (length t), path + of_nat (length t)) \<and>
    bytes_at m' (res + i) t \<and> (\<forall>a. \<not> unat (a - (res + i)) < length t \<longrightarrow> m' a = m a)"
  using assms
proof (induction s arbitrary: m path i t)
  case Nil
  then show ?case by (simp add: get_part_loop.simps)
next
  case (Cons x xs)
  from Cons.prems(1) have x: "x \<noteq> 0" "m path = x" "c_string m (path + 1) xs" by (auto simp: c_string_Cons)
  show ?case
  proof (cases "x = 47")
    case True
    with Cons.prems(2) x show ?thesis by (simp add: get_part_loop.simps)
  next
    case False
    define u where "u = takeWhile (\<lambda>c. c \<noteq> 47) xs"
    have t: "t = x # u" using Cons.prems(2) False by (simp add: u_def)
    let ?m = "m(res + i := x)"
    have ap: "apart (res + i) (Suc (length u)) path (Suc (Suc (length xs)))" using Cons.prems(4) t by simp
    have cs: "c_string ?m (path + 1) xs"
    proof (rule c_string_cong [OF x(3)])
      fix j assume "j \<le> length xs"
      then have "path + of_nat (Suc j) \<noteq> res + i" by (intro apart_hd [OF ap]) simp_all
      then show "?m (path + 1 + of_nat j) = m (path + 1 + of_nat j)" by (simp add: algebra_simps)
    qed
    have len: "length xs < 4294967295" using Cons.prems(3) by simp
    have ap': "apart (res + (i + 1)) (length u) (path + 1) (Suc (length xs))"
      using apart_Suc [OF ap] by (simp add: add.assoc)
    from Cons.IH [OF cs u_def len ap'] obtain m' where
      m': "get_part_loop ?m res (i + 1) (path + 1) = Some (m', i + 1 + of_nat (length u), path + 1 + of_nat (length u))"
      "bytes_at m' (res + (i + 1)) u" "\<And>a. \<not> unat (a - (res + (i + 1))) < length u \<Longrightarrow> m' a = ?m a" by blast
    have ul: "length u < 4294967295" using len length_takeWhile_le [of "\<lambda>c. c \<noteq> 47" xs] by (simp add: u_def)
    have "\<not> unat (res + i - (res + i + 1)) < length u" unfolding unat_pred_self using ul by linarith
    then have "m' (res + i) = x" using m'(3) [of "res + i"] by (simp only: add.assoc fun_upd_same not_False_eq_True)
    moreover have "m' a = m a" if "\<not> unat (a - (res + i)) < Suc (length u)" for a
    proof -
      from that have ne: "a \<noteq> res + i" by auto
      from that have "\<not> unat (a - (res + i + 1)) < length u" unfolding unat_diff_one [OF ne] by linarith
      then have "m' a = ?m a" by (intro m'(3)) (simp only: add.assoc not_False_eq_True)
      then show ?thesis by (simp only: fun_upd_other [OF ne])
    qed
    moreover have "get_part_loop m res i path = get_part_loop ?m res (i + 1) (path + 1)"
      using x False by (subst get_part_loop.simps) simp
    ultimately show ?thesis using m'(1,2) by (auto simp: t algebra_simps)
  qed
qed

definition kept_string :: "'a machine_scheme \<Rightarrow> u32 \<Rightarrow> u8 list \<Rightarrow> bool" where
  "kept_string k p s \<longleftrightarrow> c_string (mem k) p s \<and> (\<forall>j \<le> length s. kept k (p + of_nat j))"

lemma kept_string_drop: "kept_string k p s \<Longrightarrow> n \<le> length s \<Longrightarrow> kept_string k (p + of_nat n) (drop n s)"
  unfolding kept_string_def
proof (intro conjI allI impI)
  fix j assume *: "c_string (mem k) p s \<and> (\<forall>j \<le> length s. kept k (p + of_nat j))" and n: "n \<le> length s"
  then show "c_string (mem k) (p + of_nat n) (drop n s)" by (simp add: c_string_drop)
  assume "j \<le> length (drop n s)"
  with n have "n + j \<le> length s" by simp
  with * have "kept k (p + of_nat (n + j))" by blast
  then show "kept k (p + of_nat n + of_nat j)" by (simp add: add.assoc)
qed

lemma kept_string_grows:
  assumes "kept_string k p s" "grows W k ps k'" "\<And>j. j \<le> length s \<Longrightarrow> p + of_nat j \<notin> W"
  shows "kept_string k' p s"
  using assms c_string_cong [of "mem k" p s "mem k'"] grows_kept [OF assms(2)]
  by (simp add: kept_string_def grows_def)

lemma takeWhile_parts:
  "path_parts s = (if takeWhile (\<lambda>c. c \<noteq> 47) s = [] then []
     else takeWhile (\<lambda>c. c \<noteq> 47) s # path_parts (drop (Suc (length (takeWhile (\<lambda>c. c \<noteq> 47) s))) s))"
  by (subst path_parts.simps) (simp add: Let_def)

lemma get_path_part_correct:
  assumes wf: "kwf k" and room: "0 < kroom k" and s: "kept_string k path s" and len: "length s \<le> 105"
    and t: "t = takeWhile (\<lambda>c. c \<noteq> 47) s"
  shows "if t = [] then \<exists>path' k'. pathparser_get_path_part path k = Some (0, path', k') \<and> grows {} k [] k'
    else \<exists>q path' k'. pathparser_get_path_part path k = Some (q, path', k') \<and> q \<noteq> 0 \<and> grows {} k [q] k' \<and>
      c_string (mem k') q t \<and> kept_string k path' (drop (Suc (length t)) s) \<and>
      (\<forall>j \<le> length s - Suc (length t). \<exists>i \<le> length s. path' + of_nat j = path + of_nat i)"
proof -
  obtain q k1 where q: "kzalloc 108 k = Some (q, k1)" "q \<noteq> 0" "grows {} k [q] k1"
    "\<And>a. in_range a q 108 \<Longrightarrow> mem k1 a = 0"
    using grows_kzalloc [OF wf room, of 108] by auto
  have al: "page_al q" and far: "\<And>a. kept k a \<Longrightarrow> \<not> in_range a q 4096"
    using grows_page [OF q(3), of q] by auto
  have lt: "length t \<le> length s" using length_takeWhile_le [of "\<lambda>c. c \<noteq> 47" s] t by simp
  have cs: "c_string (mem k1) path s"
    using kept_string_grows [OF s q(3)] by (simp add: kept_string_def)
  have ap: "apart (q + 0) (length t) path (Suc (length s))"
    unfolding apart_def
  proof (intro allI impI notI)
    fix i j assume i: "i < length t" and j: "j < Suc (length s)" and eq: "q + 0 + of_nat i = path + of_nat j"
    have "in_range (q + of_nat i) q 4096"
      using page_offset [OF al, of i] i lt len by (simp add: in_range_def)
    moreover have "kept k (path + of_nat j)" using s j by (simp add: kept_string_def)
    ultimately show False using far eq by simp
  qed
  obtain m' where m': "get_part_loop (mem k1) q 0 path = Some (m', of_nat (length t), path + of_nat (length t))"
    "bytes_at m' q t" "\<And>a. \<not> unat (a - q) < length t \<Longrightarrow> m' a = mem k1 a"
    using get_part_loop_eq [OF cs t _ ap] len by auto
  have keep: "m' a = mem k a" if "kept k a" for a
  proof -
    have "\<not> unat (a - q) < 4096" using far [OF that] page_range [OF al] by simp
    then have "m' a = mem k1 a" using lt len by (intro m'(3)) linarith
    then show ?thesis using q(3) that by (simp add: grows_def)
  qed
  have gr: "grows {} k [q] (k1\<lparr>mem := m'\<rparr>)"
    using q(3) keep by (intro grows_mem) (auto simp: grows_def)
  have ul: "unat (of_nat (length t) :: u32) = length t" using lt len by (intro unat_of_nat_u32) linarith
  then have i0: "(of_nat (length t) :: u32) = 0 \<longleftrightarrow> t = []" by (simp add: word_unat_eq_iff)
  show ?thesis
  proof (cases "t = []")
    case True
    have "grows {} k [] (kfree q (k1\<lparr>mem := m'\<rparr>))" using grows_free(1) [OF wf gr, of "[q]"] by simp
    then show ?thesis using True q(1) m'(1) by (simp add: pathparser_get_path_part_def)
  next
    case False
    have "m' (q + of_nat (length t)) = mem k1 (q + of_nat (length t))"
      using ul by (intro m'(3)) simp
    also have "\<dots> = 0"
      using page_offset [OF al, of "length t"] lt len by (intro q(4)) (simp add: in_range_def)
    finally have str: "c_string m' q t"
      using m'(2) s t set_takeWhileD [of 0 "\<lambda>c. c \<noteq> 47" s]
      by (auto simp: c_string_def bytes_at_append kept_string_def)
    define path' where "path' = (if m' (path + of_nat (length t)) = 47 then path + of_nat (length t) + 1 else path + of_nat (length t))"
    have st: "kept_string k (path + of_nat (length t)) (drop (length t) s)"
      using s lt by (rule kept_string_drop)
    have hd: "m' (path + of_nat (length t)) = (if drop (length t) s = [] then 0 else hd (drop (length t) s))"
      using c_string_hd [of "mem k" "path + of_nat (length t)" "drop (length t) s"] st keep
      by (force simp: kept_string_def)
    have dw: "drop (length t) s = dropWhile (\<lambda>c. c \<noteq> 47) s" by (simp add: t dropWhile_eq_drop)
    have "kept_string k path' (drop (Suc (length t)) s) \<and>
      (\<forall>j \<le> length s - Suc (length t). \<exists>i \<le> length s. path' + of_nat j = path + of_nat i)"
    proof (cases "drop (length t) s")
      case Nil
      then have "drop (Suc (length t)) s = []" by simp
      with Nil st hd lt show ?thesis by (auto simp: path'_def)
    next
      case (Cons x xs)
      then have "x = 47" using dw by (metis (full_types) dropWhile_eq_Cons_conv)
      moreover have "drop (Suc (length t)) s = drop 1 (drop (length t) s)" by simp
      moreover have "1 \<le> length (drop (length t) s)" using Cons by simp
      moreover have "\<exists>i \<le> length s. path + of_nat (length t) + 1 + of_nat j = path + of_nat i"
        if "j \<le> length s - Suc (length t)" for j
      proof -
        have "length t < length s" using Cons by (cases "length t < length s") auto
        with that show ?thesis by (intro exI [of _ "Suc (length t) + j"]) (auto simp: algebra_simps)
      qed
      ultimately show ?thesis
        using kept_string_drop [OF st, of 1] hd Cons by (simp add: path'_def)
    qed
    moreover have "pathparser_get_path_part path k = Some (q, path', k1\<lparr>mem := m'\<rparr>)"
      using False q(1) m'(1) i0 by (simp add: pathparser_get_path_part_def path'_def)
    ultimately show ?thesis unfolding if_not_P [OF False] using q(2) gr str by auto
  qed
qed

section \<open>Building the list\<close>

definition next_field :: "u32 \<Rightarrow> u32 set" where
  "next_field p = (if p = 0 then {} else {a. in_range a (p + 4) 4})"

lemma field_in_page: "page_al p \<Longrightarrow> a \<in> next_field p \<Longrightarrow> in_range a p 4096"
  using page_offset [of p 4] by (auto simp: next_field_def in_range_def split: if_splits)

lemma node_fields: "page_al p \<Longrightarrow> aligned4 p \<and> aligned4 (p + 4) \<and> p \<noteq> p + 4"
  using entry_offset(2) [of p 0] entry_offset(2) [of p 1] by simp

lemma part_next_store: "page_al p \<Longrightarrow> load32 (store32 m (p + 4) v) p = load32 m p"
  by (intro load32_store32_other) (simp_all add: node_fields)

lemma node_store_frame:
  "page_al p \<Longrightarrow> \<not> in_range a p 4096 \<Longrightarrow> store32 m p v a = m a \<and> store32 m (p + 4) v a = m a"
  using store_entry_frame [of p 0 a m v] store_entry_frame [of p 1 a m v] by simp

lemma next_store_frame: "page_al p \<Longrightarrow> p \<noteq> 0 \<Longrightarrow> a \<notin> next_field p \<Longrightarrow> store32 m (p + 4) v a = m a"
  by (rule store32_frame) (simp_all add: node_fields next_field_def)

lemma page_kept_load:
  assumes "grows W k ps k'" "page_al p" "\<And>a. in_range a p 4096 \<Longrightarrow> kept k a"
    and "\<And>a. in_range a p 4096 \<Longrightarrow> a \<notin> W"
  shows "load32 (mem k') p = load32 (mem k) p" and "load32 (mem k') (p + 4) = load32 (mem k) (p + 4)"
proof -
  have "mem k' a = mem k a" if "in_range a p 4096" for a
    using assms(1) assms(3) [OF that] assms(4) [OF that] by (simp add: grows_def)
  note c = page_load_cong [OF this assms(2)]
  show "load32 (mem k') p = load32 (mem k) p" "load32 (mem k') (p + 4) = load32 (mem k) (p + 4)"
    using c [where j = 0] c [where j = 1] by simp_all
qed

lemma parse_path_part_correct:
  assumes wf: "kwf k" and s: "kept_string k path s" and len: "length s \<le> 105"
    and t: "t = takeWhile (\<lambda>c. c \<noteq> 47) s" and room: "(if t = [] then 1 else 2) \<le> kroom k"
    and lst: "lst \<noteq> 0 \<Longrightarrow> page_al lst" "\<And>a. a \<in> next_field lst \<Longrightarrow> kept k a"
      "\<And>j. j \<le> length s \<Longrightarrow> path + of_nat j \<notin> next_field lst"
  shows "if t = [] then \<exists>path' k'. pathparser_parse_path_part lst path k = Some (0, path', k') \<and> grows {} k [] k'
    else \<exists>p q path' k'. pathparser_parse_path_part lst path k = Some (p, path', k') \<and> p \<noteq> 0 \<and> q \<noteq> 0 \<and>
      grows (next_field lst) k [p, q] k' \<and> part_part (mem k') p = q \<and> part_next (mem k') p = 0 \<and>
      c_string (mem k') q t \<and> kept_string k' path' (drop (Suc (length t)) s) \<and>
      (\<forall>j \<le> length s - Suc (length t). \<exists>i \<le> length s. path' + of_nat j = path + of_nat i) \<and>
      (lst \<noteq> 0 \<longrightarrow> part_next (mem k') lst = p)"
proof (cases "t = []")
  case True
  with get_path_part_correct [OF wf _ s len t] room show ?thesis
    by (auto simp: pathparser_parse_path_part_def)
next
  case False
  with get_path_part_correct [OF wf _ s len t] room obtain q path' k1 where
    q: "pathparser_get_path_part path k = Some (q, path', k1)" "q \<noteq> 0" "grows {} k [q] k1"
      "c_string (mem k1) q t" "kept_string k path' (drop (Suc (length t)) s)"
      "\<forall>j \<le> length s - Suc (length t). \<exists>i \<le> length s. path' + of_nat j = path + of_nat i" by auto
  have wf1: "kwf k1" and r1: "0 < kroom k1" using q(3) room False by (auto simp: grows_def)
  obtain p k2 where p: "kzalloc 8 k1 = Some (p, k2)" "p \<noteq> 0" "grows {} k1 [p] k2"
    "\<And>a. in_range a p 8 \<Longrightarrow> mem k2 a = 0"
    using grows_kzalloc [OF wf1 r1, of 8] by auto
  have alp: "page_al p" and farp: "\<And>a. kept k1 a \<Longrightarrow> \<not> in_range a p 4096"
    using grows_page [OF p(3), of p] by auto
  have alq: "page_al q" and farq: "\<And>a. kept k a \<Longrightarrow> \<not> in_range a q 4096"
    and kq: "\<And>a. in_range a q 4096 \<Longrightarrow> kept k1 a"
    using grows_page [OF q(3), of q] by auto
  define m2 where "m2 = store32 (store32 (mem k2) p q) (p + 4) 0"
  define m3 where "m3 = (if lst \<noteq> 0 then store32 m2 (lst + 4) p else m2)"
  have m2: "m2 a = mem k2 a" if "\<not> in_range a p 4096" for a
    using node_store_frame [OF alp that] by (simp add: m2_def)
  have m3: "m3 a = m2 a" if "a \<notin> next_field lst" for a
    using next_store_frame [OF lst(1) _ that] by (simp add: m3_def)
  have keep1: "kept k1 a" if "kept k a" for a using grows_kept [OF q(3) that] .
  have last_p: "a \<notin> next_field lst" if "in_range a p 4096" for a
    using farp keep1 lst(2) that by blast
  have last_q: "a \<notin> next_field lst" if "in_range a q 4096" for a
    using farq lst(2) that by blast
  have m3_p: "load32 m3 p = q" "load32 m3 (p + 4) = 0"
  proof -
    have "m3 a = m2 a" if "in_range a p 4096" for a using m3 last_p [OF that] .
    note c = page_load_cong [OF this alp]
    show "load32 m3 p = q" "load32 m3 (p + 4) = 0"
      using c [where j = 0] c [where j = 1] by (simp_all add: m2_def part_next_store [OF alp])
  qed
  have lt: "length t \<le> 105" using len length_takeWhile_le [of "\<lambda>c. c \<noteq> 47" s] t by simp
  have str: "c_string m3 q t"
  proof (rule c_string_cong [OF q(4)])
    fix i assume i: "i \<le> length t"
    have r: "in_range (q + of_nat i) q 4096" using page_offset [OF alq, of i] i lt by (simp add: in_range_def)
    have "m3 (q + of_nat i) = mem k2 (q + of_nat i)"
      using m3 last_q [OF r] m2 farp [OF kq [OF r]] by simp
    also have "\<dots> = mem k1 (q + of_nat i)" using p(3) kq [OF r] by (simp add: grows_def)
    finally show "m3 (q + of_nat i) = mem k1 (q + of_nat i)" .
  qed
  have gr: "grows (next_field lst) k [q, p] (k2\<lparr>mem := m3\<rparr>)"
  proof -
    have "grows (next_field lst) k1 [p] (k2\<lparr>mem := m3\<rparr>)"
    proof (rule grows_mem)
      show "grows (next_field lst) k1 [p] k2" using p(3) by (rule grows_mono) simp
      show "m3 a = mem k2 a" if "kept k1 a" "a \<notin> next_field lst" for a
        using m3 [OF that(2)] m2 [OF farp [OF that(1)]] by simp
    qed
    with q(3) have "grows (next_field lst) k ([q] @ [p]) (k2\<lparr>mem := m3\<rparr>)"
      by (intro grows_trans [OF grows_mono [OF q(3)]]) simp_all
    then show ?thesis by simp
  qed
  have d: "distinct [p, q]" using gr by (auto simp: grows_def)
  have gr': "grows (next_field lst) k [p, q] (k2\<lparr>mem := m3\<rparr>)"
    by (rule grows_perm [OF gr]) (use d in auto)
  have "kept_string (k2\<lparr>mem := m3\<rparr>) path' (drop (Suc (length t)) s)"
  proof (rule kept_string_grows [OF q(5) gr])
    fix j assume "j \<le> length (drop (Suc (length t)) s)"
    then obtain i where "i \<le> length s" "path' + of_nat j = path + of_nat i" using q(6) by auto
    then show "path' + of_nat j \<notin> next_field lst" using lst(3) by simp
  qed
  moreover have "pathparser_parse_path_part lst path k = Some (p, path', k2\<lparr>mem := m3\<rparr>)"
    using q(1,2) p(1) by (simp add: pathparser_parse_path_part_def m2_def m3_def Let_def)
  moreover have "lst \<noteq> 0 \<longrightarrow> load32 m3 (lst + 4) = p" by (simp add: m3_def)
  ultimately show ?thesis
    unfolding if_not_P [OF False] using p(2) q(2,6) gr' m3_p str by (simp add: part_part_def part_next_def)
qed

lemma chain_node:
  assumes p: "page_al p" "p \<noteq> 0" "\<And>a. in_range a p 4096 \<Longrightarrow> kept k1 a"
    and q: "page_al q" "q \<noteq> 0" "\<And>a. in_range a q 4096 \<Longrightarrow> kept k1 a" "p \<noteq> q"
    and n: "part_part (mem k1) p = q" "c_string (mem k1) q t" "length t \<le> 105"
    and g: "grows (next_field p) k1 ps k'" and l: "part_list (mem k') (part_next (mem k') p) ns"
  shows "part_list (mem k') p ((p, q, t) # ns)"
proof -
  have same: "mem k' a = mem k1 a" if "kept k1 a" "a \<notin> next_field p" for a
    using g that by (simp add: grows_def)
  have "mem k' (p + of_nat j) = mem k1 (p + of_nat j)" if "j < 4" for j
  proof (rule same)
    have u: "unat (p + of_nat j) = unat p + j" "unat (p + 4) = unat p + 4"
      using page_offset [OF p(1), of j] page_offset [OF p(1), of 4] that by simp_all
    show "kept k1 (p + of_nat j)" using u(1) that by (intro p(3)) (simp add: in_range_def)
    show "p + of_nat j \<notin> next_field p" using u that by (auto simp: next_field_def in_range_def)
  qed
  note b = this [of 0] this [of 1] this [of 2] this [of 3]
  have "load32 (mem k') p = q" using b n(1) load32_cong [of "mem k'" p "mem k1"] by (simp add: part_part_def)
  moreover have "c_string (mem k') q t"
  proof (rule c_string_cong [OF n(2)])
    fix i assume i: "i \<le> length t"
    have r: "in_range (q + of_nat i) q 4096"
      using page_offset [OF q(1), of i] i n(3) by (simp add: in_range_def)
    then have "\<not> in_range (q + of_nat i) p 4096" using pages_disjoint [OF p(1) q(1,4)] by blast
    then show "mem k' (q + of_nat i) = mem k1 (q + of_nat i)"
      using field_in_page [OF p(1)] by (intro same q(3) [OF r]) blast
  qed
  ultimately show ?thesis using p q n(3) l by (simp add: part_part_def)
qed

lemma node_pages_Cons [simp]: "node_pages ((p, q, t) # ns) = p # q # node_pages ns" "node_pages [] = []"
  by (simp_all add: node_pages_def)

lemma parse_parts_loop_correct:
  assumes "kwf k" and "page_al part" "part \<noteq> 0" "\<And>a. in_range a part 4096 \<Longrightarrow> kept k a"
    and "part_next (mem k) part = 0" and "kept_string k path s" and "length s \<le> 105"
    and "\<And>j. j \<le> length s \<Longrightarrow> \<not> in_range (path + of_nat j) part 4096"
    and "2 * length (path_parts s) + 1 \<le> kroom k"
  shows "\<exists>ns k'. parse_parts_loop part path k = Some k' \<and> grows (next_field part) k (node_pages ns) k' \<and>
    map (snd \<circ> snd) ns = path_parts s \<and> part_list (mem k') (part_next (mem k') part) ns"
  using assms
proof (induction "length s" arbitrary: k part path s rule: less_induct)
  case less
  define t where "t = takeWhile (\<lambda>c. c \<noteq> 47) s"
  note wf = less.prems(1) and part = less.prems(2-4)
  have fld: "in_range a part 4096" if "a \<in> next_field part" for a using field_in_page [OF part(1) that] .
  have parts: "path_parts s = (if t = [] then [] else t # path_parts (drop (Suc (length t)) s))"
    unfolding t_def by (rule takeWhile_parts)
  have room: "(if t = [] then 1 else 2) \<le> kroom k" using less.prems(9) parts by auto
  note P = parse_path_part_correct [OF wf less.prems(6,7) t_def room, of part]
  have P': "part \<noteq> 0 \<Longrightarrow> page_al part" "\<And>a. a \<in> next_field part \<Longrightarrow> kept k a"
    "\<And>j. j \<le> length s \<Longrightarrow> path + of_nat j \<notin> next_field part"
    using part fld less.prems(8) by blast+
  note P = P [OF P']
  show ?case
  proof (cases "t = []")
    case True
    with P obtain path' k' where k': "pathparser_parse_path_part part path k = Some (0, path', k')" "grows {} k [] k'" by auto
    have "part_next (mem k') part = 0"
      using page_kept_load(2) [OF k'(2) part(1,3)] less.prems(5) by (simp add: part_next_def)
    moreover have "parse_parts_loop part path k = Some k'"
      using part(2) k'(1) by (subst parse_parts_loop.simps) (simp add: parse_parts_loop.simps)
    ultimately show ?thesis using True parts grows_mono [OF k'(2)] by (intro exI [of _ "[]"] exI [of _ k']) simp
  next
    case False
    from P obtain p q path' k1 where k1: "pathparser_parse_path_part part path k = Some (p, path', k1)" "p \<noteq> 0" "q \<noteq> 0"
      "grows (next_field part) k [p, q] k1" "part_part (mem k1) p = q" "part_next (mem k1) p = 0"
      "c_string (mem k1) q t" "kept_string k1 path' (drop (Suc (length t)) s)" "part_next (mem k1) part = p"
      "\<forall>j \<le> length s - Suc (length t). \<exists>i \<le> length s. path' + of_nat j = path + of_nat i"
      unfolding if_not_P [OF False] using part(2) by blast
    have al: "page_al p" "page_al q" and kp: "\<And>a. in_range a p 4096 \<Longrightarrow> kept k1 a" "\<And>a. in_range a q 4096 \<Longrightarrow> kept k1 a"
      and far: "\<And>a. kept k a \<Longrightarrow> \<not> in_range a p 4096"
      using grows_page(2) [OF k1(4)] grows_page(3,4) [OF k1(4)] by (simp, simp, (metis list.set_intros)+)
    have pq: "p \<noteq> q" "kwf k1" "kroom k = kroom k1 + 2" using k1(4) by (auto simp: grows_def)
    let ?s = "drop (Suc (length t)) s"
    have sl: "length ?s < length s" using False length_takeWhile_le [of "\<lambda>c. c \<noteq> 47" s] unfolding t_def [symmetric]
      by (cases t) auto
    have out: "\<not> in_range (path' + of_nat j) p 4096" if jl: "j \<le> length ?s" for j
    proof -
      obtain i where "i \<le> length s" "path' + of_nat j = path + of_nat i" using k1(10) jl by auto
      then show ?thesis using far less.prems(6) by (auto simp: kept_string_def)
    qed
    have "\<exists>ns k'. parse_parts_loop p path' k1 = Some k' \<and> grows (next_field p) k1 (node_pages ns) k' \<and>
      map (snd \<circ> snd) ns = path_parts ?s \<and> part_list (mem k') (part_next (mem k') p) ns"
      using less.prems(7,9) sl parts False pq(3)
      by (intro less.hyps [OF sl pq(2) al(1) k1(2) kp(1) k1(6) k1(8)] out) simp_all
    then obtain ns k' where k': "parse_parts_loop p path' k1 = Some k'" "grows (next_field p) k1 (node_pages ns) k'"
      "map (snd \<circ> snd) ns = path_parts ?s" "part_list (mem k') (part_next (mem k') p) ns" by blast
    have tl: "length t \<le> 105" using less.prems(7) length_takeWhile_le [of "\<lambda>c. c \<noteq> 47" s] by (simp add: t_def)
    have node: "part_list (mem k') p ((p, q, t) # ns)"
      by (rule chain_node [OF al(1) k1(2) kp(1) al(2) k1(3) kp(2) pq(1) k1(5,7) tl k'(2,4)])
    have "part_next (mem k') part = p"
    proof -
      have "a \<notin> next_field p" if "in_range a part 4096" for a
        using far [OF part(3) [OF that]] field_in_page [OF al(1)] by blast
      from page_kept_load(2) [OF k'(2) part(1) grows_kept [OF k1(4) part(3)] this]
      show ?thesis using k1(9) by (simp add: part_next_def)
    qed
    moreover have "grows (next_field part) k ([p, q] @ node_pages ns) k'"
      using far field_in_page [OF al(1)] by (intro grows_trans [OF k1(4) k'(2)]) blast
    moreover have "parse_parts_loop part path k = Some k'"
      using part(2) k1(1) k'(1) by (subst parse_parts_loop.simps) simp
    moreover have "map (snd \<circ> snd) ((p, q, t) # ns) = path_parts s" using k'(3) parts False by simp
    ultimately show ?thesis using node
      by (intro exI [of _ "(p, q, t) # ns"] exI [of _ k']) (simp only: node_pages_Cons append_Cons append_Nil simp_thms)
  qed
qed

section \<open>Parsing and freeing a whole path\<close>

definition drive_prefix :: "u8 \<Rightarrow> u8 list \<Rightarrow> u8 list" where
  "drive_prefix d s = d # 58 # 47 # s"

lemma digit_value:
  assumes "isdigit d"
  shows "0 \<le> tonumericdigit d" "tonumericdigit d \<le> 9"
  using assms by (simp_all add: isdigit_def tonumericdigit_def)

lemma valid_prefix:
  assumes "c_string m path (drive_prefix d s)" "isdigit d"
  shows "pathparser_get_drive_by_path m path = (tonumericdigit d, path + 3)"
proof -
  have "strnlen m path 108 \<ge> 3"
    using strnlen_c_string [OF assms(1), of 108] by (simp add: drive_prefix_def)
  with assms show ?thesis
    by (simp add: pathparser_get_drive_by_path_def pathparser_path_valid_format_def drive_prefix_def c_string_Cons Let_def)
qed

lemma create_root_correct:
  assumes "kwf k" "0 < kroom k"
  shows "\<exists>r k'. pathparser_create_root d k = Some (r, k') \<and> r \<noteq> 0 \<and> grows {} k [r] k' \<and>
    root_drive_no (mem k') r = word_of_int d \<and> root_first (mem k') r = 0"
proof -
  obtain r k1 where r: "kzalloc 8 k = Some (r, k1)" "r \<noteq> 0" "grows {} k [r] k1" "\<And>a. in_range a r 8 \<Longrightarrow> mem k1 a = 0"
    using grows_kzalloc [OF assms, of 8] by auto
  let ?m = "store32 (store32 (mem k1) r (word_of_int d)) (r + 4) 0"
  have al: "page_al r" and far: "\<And>a. kept k a \<Longrightarrow> \<not> in_range a r 4096"
    using grows_page [OF r(3), of r] by auto
  have "grows {} k [r] (k1\<lparr>mem := ?m\<rparr>)"
    using r(3) far node_store_frame [OF al] by (intro grows_mem) (auto simp: grows_def)
  moreover have "pathparser_create_root d k = Some (r, k1\<lparr>mem := ?m\<rparr>)"
    using r(1) by (simp add: pathparser_create_root_def)
  ultimately show ?thesis using r(2) by (auto simp: root_drive_no_def root_first_def part_next_store [OF al])
qed

lemma pathparser_parse_eq:
  assumes wf: "kwf k" and path: "kept_string k path (drive_prefix d s)" and d: "isdigit d" and len: "length s \<le> 105"
    and room: "2 * length (path_parts s) + 2 \<le> kroom k"
  shows "\<exists>r ns k'. pathparser_parse path cur k = Some (r, k') \<and> r \<noteq> 0 \<and> grows {} k (r # node_pages ns) k' \<and>
    root_drive_no (mem k') r = word_of_int (tonumericdigit d) \<and>
    part_list (mem k') (root_first (mem k') r) ns \<and> map (snd \<circ> snd) ns = path_parts s"
proof -
  let ?s = "drive_prefix d s"
  define t where "t = takeWhile (\<lambda>c. c \<noteq> 47) s"
  have parts: "path_parts s = (if t = [] then [] else t # path_parts (drop (Suc (length t)) s))"
    unfolding t_def by (rule takeWhile_parts)
  have cs: "c_string (mem k) path ?s" using path by (simp add: kept_string_def)
  have "unat (of_nat (length ?s) :: u32) = length ?s"
    using len by (intro unat_of_nat_u32) (simp add: drive_prefix_def)
  then have short: "\<not> (of_nat (length ?s) :: u32) > 108"
    using len by (simp add: word_less_unat drive_prefix_def)
  have dr: "pathparser_get_drive_by_path (mem k) path = (tonumericdigit d, path + 3)"
    using cs d by (rule valid_prefix)
  obtain r k1 where r: "pathparser_create_root (tonumericdigit d) k = Some (r, k1)" "r \<noteq> 0" "grows {} k [r] k1"
    "root_drive_no (mem k1) r = word_of_int (tonumericdigit d)" "root_first (mem k1) r = 0"
    using create_root_correct [OF wf, of "tonumericdigit d"] room by auto
  have alr: "page_al r" and farr: "\<And>a. kept k a \<Longrightarrow> \<not> in_range a r 4096" and kr: "\<And>a. in_range a r 4096 \<Longrightarrow> kept k1 a"
    using grows_page [OF r(3), of r] by auto
  have wf1: "kwf k1" and room1: "kroom k = kroom k1 + 1" using r(3) by (simp_all add: grows_def)
  have s: "kept_string k (path + 3) s"
    using kept_string_drop [OF path, of 3] by (simp add: drive_prefix_def)
  then have s1: "kept_string k1 (path + 3) s" by (rule kept_string_grows [OF _ r(3)]) simp
  have "(if t = [] then 1 else 2) \<le> kroom k1" using room room1 parts by (auto split: if_splits)
  note P = parse_path_part_correct [OF wf1 s1 len t_def this, of 0, simplified next_field_def]
  show ?thesis
  proof (cases "t = []")
    case True
    with P obtain path' k2 where k2: "pathparser_parse_path_part 0 (path + 3) k1 = Some (0, path', k2)" "grows {} k1 [] k2"
      by auto
    have "load32 (mem k2) r = load32 (mem k1) r" "load32 (mem k2) (r + 4) = load32 (mem k1) (r + 4)"
      using page_kept_load [OF k2(2) alr kr] by simp_all
    then have "root_drive_no (mem k2) r = word_of_int (tonumericdigit d)" "root_first (mem k2) r = 0"
      using r(4,5) by (simp_all add: root_drive_no_def root_first_def)
    moreover have "grows {} k ([r] @ []) k2" by (rule grows_trans [OF r(3) k2(2)]) simp
    moreover have "pathparser_parse path cur k = Some (r, k2)"
      using r(1,2) k2(1) short digit_value(1) [OF d]
      by (simp add: pathparser_parse_def strlen_c_string [OF cs] dr)
    ultimately show ?thesis using r(2) True parts by (intro exI [of _ r] exI [of _ "[]"] exI [of _ k2]) simp
  next
    case False
    with P obtain p q path' k2 where k2: "pathparser_parse_path_part 0 (path + 3) k1 = Some (p, path', k2)" "p \<noteq> 0" "q \<noteq> 0"
      "grows {} k1 [p, q] k2" "part_part (mem k2) p = q" "part_next (mem k2) p = 0"
      "c_string (mem k2) q t" "kept_string k2 path' (drop (Suc (length t)) s)"
      "\<forall>j \<le> length s - Suc (length t). \<exists>i \<le> length s. path' + of_nat j = path + 3 + of_nat i"
      by (auto simp: next_field_def)
    let ?s' = "drop (Suc (length t)) s"
    define m3 where "m3 = store32 (mem k2) (r + 4) p"
    let ?k3 = "k2\<lparr>mem := m3\<rparr>"
    have m3: "m3 a = mem k2 a" if "\<not> in_range a r 4096" for a
      using node_store_frame [OF alr that] by (simp add: m3_def)
    have g1: "grows (next_field r) k1 [p, q] ?k3"
      using next_store_frame [OF alr r(2)] by (intro grows_mem grows_mono [OF k2(4)]) (simp_all add: m3_def)
    have "grows {} k ([r] @ [p, q]) ?k3"
      using farr field_in_page [OF alr] by (intro grows_trans [OF r(3) g1]) blast
    then have g3: "grows {} k [r, p, q] ?k3" by simp
    have al: "page_al p" "page_al q" using grows_page(2) [OF g3] by simp_all
    have kp: "kept ?k3 a" if "in_range a p 4096 \<or> in_range a q 4096 \<or> in_range a r 4096" for a
      using that grows_page(4) [OF g3] by auto
    have far: "\<not> in_range a p 4096" "\<not> in_range a q 4096" if "kept k1 a" for a
      using grows_page(3) [OF k2(4) _ that] by simp_all
    have d3: "p \<noteq> q" "kwf ?k3" "kroom k = kroom ?k3 + 3" using g3 by (auto simp: grows_def)
    have tl: "length t \<le> 105" using len length_takeWhile_le [of "\<lambda>c. c \<noteq> 47" s] by (simp add: t_def)
    have pg: "load32 m3 p = load32 (mem k2) p" "load32 m3 (p + 4) = load32 (mem k2) (p + 4)"
    proof -
      have "m3 a = mem k2 a" if "in_range a p 4096" for a using m3 kr far that by blast
      note c = page_load_cong [OF this al(1)]
      show "load32 m3 p = load32 (mem k2) p" "load32 m3 (p + 4) = load32 (mem k2) (p + 4)"
        using c [where j = 0] c [where j = 1] by simp_all
    qed
    have str: "c_string m3 q t"
    proof (rule c_string_cong [OF k2(7)])
      fix i assume i: "i \<le> length t"
      have "in_range (q + of_nat i) q 4096" using page_offset [OF al(2), of i] i tl by (simp add: in_range_def)
      then show "m3 (q + of_nat i) = mem k2 (q + of_nat i)" using m3 kr far by blast
    qed
    have pth: "kept k (path' + of_nat j)" if j: "j \<le> length ?s'" for j
    proof -
      from j obtain i where "i \<le> length s" "path' + of_nat j = path + 3 + of_nat i" using k2(9) by auto
      then show ?thesis using s by (auto simp: kept_string_def)
    qed
    have s3: "kept_string ?k3 path' ?s'"
      using k2(8) c_string_cong [of "mem k2" path' ?s' m3] m3 farr pth by (simp add: kept_string_def)
    have "\<exists>ns k'. parse_parts_loop p path' ?k3 = Some k' \<and> grows (next_field p) ?k3 (node_pages ns) k' \<and>
      map (snd \<circ> snd) ns = path_parts ?s' \<and> part_list (mem k') (part_next (mem k') p) ns"
    proof (rule parse_parts_loop_correct [OF d3(2) al(1) k2(2) _ _ s3])
      show "part_next (mem ?k3) p = 0" using k2(6) pg by (simp add: part_next_def)
      show "2 * length (path_parts ?s') + 1 \<le> kroom ?k3" using room parts d3(3) False by simp
      show "\<not> in_range (path' + of_nat j) p 4096" if "j \<le> length ?s'" for j
        using far(1) [OF grows_kept [OF r(3) pth [OF that]]] .
    qed (use kp len in auto)
    then obtain ns k4 where k4: "parse_parts_loop p path' ?k3 = Some k4" "grows (next_field p) ?k3 (node_pages ns) k4"
      "map (snd \<circ> snd) ns = path_parts ?s'" "part_list (mem k4) (part_next (mem k4) p) ns" by blast
    have "part_list (mem k4) p ((p, q, t) # ns)"
      by (rule chain_node [OF al(1) k2(2) _ al(2) k2(3) _ d3(1) _ _ tl k4(2,4)])
        (use kp pg k2(5) str in \<open>auto simp: part_part_def\<close>)
    moreover have "load32 (mem k4) r = word_of_int (tonumericdigit d)" "load32 (mem k4) (r + 4) = p"
    proof -
      have "a \<notin> next_field p" if "in_range a r 4096" for a using far kr that field_in_page [OF al(1)] by blast
      note c = page_kept_load [OF k4(2) alr kp this]
      show "load32 (mem k4) (r + 4) = p" using c(2) by (simp add: m3_def)
      show "load32 (mem k4) r = word_of_int (tonumericdigit d)"
        using c(1) page_kept_load(1) [OF k2(4) alr kr] r(4) by (simp add: m3_def part_next_store [OF alr] root_drive_no_def)
    qed
    moreover have "grows {} k ([r, p, q] @ node_pages ns) k4"
      using grows_page(3) [OF g3, of p] field_in_page [OF al(1)] by (intro grows_trans [OF g3 k4(2)]) auto
    moreover have "pathparser_parse path cur k = Some (r, k4)"
    proof -
      have "(do { (part, tmp_path, k) \<leftarrow> pathparser_parse_path_part p path' ?k3; parse_parts_loop part tmp_path k }) = Some k4"
        using k4(1) k2(2) by (subst (asm) parse_parts_loop.simps) simp
      then show ?thesis
        using r(1,2) k2(1,2) short digit_value(1) [OF d]
        by (auto simp: pathparser_parse_def strlen_c_string [OF cs] dr m3_def split: Option.bind_splits)
    qed
    moreover have "map (snd \<circ> snd) ((p, q, t) # ns) = path_parts s" using k4(3) parts False by simp
    ultimately show ?thesis using r(2)
      by (intro exI [of _ r] exI [of _ "(p, q, t) # ns"] exI [of _ k4])
        (simp only: node_pages_Cons append_Cons append_Nil simp_thms root_drive_no_def root_first_def not_False_eq_True)
  qed
qed

lemma free_parts_loop_eq:
  "part_list (mem k) p ns \<Longrightarrow> free_parts_loop p k = Some (fold kfree (concat (map (\<lambda>(p, q, t). [q, p]) ns)) k)"
proof (induction ns arbitrary: p k)
  case Nil
  then show ?case by (simp add: free_parts_loop.simps)
next
  case (Cons n ns)
  obtain p' q t where n: "n = (p', q, t)" by (cases n)
  with Cons.prems have "p \<noteq> 0" "p' = p" "part_part (mem k) p = q" "part_list (mem k) (part_next (mem k) p) ns" by auto
  with Cons.IH [of "kfree p (kfree q k)"] n show ?case
    by (subst free_parts_loop.simps) (simp add: Let_def)
qed

lemma node_pages_set: "set (concat (map (\<lambda>(p, q, t). [q, p]) ns)) = set (node_pages ns)"
  by (induction ns) (auto simp: node_pages_def)

lemma node_pages_distinct: "distinct (node_pages ns) \<Longrightarrow> distinct (concat (map (\<lambda>(p, q, t). [q, p]) ns))"
proof (induction ns)
  case (Cons n ns)
  then show ?case using node_pages_set [of ns] by (cases n) auto
qed (simp add: node_pages_def)

lemma pathparser_free_grows:
  assumes wf: "kwf k" and g: "grows W k (r # node_pages ns) k'" and l: "part_list (mem k') (root_first (mem k') r) ns"
  shows "\<exists>k''. pathparser_free r k' = Some k'' \<and> grows W k [] k'' \<and> kernel_heap k'' = kernel_heap k"
proof -
  let ?qs = "concat (map (\<lambda>(p, q, t). [q, p]) ns) @ [r]"
  have d: "distinct (r # node_pages ns)" using g by (simp add: grows_def)
  have "set ?qs = set (r # node_pages ns)" "distinct ?qs"
    using node_pages_set [of ns] node_pages_distinct [of ns] d by auto
  from grows_free [OF wf g this] free_parts_loop_eq [OF l] show ?thesis by (simp add: pathparser_free_def)
qed

section \<open>Properties\<close>

text \<open>C13. \<open>pathparser_parse\<close> on a path \<^verbatim>\<open>d:/s\<close> of legal length returns a root with the drive's number
  whose list has exactly the parts of \<open>s\<close> in order, each as a zero-terminated string in a buffer of its
  own; everything it builds is fresh memory and no byte in use before the call changes.\<close>

theorem pathparser_parse_correct:
  assumes "kwf k" and "kept_string k path (drive_prefix d s)" and "isdigit d" and "length s \<le> 105"
    and "2 * length (path_parts s) + 2 \<le> kroom k"
  shows "\<exists>r ns k'. pathparser_parse path cur k = Some (r, k') \<and> r \<noteq> 0 \<and> grows {} k (r # node_pages ns) k' \<and>
    root_drive_no (mem k') r = word_of_int (tonumericdigit d) \<and>
    part_list (mem k') (root_first (mem k') r) ns \<and> map (snd \<circ> snd) ns = path_parts s"
  using assms by (rule pathparser_parse_eq)

text \<open>C30. \<open>pathparser_free\<close> gives back all that \<open>pathparser_parse\<close> allocated: after the pair the kernel
  heap is byte for byte what it was, and no byte in use before has changed.\<close>

theorem pathparser_free_parse:
  assumes "kwf k" and "kept_string k path (drive_prefix d s)" and "isdigit d" and "length s \<le> 105"
    and "2 * length (path_parts s) + 2 \<le> kroom k"
  shows "\<exists>r k' k''. pathparser_parse path cur k = Some (r, k') \<and> pathparser_free r k' = Some k'' \<and>
    kernel_heap k'' = kernel_heap k \<and> (\<forall>a. kept k a \<longrightarrow> mem k'' a = mem k a)"
proof -
  from pathparser_parse_eq [OF assms, of cur] obtain r ns k' where p: "pathparser_parse path cur k = Some (r, k')"
    "grows {} k (r # node_pages ns) k'" "part_list (mem k') (root_first (mem k') r) ns" by blast
  with pathparser_free_grows [OF assms(1) p(2,3)] show ?thesis by (auto simp: grows_def)
qed

text \<open>C31. A string that is too long or does not start with a digit, a colon and a slash is refused: the
  result is NULL and nothing changes.\<close>

theorem pathparser_parse_rejects:
  assumes "c_string (mem k) path s" and "length s < 4294967296"
    and "108 < length s \<or> (\<nexists>d t. isdigit d \<and> s = drive_prefix d t)"
  shows "pathparser_parse path cur k = Some (0, k)"
proof (cases "108 < length s")
  case True
  then have "(of_nat (length s) :: u32) > 108" using assms(2) by (simp add: word_less_unat unat_of_nat_u32)
  then show ?thesis by (simp add: pathparser_parse_def strlen_c_string [OF assms(1)])
next
  case False
  have "\<not> pathparser_path_valid_format (mem k) path"
  proof
    assume v: "pathparser_path_valid_format (mem k) path"
    then have "3 \<le> length s" using strnlen_c_string [OF assms(1), of 108]
      by (simp add: pathparser_path_valid_format_def Let_def)
    then obtain a b c t where s: "s = a # b # c # t" by (auto simp: numeral_3_eq_3 Suc_le_length_iff)
    with assms(1) v have "isdigit a" "b = 58" "c = 47"
      by (auto simp: pathparser_path_valid_format_def Let_def c_string_Cons)
    with s assms(3) False show False by (auto simp: drive_prefix_def)
  qed
  moreover have "\<not> (of_nat (length s) :: u32) > 108" using assms(2) False by (simp add: word_less_unat unat_of_nat_u32)
  ultimately show ?thesis
    by (simp add: pathparser_parse_def strlen_c_string [OF assms(1)] pathparser_get_drive_by_path_def EBADPATH_def)
qed

definition path_machine :: machine where
  "path_machine = (kheap_init machine4)\<lparr>mem :=
     (\<lambda>_. 0)(0x8000 := 48, 0x8001 := 58, 0x8002 := 47, 0x8003 := 97, 0x8004 := 47, 0x8005 := 98)\<rparr>"

lemma path_machine_facts:
  "kwf path_machine" "kroom path_machine = 25600"
  "kept_string path_machine 0x8000 (drive_prefix 48 [97, 47, 98])"
  "path_parts [97, 47, 98] = [[97], [98]]"
proof -
  show "kwf path_machine" "kroom path_machine = 25600" by (simp_all add: path_machine_def booted_machine)
  have "unat (0x8000 + of_nat j :: u32) < 16777216" if "j \<le> 6" for j
  proof -
    have "unat (0x8000 + of_nat j :: u32) = 0x8000 + j"
      using page_offset [of "0x8000" j] that by (simp add: page_al_def)
    with that show ?thesis by simp
  qed
  then show "kept_string path_machine 0x8000 (drive_prefix 48 [97, 47, 98])"
    by (simp add: kept_string_def path_machine_def booted_kept drive_prefix_def c_string_Cons)
  show "path_parts [97, 47, 98] = [[97], [98]]" by (simp add: path_parts.simps)
qed

theorem pathparser_parse_correct_witness:
  "\<exists>r ns k'. pathparser_parse 0x8000 0 path_machine = Some (r, k') \<and>
     part_list (mem k') (root_first (mem k') r) ns \<and> map (snd \<circ> snd) ns = [[97], [98]]"
proof -
  have "2 * length (path_parts [97, 47, 98]) + 2 \<le> kroom path_machine" by (simp add: path_machine_facts)
  from pathparser_parse_correct [OF path_machine_facts(1,3) _ _ this, of 0, unfolded path_machine_facts(4)]
  obtain r ns k' where "pathparser_parse 0x8000 0 path_machine = Some (r, k')"
    "part_list (mem k') (root_first (mem k') r) ns" "map (snd \<circ> snd) ns = [[97], [98]]"
    by (force simp: isdigit_def)
  then show ?thesis by (intro exI conjI)
qed

theorem pathparser_free_parse_witness:
  "\<exists>r k' k''. pathparser_parse 0x8000 0 path_machine = Some (r, k') \<and> pathparser_free r k' = Some k'' \<and>
     kernel_heap k'' = kernel_heap path_machine"
proof -
  have "2 * length (path_parts [97, 47, 98]) + 2 \<le> kroom path_machine" by (simp add: path_machine_facts)
  from pathparser_free_parse [OF path_machine_facts(1,3) _ _ this, of 0] show ?thesis
    by (auto simp: isdigit_def)
qed

theorem pathparser_parse_rejects_witness: "pathparser_parse 0x8001 0 path_machine = Some (0, path_machine)"
  by (rule pathparser_parse_rejects [where s = "[58, 47, 97, 47, 98]"])
    (auto simp: path_machine_def c_string_Cons isdigit_def drive_prefix_def)

end
