(* ===== verification/Fat16.thy ===== *)
theory Fat16
  imports Streamer Pparser
begin

text \<open>
  The FAT16 file system of \<^verbatim>\<open>src/fs/fat/fat16.c\<close>. Its structures (the boot sector copy, directories,
  directory items, open items and descriptors) are read and written in raw memory at the offsets of
  their C fields; \<^verbatim>\<open>__attribute__((packed))\<close> structures have no padding. A division by a cluster size
  of 0, which traps and never returns, is the outcome \<open>None\<close>.

  The local variables whose address is taken lie somewhere in the kernel stack: \<open>local_addr\<close> gives
  their addresses, and the theorems that need it assume that they do not overlap other data. No
  function with such a variable is active twice at a time.
\<close>

section \<open>The state\<close>

datatype local = Directory_item | Tmp_filename | Fat_entry | File_stat_buf | File_stat_bin | Print_buf | Path_buf | Kernel_args

record fs_machine = io_machine +
  addr_fat16_fs :: u32
  local_addr :: "local \<Rightarrow> u32"
  filesystems :: "u32 list"
  file_descriptors :: "u32 list"

section \<open>Structures\<close>

definition load8 :: "mem \<Rightarrow> u32 \<Rightarrow> u32" where "load8 m a = ucast (m a)"
definition load16u :: "mem \<Rightarrow> u32 \<Rightarrow> u32" where "load16u m a = ucast (load16 m a)"

text \<open>\<open>struct fat_header\<close>, at the start of \<open>struct fat_private\<close>.\<close>

definition sectors_per_cluster :: "mem \<Rightarrow> u32 \<Rightarrow> u32" where "sectors_per_cluster m p = load8 m (p + 13)"
definition reserved_sectors :: "mem \<Rightarrow> u32 \<Rightarrow> u32" where "reserved_sectors m p = load16u m (p + 14)"
definition fat_copies :: "mem \<Rightarrow> u32 \<Rightarrow> u32" where "fat_copies m p = load8 m (p + 16)"
definition root_dir_entries :: "mem \<Rightarrow> u32 \<Rightarrow> u32" where "root_dir_entries m p = load16u m (p + 17)"
definition sectors_per_fat :: "mem \<Rightarrow> u32 \<Rightarrow> u32" where "sectors_per_fat m p = load16u m (p + 22)"
definition header_signature :: "mem \<Rightarrow> u32 \<Rightarrow> u8" where "header_signature m p = m (p + 38)"

text \<open>\<open>struct fat_directory\<close>; the root directory is part of \<open>struct fat_private\<close>.\<close>

definition dir_item :: "mem \<Rightarrow> u32 \<Rightarrow> u32" where "dir_item m d = load32 m d"
definition dir_total :: "mem \<Rightarrow> u32 \<Rightarrow> u32" where "dir_total m d = load32 m (d + 4)"
definition dir_ending_sector_pos :: "mem \<Rightarrow> u32 \<Rightarrow> u32" where "dir_ending_sector_pos m d = load32 m (d + 12)"
abbreviation (input) root_directory :: "u32 \<Rightarrow> u32" where "root_directory p \<equiv> p + 64"
definition cluster_read_stream :: "mem \<Rightarrow> u32 \<Rightarrow> u32" where "cluster_read_stream m p = load32 m (p + 80)"
definition fat_read_stream :: "mem \<Rightarrow> u32 \<Rightarrow> u32" where "fat_read_stream m p = load32 m (p + 84)"
definition directory_stream :: "mem \<Rightarrow> u32 \<Rightarrow> u32" where "directory_stream m p = load32 m (p + 88)"

text \<open>\<open>struct fat_directory_item\<close>, 32 bytes.\<close>

abbreviation (input) item_ext :: "u32 \<Rightarrow> u32" where "item_ext i \<equiv> i + 8"
definition item_attributes :: "mem \<Rightarrow> u32 \<Rightarrow> u8" where "item_attributes m i = m (i + 11)"
definition item_high_cluster :: "mem \<Rightarrow> u32 \<Rightarrow> u16" where "item_high_cluster m i = load16 m (i + 20)"
definition item_low_cluster :: "mem \<Rightarrow> u32 \<Rightarrow> u16" where "item_low_cluster m i = load16 m (i + 26)"
definition item_file_size :: "mem \<Rightarrow> u32 \<Rightarrow> u32" where "item_file_size m i = load32 m (i + 28)"

text \<open>\<open>struct fat_item\<close> and \<open>struct fat_file_descriptor\<close>.\<close>

definition fitem_ptr :: "mem \<Rightarrow> u32 \<Rightarrow> u32" where "fitem_ptr m f = load32 m f"
definition fitem_type :: "mem \<Rightarrow> u32 \<Rightarrow> u32" where "fitem_type m f = load32 m (f + 4)"
definition fdesc_item :: "mem \<Rightarrow> u32 \<Rightarrow> u32" where "fdesc_item m d = load32 m d"
definition fdesc_pos :: "mem \<Rightarrow> u32 \<Rightarrow> u32" where "fdesc_pos m d = load32 m (d + 4)"

abbreviation (input) PEACHOS_FAT16_SIGNATURE :: u8 where "PEACHOS_FAT16_SIGNATURE \<equiv> 0x29"
abbreviation (input) PEACHOS_FAT16_FAT_ENTRY_SIZE :: u32 where "PEACHOS_FAT16_FAT_ENTRY_SIZE \<equiv> 2"
abbreviation (input) PEACHOS_FAT16_BAD_SECTOR :: int where "PEACHOS_FAT16_BAD_SECTOR \<equiv> 0xFF7"
abbreviation (input) FAT_ITEM_TYPE_DIRECTORY :: u32 where "FAT_ITEM_TYPE_DIRECTORY \<equiv> 0"
abbreviation (input) FAT_ITEM_TYPE_FILE :: u32 where "FAT_ITEM_TYPE_FILE \<equiv> 1"
abbreviation (input) FAT_FILE_READ_ONLY :: u8 where "FAT_FILE_READ_ONLY \<equiv> 0x01"
abbreviation (input) FAT_FILE_SUBDIRECTORY :: u8 where "FAT_FILE_SUBDIRECTORY \<equiv> 0x10"

section \<open>Mounting\<close>

definition fat16_init :: "'a fs_machine_scheme \<Rightarrow> u32 \<times> 'a fs_machine_scheme" where
  "fat16_init k = (addr_fat16_fs k, k\<lparr>mem := copy_out (addr_fat16_fs k + 24) (chars ''FAT16'' @ [0]) (mem k)\<rparr>)"

definition fat16_init_private :: "u32 \<Rightarrow> u32 \<Rightarrow> 'a fs_machine_scheme \<Rightarrow> 'a fs_machine_scheme option" where
  "fat16_init_private disk private k = do {
     let k = k\<lparr>mem := memset (mem k) private 0 92\<rparr>;
     (s, k) \<leftarrow> diskstreamer_new (disk_id (mem k) disk) k;
     let k = k\<lparr>mem := store32 (mem k) (private + 80) s\<rparr>;
     (s, k) \<leftarrow> diskstreamer_new (disk_id (mem k) disk) k;
     let k = k\<lparr>mem := store32 (mem k) (private + 84) s\<rparr>;
     (s, k) \<leftarrow> diskstreamer_new (disk_id (mem k) disk) k;
     Some (k\<lparr>mem := store32 (mem k) (private + 88) s\<rparr>)
   }"

partial_function (option) total_items_loop ::
  "u32 \<Rightarrow> int \<Rightarrow> 'a fs_machine_scheme \<Rightarrow> (int \<times> 'a fs_machine_scheme) option" where
  "total_items_loop stream i k = do {
     let item = local_addr k Directory_item;
     (res, k) \<leftarrow> diskstreamer_read stream item 32 k;
     if res \<noteq> 0 then Some (- EIO, k)
     else if mem k item = 0 then Some (i, k)
     else if mem k item = 0xE5 then total_items_loop stream i k
     else total_items_loop stream (i + 1) k
   }"

definition fat16_get_total_items_for_directory ::
  "u32 \<Rightarrow> u32 \<Rightarrow> 'a fs_machine_scheme \<Rightarrow> (int \<times> 'a fs_machine_scheme) option" where
  "fat16_get_total_items_for_directory disk dir_start_sector k =
     (let private = disk_fs_private (mem k) disk;
          directory_start_pos = dir_start_sector * disk_sector_size (mem k) disk;
          stream = directory_stream (mem k) private;
          (res, k) = diskstreamer_seek stream (sint directory_start_pos) k
      in if res \<noteq> PEACHOS_ALL_OK then Some (- EIO, k) else total_items_loop stream 0 k)"

definition fat16_get_root_directory ::
  "u32 \<Rightarrow> u32 \<Rightarrow> 'a fs_machine_scheme \<Rightarrow> (int \<times> 'a fs_machine_scheme) option" where
  "fat16_get_root_directory disk private k = do {
     let directory = root_directory private;
     let root_dir_sector_pos = fat_copies (mem k) private * sectors_per_fat (mem k) private + reserved_sectors (mem k) private;
     let root_dir_size = root_dir_entries (mem k) private * 32;
     if disk_sector_size (mem k) disk = 0 then None
     else do {
       (total_items, k) \<leftarrow> fat16_get_total_items_for_directory disk root_dir_sector_pos k;
       if total_items < 0 then Some (total_items, k)
       else do {
         (dir, k) \<leftarrow> kzalloc root_dir_size k;
         if dir = 0 then Some (- ENOMEM, k)
         else do {
           (stream, k) \<leftarrow> diskstreamer_new (disk_id (mem k) disk) k;
           let (res, k) = diskstreamer_seek stream (sint (root_dir_sector_pos * disk_sector_size (mem k) disk)) k;
           if res \<noteq> PEACHOS_ALL_OK then Some (- EIO, k)
           else do {
             (res, k) \<leftarrow> diskstreamer_read stream dir (sint root_dir_size) k;
             if res \<noteq> PEACHOS_ALL_OK then Some (- EIO, k)
             else let m = store32 (mem k) directory dir;
                      m = store32 m (directory + 4) (word_of_int total_items);
                      m = store32 m (directory + 8) root_dir_sector_pos;
                      m = store32 m (directory + 12)
                            (root_dir_sector_pos + word_of_int (sint root_dir_size sdiv sint (disk_sector_size m disk)))
                  in Some (0, k\<lparr>mem := m\<rparr>)
           }
         }
       }
     }
   }"

definition fat16_resolve :: "u32 \<Rightarrow> 'a fs_machine_scheme \<Rightarrow> (int \<times> 'a fs_machine_scheme) option" where
  "fat16_resolve disk k = do {
     (fat_private, k) \<leftarrow> kzalloc 92 k;
     k \<leftarrow> fat16_init_private disk fat_private k;
     let k = k\<lparr>mem := store32 (mem k) (disk + 16) fat_private\<rparr>;
     let k = k\<lparr>mem := store32 (mem k) (disk + 12) (addr_fat16_fs k)\<rparr>;
     (stream, k) \<leftarrow> diskstreamer_new (disk_id (mem k) disk) k;
     (res, k) \<leftarrow>
       (if stream = 0 then Some (- ENOMEM, k)
        else do {
          (r, k) \<leftarrow> diskstreamer_read stream fat_private 62 k;
          if r \<noteq> PEACHOS_ALL_OK then Some (- EIO, k)
          else if header_signature (mem k) fat_private \<noteq> PEACHOS_FAT16_SIGNATURE then Some (- EFSNOTUS, k)
          else do {
            (r, k) \<leftarrow> fat16_get_root_directory disk fat_private k;
            if r \<noteq> PEACHOS_ALL_OK then Some (- EIO, k) else Some (0, k)
          }
        });
     let k = (if stream \<noteq> 0 then diskstreamer_close stream k else k);
     if res < 0
     then let k = kfree fat_private k in Some (res, k\<lparr>mem := store32 (mem k) (disk + 16) 0\<rparr>)
     else Some (res, k)
   }"

section \<open>Names and clusters\<close>

partial_function (option) proper_string_loop :: "mem \<Rightarrow> u32 \<Rightarrow> u32 \<Rightarrow> (mem \<times> u32 \<times> u32) option" where
  "proper_string_loop m out inp =
     (if m inp \<noteq> 0x00 \<and> m inp \<noteq> 0x20 then proper_string_loop (m(out := m inp)) (out + 1) (inp + 1)
      else Some (m, out, inp))"

definition fat16_to_propper_string :: "mem \<Rightarrow> u32 \<Rightarrow> u32 \<Rightarrow> (mem \<times> u32) option" where
  "fat16_to_propper_string m out inp = do {
     (m, out, inp) \<leftarrow> proper_string_loop m out inp;
     Some (if m inp = 0x20 then m(out := 0x00) else m, out)
   }"

definition fat16_get_full_relative_filename :: "u32 \<Rightarrow> u32 \<Rightarrow> u32 \<Rightarrow> mem \<Rightarrow> mem option" where
  "fat16_get_full_relative_filename item out max_len m = do {
     let m = memset m out 0x00 max_len;
     (m, out_tmp) \<leftarrow> fat16_to_propper_string m out item;
     if m (item_ext item) \<noteq> 0x00 \<and> m (item_ext item) \<noteq> 0x20
     then do {
       let m = m(out_tmp := 46);
       (m, out_tmp) \<leftarrow> fat16_to_propper_string m (out_tmp + 1) (item_ext item);
       Some m
     }
     else Some m
   }"

definition fat16_clone_directory_item ::
  "u32 \<Rightarrow> u32 \<Rightarrow> 'a fs_machine_scheme \<Rightarrow> (u32 \<times> 'a fs_machine_scheme) option" where
  "fat16_clone_directory_item item sz k =
     (if sz < 32 then Some (0, k)
      else do {
        (item_copy, k) \<leftarrow> kzalloc sz k;
        if item_copy = 0 then Some (0, k)
        else Some (item_copy, k\<lparr>mem := memcpy (mem k) item_copy item sz\<rparr>)
      })"

definition fat16_get_first_cluster :: "mem \<Rightarrow> u32 \<Rightarrow> u32" where
  "fat16_get_first_cluster m item = push_bit 16 (ucast (item_high_cluster m item)) OR ucast (item_low_cluster m item)"

definition fat16_cluster_to_sector :: "mem \<Rightarrow> u32 \<Rightarrow> u32 \<Rightarrow> u32" where
  "fat16_cluster_to_sector m private cluster =
     dir_ending_sector_pos m (root_directory private) + (cluster - 2) * sectors_per_cluster m private"

definition fat16_get_first_fat_sector :: "mem \<Rightarrow> u32 \<Rightarrow> u32" where
  "fat16_get_first_fat_sector m private = reserved_sectors m private"

definition fat16_get_fat_entry ::
  "u32 \<Rightarrow> u32 \<Rightarrow> 'a fs_machine_scheme \<Rightarrow> (int \<times> 'a fs_machine_scheme) option" where
  "fat16_get_fat_entry disk cluster k =
     (let private = disk_fs_private (mem k) disk;
          stream = fat_read_stream (mem k) private
      in if stream = 0 then Some (- 1, k)
         else let fat_table_pos = fat16_get_first_fat_sector (mem k) private * disk_sector_size (mem k) disk;
                  (res, k) = diskstreamer_seek stream (sint (fat_table_pos * cluster * PEACHOS_FAT16_FAT_ENTRY_SIZE)) k
              in if res < 0 then Some (res, k)
                 else let result = local_addr k Fat_entry;
                          k = k\<lparr>mem := (mem k)(result := 0, result + 1 := 0)\<rparr>
                      in do {
                        (res, k) \<leftarrow> diskstreamer_read stream result 2 k;
                        if res < 0 then Some (res, k) else Some (uint (load16 (mem k) result), k)
                      })"

text \<open>The entries that end or spoil a chain, as the code lists them.\<close>

definition bad_entry :: "int \<Rightarrow> bool" where
  "bad_entry entry \<longleftrightarrow> entry = 0xFF8 \<or> entry = 0xFFF \<or> entry = PEACHOS_FAT16_BAD_SECTOR \<or>
     entry = 0xFF0 \<or> entry = 0xFF6 \<or> entry = 0x00"

fun cluster_loop :: "u32 \<Rightarrow> int \<Rightarrow> nat \<Rightarrow> 'a fs_machine_scheme \<Rightarrow> (int \<times> 'a fs_machine_scheme) option" where
  "cluster_loop disk cluster_to_use 0 k = Some (cluster_to_use, k)"
| "cluster_loop disk cluster_to_use (Suc n) k = do {
     (entry, k) \<leftarrow> fat16_get_fat_entry disk (word_of_int cluster_to_use) k;
     if bad_entry entry then Some (- EIO, k) else cluster_loop disk entry n k
   }"

definition size_of_cluster_bytes :: "u32 \<Rightarrow> mem \<Rightarrow> int" where
  "size_of_cluster_bytes disk m = sint (sectors_per_cluster m (disk_fs_private m disk) * disk_sector_size m disk)"

definition fat16_get_cluster_for_offset ::
  "u32 \<Rightarrow> int \<Rightarrow> int \<Rightarrow> 'a fs_machine_scheme \<Rightarrow> (int \<times> 'a fs_machine_scheme) option" where
  "fat16_get_cluster_for_offset disk starting_cluster offset k =
     (if size_of_cluster_bytes disk (mem k) = 0 then None
      else cluster_loop disk starting_cluster (nat (offset sdiv size_of_cluster_bytes disk (mem k))) k)"

partial_function (option) fat_16_read_internal_from_stream ::
  "u32 \<Rightarrow> u32 \<Rightarrow> int \<Rightarrow> int \<Rightarrow> int \<Rightarrow> u32 \<Rightarrow> 'a fs_machine_scheme \<Rightarrow> (int \<times> 'a fs_machine_scheme) option" where
  "fat_16_read_internal_from_stream disk stream cluster offset tot out k = do {
     let private = disk_fs_private (mem k) disk;
     let cluster_bytes = size_of_cluster_bytes disk (mem k);
     (cluster_to_use, k) \<leftarrow> fat16_get_cluster_for_offset disk cluster offset k;
     if cluster_to_use < 0 then Some (cluster_to_use, k)
     else do {
       let offset_from_cluster = offset smod cluster_bytes;
       let starting_sector = fat16_cluster_to_sector (mem k) private (word_of_int cluster_to_use);
       let starting_pos = starting_sector * disk_sector_size (mem k) disk + word_of_int offset_from_cluster;
       let total_to_read = (if tot > cluster_bytes then cluster_bytes else tot);
       let (res, k) = diskstreamer_seek stream (sint starting_pos) k;
       if res \<noteq> PEACHOS_ALL_OK then Some (res, k)
       else do {
         (res, k) \<leftarrow> diskstreamer_read stream out total_to_read k;
         if res \<noteq> PEACHOS_ALL_OK then Some (res, k)
         else if tot - total_to_read > 0
         then fat_16_read_internal_from_stream disk stream cluster (offset + total_to_read) (tot - total_to_read)
                (out + word_of_int total_to_read) k
         else Some (res, k)
       }
     }
   }"

definition fat16_read_internal ::
  "u32 \<Rightarrow> int \<Rightarrow> int \<Rightarrow> int \<Rightarrow> u32 \<Rightarrow> 'a fs_machine_scheme \<Rightarrow> (int \<times> 'a fs_machine_scheme) option" where
  "fat16_read_internal disk starting_cluster offset tot out k =
     fat_16_read_internal_from_stream disk (cluster_read_stream (mem k) (disk_fs_private (mem k) disk))
       starting_cluster offset tot out k"

section \<open>Directories and items\<close>

definition fat_16_free_directory :: "u32 \<Rightarrow> 'a fs_machine_scheme \<Rightarrow> 'a fs_machine_scheme" where
  "fat_16_free_directory directory k =
     (if directory = 0 then k
      else let k = (if dir_item (mem k) directory \<noteq> 0 then kfree (dir_item (mem k) directory) k else k)
           in kfree directory k)"

definition fat16_fat_item_free :: "u32 \<Rightarrow> 'a fs_machine_scheme \<Rightarrow> 'a fs_machine_scheme" where
  "fat16_fat_item_free item k =
     (let k = (if fitem_type (mem k) item = FAT_ITEM_TYPE_DIRECTORY then fat_16_free_directory (fitem_ptr (mem k) item) k
               else if fitem_type (mem k) item = FAT_ITEM_TYPE_FILE then kfree (fitem_ptr (mem k) item) k
               else k)
      in kfree item k)"

text \<open>On an error after the directory was allocated it is freed, and its address returned all the
  same.\<close>

definition fat16_load_fat_directory :: "u32 \<Rightarrow> u32 \<Rightarrow> 'a fs_machine_scheme \<Rightarrow> (u32 \<times> 'a fs_machine_scheme) option" where
  "fat16_load_fat_directory disk item k =
     (let fat_private = disk_fs_private (mem k) disk
      in if item_attributes (mem k) item AND FAT_FILE_SUBDIRECTORY = 0 then Some (0, k)
         else do {
           (directory, k) \<leftarrow> kzalloc 16 k;
           if directory = 0 then Some (0, k)
           else do {
             let cluster = fat16_get_first_cluster (mem k) item;
             let cluster_sector = fat16_cluster_to_sector (mem k) fat_private cluster;
             (total_item, k) \<leftarrow> fat16_get_total_items_for_directory disk cluster_sector k;
             let k = k\<lparr>mem := store32 (mem k) (directory + 4) (word_of_int total_item)\<rparr>;
             let directory_size = dir_total (mem k) directory * 32;
             (items, k) \<leftarrow> kzalloc directory_size k;
             let k = k\<lparr>mem := store32 (mem k) directory items\<rparr>;
             if items = 0 then Some (directory, fat_16_free_directory directory k)
             else do {
               (res, k) \<leftarrow> fat16_read_internal disk (sint cluster) 0x00 (sint directory_size) items k;
               if res \<noteq> PEACHOS_ALL_OK then Some (directory, fat_16_free_directory directory k)
               else Some (directory, k)
             }
           }
         })"

definition fat16_new_fat_item_for_directory_item ::
  "u32 \<Rightarrow> u32 \<Rightarrow> 'a fs_machine_scheme \<Rightarrow> (u32 \<times> 'a fs_machine_scheme) option" where
  "fat16_new_fat_item_for_directory_item disk item k = do {
     (f_item, k) \<leftarrow> kzalloc 8 k;
     if f_item = 0 then Some (0, k)
     else if item_attributes (mem k) item AND FAT_FILE_SUBDIRECTORY \<noteq> 0
     then do {
       (directory, k) \<leftarrow> fat16_load_fat_directory disk item k;
       let m = store32 (mem k) f_item directory;
       let m = store32 m (f_item + 4) FAT_ITEM_TYPE_DIRECTORY;
       Some (f_item, k\<lparr>mem := m\<rparr>)
     }
     else do {
       let k = k\<lparr>mem := store32 (mem k) (f_item + 4) FAT_ITEM_TYPE_FILE\<rparr>;
       (copy, k) \<leftarrow> fat16_clone_directory_item item 32 k;
       Some (f_item, k\<lparr>mem := store32 (mem k) f_item copy\<rparr>)
     }
   }"

text \<open>The loop does not stop at the first match: the last one is returned.\<close>

fun find_item_loop ::
  "u32 \<Rightarrow> u32 \<Rightarrow> u32 \<Rightarrow> u32 \<Rightarrow> nat \<Rightarrow> u32 \<Rightarrow> 'a fs_machine_scheme \<Rightarrow> (u32 \<times> 'a fs_machine_scheme) option" where
  "find_item_loop disk directory name i 0 f_item k = Some (f_item, k)"
| "find_item_loop disk directory name i (Suc n) f_item k = do {
     let tmp_filename = local_addr k Tmp_filename;
     let item = dir_item (mem k) directory + i * 32;
     m \<leftarrow> fat16_get_full_relative_filename item tmp_filename PEACHOS_MAX_PATH (mem k);
     let k = k\<lparr>mem := m\<rparr>;
     if istrncmp (mem k) tmp_filename name 108 = 0
     then do {
       (f_item, k) \<leftarrow> fat16_new_fat_item_for_directory_item disk (dir_item (mem k) directory + i * 32) k;
       find_item_loop disk directory name (i + 1) n f_item k
     }
     else find_item_loop disk directory name (i + 1) n f_item k
   }"

definition fat16_find_item_in_directory ::
  "u32 \<Rightarrow> u32 \<Rightarrow> u32 \<Rightarrow> 'a fs_machine_scheme \<Rightarrow> (u32 \<times> 'a fs_machine_scheme) option" where
  "fat16_find_item_in_directory disk directory name k =
     find_item_loop disk directory name 0 (nat (sint (dir_total (mem k) directory))) 0 k"

partial_function (option) directory_entry_loop ::
  "u32 \<Rightarrow> u32 \<Rightarrow> u32 \<Rightarrow> 'a fs_machine_scheme \<Rightarrow> (u32 \<times> 'a fs_machine_scheme) option" where
  "directory_entry_loop disk current_item nxt k =
     (if nxt = 0 then Some (current_item, k)
      else if fitem_type (mem k) current_item \<noteq> FAT_ITEM_TYPE_DIRECTORY then Some (0, k)
      else do {
        (tmp_item, k) \<leftarrow> fat16_find_item_in_directory disk (fitem_ptr (mem k) current_item) (part_part (mem k) nxt) k;
        let k = fat16_fat_item_free current_item k;
        directory_entry_loop disk tmp_item (part_next (mem k) nxt) k
      })"

definition fat16_get_directory_entry ::
  "u32 \<Rightarrow> u32 \<Rightarrow> 'a fs_machine_scheme \<Rightarrow> (u32 \<times> 'a fs_machine_scheme) option" where
  "fat16_get_directory_entry disk path k = do {
     let fat_private = disk_fs_private (mem k) disk;
     (root_item, k) \<leftarrow> fat16_find_item_in_directory disk (root_directory fat_private) (part_part (mem k) path) k;
     if root_item = 0 then Some (0, k)
     else directory_entry_loop disk root_item (part_next (mem k) path) k
   }"

section \<open>The operations of the file system\<close>

abbreviation (input) FILE_MODE_READ :: u32 where "FILE_MODE_READ \<equiv> 0"
abbreviation (input) FILE_MODE_WRITE :: u32 where "FILE_MODE_WRITE \<equiv> 1"
abbreviation (input) FILE_MODE_APPEND :: u32 where "FILE_MODE_APPEND \<equiv> 2"
abbreviation (input) FILE_MODE_INVALID :: u32 where "FILE_MODE_INVALID \<equiv> 3"
abbreviation (input) SEEK_SET :: u32 where "SEEK_SET \<equiv> 0"
abbreviation (input) SEEK_CURR :: u32 where "SEEK_CURR \<equiv> 1"
abbreviation (input) SEEK_END :: u32 where "SEEK_END \<equiv> 2"
abbreviation (input) FILE_STAT_READ_ONLY :: u32 where "FILE_STAT_READ_ONLY \<equiv> 1"

text \<open>\<open>struct file_stat\<close>: the flags, then the size.\<close>

definition stat_flags :: "mem \<Rightarrow> u32 \<Rightarrow> u32" where "stat_flags m s = load32 m s"
definition stat_file_size :: "mem \<Rightarrow> u32 \<Rightarrow> u32" where "stat_file_size m s = load32 m (s + 4)"

definition fat16_open :: "u32 \<Rightarrow> u32 \<Rightarrow> u32 \<Rightarrow> 'a fs_machine_scheme \<Rightarrow> (u32 \<times> 'a fs_machine_scheme) option" where
  "fat16_open disk path mode k =
     (if mode \<noteq> FILE_MODE_READ then Some (ERROR (- ERDONLY), k)
      else do {
        (descriptor, k) \<leftarrow> kzalloc 8 k;
        if descriptor = 0 then Some (ERROR (- ENOMEM), k)
        else do {
          (item, k) \<leftarrow> fat16_get_directory_entry disk path k;
          let k = k\<lparr>mem := store32 (mem k) descriptor item\<rparr>;
          if item = 0 then Some (ERROR (- EIO), k)
          else Some (descriptor, k\<lparr>mem := store32 (mem k) (descriptor + 4) 0\<rparr>)
        }
      })"

definition fat16_free_file_descriptor :: "u32 \<Rightarrow> 'a fs_machine_scheme \<Rightarrow> 'a fs_machine_scheme" where
  "fat16_free_file_descriptor desc k = kfree desc (fat16_fat_item_free (fdesc_item (mem k) desc) k)"

definition fat16_close :: "u32 \<Rightarrow> 'a fs_machine_scheme \<Rightarrow> int \<times> 'a fs_machine_scheme" where
  "fat16_close private k = (0, fat16_free_file_descriptor private k)"

definition fat16_stat :: "u32 \<Rightarrow> u32 \<Rightarrow> u32 \<Rightarrow> mem \<Rightarrow> int \<times> mem" where
  "fat16_stat disk private stat m =
     (if fitem_type m (fdesc_item m private) \<noteq> FAT_ITEM_TYPE_FILE then (- EINVARG, m)
      else let ritem = fitem_ptr m (fdesc_item m private);
               m = store32 m (stat + 4) (item_file_size m ritem);
               m = store32 m stat 0x00
           in if item_attributes m ritem AND FAT_FILE_READ_ONLY \<noteq> 0
              then (0, store32 m stat (stat_flags m stat OR FILE_STAT_READ_ONLY)) else (0, m))"

fun fat16_read_loop ::
  "u32 \<Rightarrow> u32 \<Rightarrow> u32 \<Rightarrow> u32 \<Rightarrow> u32 \<Rightarrow> nat \<Rightarrow> 'a fs_machine_scheme \<Rightarrow> (int option \<times> 'a fs_machine_scheme) option" where
  "fat16_read_loop disk item offset sz out_ptr 0 k = Some (None, k)"
| "fat16_read_loop disk item offset sz out_ptr (Suc n) k = do {
     (res, k) \<leftarrow> fat16_read_internal disk (sint (fat16_get_first_cluster (mem k) item)) (sint offset) (sint sz) out_ptr k;
     if ISERR res then Some (Some res, k)
     else fat16_read_loop disk item (offset + sz) sz (out_ptr + sz) n k
   }"

text \<open>The position of the descriptor is not advanced.\<close>

definition fat16_read ::
  "u32 \<Rightarrow> u32 \<Rightarrow> u32 \<Rightarrow> u32 \<Rightarrow> u32 \<Rightarrow> 'a fs_machine_scheme \<Rightarrow> (int \<times> 'a fs_machine_scheme) option" where
  "fat16_read disk descriptor sz nmemb out_ptr k = do {
     let item = fitem_ptr (mem k) (fdesc_item (mem k) descriptor);
     let offset = fdesc_pos (mem k) descriptor;
     (err, k) \<leftarrow> fat16_read_loop disk item offset sz out_ptr (unat nmemb) k;
     Some (case err of Some res \<Rightarrow> res | None \<Rightarrow> sint nmemb, k)
   }"

definition fat16_seek :: "u32 \<Rightarrow> u32 \<Rightarrow> u32 \<Rightarrow> mem \<Rightarrow> int \<times> mem" where
  "fat16_seek private offset seek_mode m =
     (let desc_item = fdesc_item m private
      in if fitem_type m desc_item \<noteq> FAT_ITEM_TYPE_FILE then (- EINVARG, m)
         else let ritem = fitem_ptr m desc_item
              in if offset \<ge> item_file_size m ritem then (- EIO, m)
                 else if seek_mode = SEEK_SET then (0, store32 m (private + 4) offset)
                 else if seek_mode = SEEK_END then (EUNIMP, m)
                 else if seek_mode = SEEK_CURR then (0, store32 m (private + 4) (fdesc_pos m private + offset))
                 else (- EINVARG, m))"

end
