(* ===== verification/File.thy ===== *)
theory File
  imports Fat16
begin

text \<open>
  The file layer of \<^verbatim>\<open>src/fs/file.c\<close>: the table of file systems, the table of open files, and the
  calls \<open>fopen\<close>, \<open>fread\<close>, \<open>fseek\<close>, \<open>fstat\<close>, \<open>fclose\<close>, with \<open>disk_search_and_init\<close> of \<^verbatim>\<open>src/disk/disk.c\<close>,
  which mounts the disk. The function pointers of a \<open>struct filesystem\<close> are constants of the program:
  a call through them runs the FAT16 operation when the structure is \<open>fat16_fs\<close>, and is the outcome
  \<open>None\<close> for any other address. The two tables are lists; an access outside them is \<open>None\<close> as well.
\<close>

section \<open>The code\<close>

abbreviation (input) PEACHOS_MAX_FILESYSTEMS :: nat where "PEACHOS_MAX_FILESYSTEMS \<equiv> 12"
abbreviation (input) PEACHOS_MAX_FILE_DESCRIPTORS :: nat where "PEACHOS_MAX_FILE_DESCRIPTORS \<equiv> 512"

text \<open>\<open>struct file_descriptor\<close>, 16 bytes.\<close>

definition desc_index :: "mem \<Rightarrow> u32 \<Rightarrow> u32" where "desc_index m d = load32 m d"
definition desc_filesystem :: "mem \<Rightarrow> u32 \<Rightarrow> u32" where "desc_filesystem m d = load32 m (d + 4)"
definition desc_private :: "mem \<Rightarrow> u32 \<Rightarrow> u32" where "desc_private m d = load32 m (d + 8)"
definition desc_disk :: "mem \<Rightarrow> u32 \<Rightarrow> u32" where "desc_disk m d = load32 m (d + 12)"

definition is_fat16 :: "u32 \<Rightarrow> 'a fs_machine_scheme \<Rightarrow> bool" where
  "is_fat16 fs k \<longleftrightarrow> fs = addr_fat16_fs k"

text \<open>The position of the first free entry of a table of pointers.\<close>

fun first_null :: "u32 list \<Rightarrow> nat option" where
  "first_null [] = None"
| "first_null (x # xs) = (if x = 0 then Some 0 else map_option Suc (first_null xs))"

definition fs_get_free_file_system :: "'a fs_machine_scheme \<Rightarrow> nat option" where
  "fs_get_free_file_system k = first_null (filesystems k)"

definition fs_insert_filesystem :: "u32 \<Rightarrow> 'a fs_machine_scheme \<Rightarrow> 'a fs_machine_scheme option" where
  "fs_insert_filesystem filesystem k =
     (case fs_get_free_file_system k of None \<Rightarrow> None
      | Some i \<Rightarrow> Some (k\<lparr>filesystems := (filesystems k)[i := filesystem]\<rparr>))"

definition fs_static_load :: "'a fs_machine_scheme \<Rightarrow> 'a fs_machine_scheme option" where
  "fs_static_load k = (let (fs, k) = fat16_init k in fs_insert_filesystem fs k)"

definition fs_load :: "'a fs_machine_scheme \<Rightarrow> 'a fs_machine_scheme option" where
  "fs_load k = fs_static_load (k\<lparr>filesystems := replicate PEACHOS_MAX_FILESYSTEMS 0\<rparr>)"

definition fs_init :: "'a fs_machine_scheme \<Rightarrow> 'a fs_machine_scheme option" where
  "fs_init k = fs_load (k\<lparr>file_descriptors := replicate PEACHOS_MAX_FILE_DESCRIPTORS 0\<rparr>)"

definition file_free_descriptor :: "u32 \<Rightarrow> 'a fs_machine_scheme \<Rightarrow> 'a fs_machine_scheme option" where
  "file_free_descriptor desc k =
     (let i = sint (desc_index (mem k) desc) - 1
      in if 0 \<le> i \<and> nat i < length (file_descriptors k)
         then Some (kfree desc (k\<lparr>file_descriptors := (file_descriptors k)[nat i := 0]\<rparr>))
         else None)"

definition file_new_descriptor :: "'a fs_machine_scheme \<Rightarrow> (int \<times> u32 \<times> 'a fs_machine_scheme) option" where
  "file_new_descriptor k =
     (case first_null (file_descriptors k) of
        None \<Rightarrow> Some (- ENOMEM, 0, k)
      | Some i \<Rightarrow> do {
          (desc, k) \<leftarrow> kzalloc 16 k;
          let k = k\<lparr>mem := store32 (mem k) desc (of_nat (i + 1))\<rparr>;
          Some (0, desc, k\<lparr>file_descriptors := (file_descriptors k)[i := desc]\<rparr>)
        })"

definition file_get_descriptor :: "int \<Rightarrow> 'a fs_machine_scheme \<Rightarrow> u32" where
  "file_get_descriptor fd k =
     (if fd \<le> 0 \<or> fd \<ge> int PEACHOS_MAX_FILE_DESCRIPTORS then 0 else file_descriptors k ! nat (fd - 1))"

fun fs_resolve_loop :: "u32 \<Rightarrow> u32 list \<Rightarrow> 'a fs_machine_scheme \<Rightarrow> (u32 \<times> 'a fs_machine_scheme) option" where
  "fs_resolve_loop disk [] k = Some (0, k)"
| "fs_resolve_loop disk (fs # rest) k =
     (if fs = 0 then fs_resolve_loop disk rest k
      else if \<not> is_fat16 fs k then None
      else do {
        (res, k) \<leftarrow> fat16_resolve disk k;
        if res = 0 then Some (fs, k) else fs_resolve_loop disk rest k
      })"

definition fs_resolve :: "u32 \<Rightarrow> 'a fs_machine_scheme \<Rightarrow> (u32 \<times> 'a fs_machine_scheme) option" where
  "fs_resolve disk k = fs_resolve_loop disk (filesystems k) k"

text \<open>\<open>strncmp\<close> of one character against a one-letter literal.\<close>

definition file_get_mode_by_string :: "mem \<Rightarrow> u32 \<Rightarrow> u32" where
  "file_get_mode_by_string m str =
     (if m str = 114 then FILE_MODE_READ else if m str = 119 then FILE_MODE_WRITE
      else if m str = 97 then FILE_MODE_APPEND else FILE_MODE_INVALID)"

text \<open>The body of \<open>fopen\<close> up to the label \<open>out\<close>.\<close>

definition fopen_body :: "u32 \<Rightarrow> u32 \<Rightarrow> 'a fs_machine_scheme \<Rightarrow> (int \<times> 'a fs_machine_scheme) option" where
  "fopen_body filename mode_str k = do {
     (root_path, k) \<leftarrow> pathparser_parse filename 0 k;
     if root_path = 0 then Some (- EINVARG, k)
     else if root_first (mem k) root_path = 0 then Some (- EINVARG, k)
     else let disk = disk_get (root_drive_no (mem k) root_path) k in
       if disk = 0 then Some (- EIO, k)
       else if disk_filesystem (mem k) disk = 0 then Some (- EIO, k)
       else let mode = file_get_mode_by_string (mem k) mode_str in
         if mode = FILE_MODE_INVALID then Some (- EINVARG, k)
         else if \<not> is_fat16 (disk_filesystem (mem k) disk) k then None
         else do {
           (private, k) \<leftarrow> fat16_open disk (root_first (mem k) root_path) mode k;
           if ISERR (ERROR_I private) then Some (ERROR_I private, k)
           else do {
             (res, desc, k) \<leftarrow> file_new_descriptor k;
             if res < 0 then Some (res, k)
             else let m = store32 (mem k) (desc + 4) (disk_filesystem (mem k) disk);
                      m = store32 m (desc + 8) private;
                      m = store32 m (desc + 12) disk
                  in Some (sint (desc_index m desc), k\<lparr>mem := m\<rparr>)
           }
         }
   }"

definition fopen :: "u32 \<Rightarrow> u32 \<Rightarrow> 'a fs_machine_scheme \<Rightarrow> (int \<times> 'a fs_machine_scheme) option" where
  "fopen filename mode_str k = do {
     (res, k) \<leftarrow> fopen_body filename mode_str k;
     Some (if res < 0 then 0 else res, k)
   }"

definition fstat :: "int \<Rightarrow> u32 \<Rightarrow> 'a fs_machine_scheme \<Rightarrow> (int \<times> 'a fs_machine_scheme) option" where
  "fstat fd stat k =
     (let desc = file_get_descriptor fd k
      in if desc = 0 then Some (- EIO, k)
         else if \<not> is_fat16 (desc_filesystem (mem k) desc) k then None
         else let (res, m) = fat16_stat (desc_disk (mem k) desc) (desc_private (mem k) desc) stat (mem k)
              in Some (res, k\<lparr>mem := m\<rparr>))"

definition fseek :: "int \<Rightarrow> u32 \<Rightarrow> u32 \<Rightarrow> 'a fs_machine_scheme \<Rightarrow> (int \<times> 'a fs_machine_scheme) option" where
  "fseek fd offset whence k =
     (let desc = file_get_descriptor fd k
      in if desc = 0 then Some (- EIO, k)
         else if \<not> is_fat16 (desc_filesystem (mem k) desc) k then None
         else let (res, m) = fat16_seek (desc_private (mem k) desc) offset whence (mem k)
              in Some (res, k\<lparr>mem := m\<rparr>))"

text \<open>The test is on \<open>fd\<close>, not on the descriptor found: for a file that is not open the code goes on
  with a null pointer and calls through whatever memory at address 4 holds.\<close>

definition fclose :: "int \<Rightarrow> 'a fs_machine_scheme \<Rightarrow> (int \<times> 'a fs_machine_scheme) option" where
  "fclose fd k =
     (let desc = file_get_descriptor fd k
      in if fd = 0 then Some (- EIO, k)
         else if \<not> is_fat16 (desc_filesystem (mem k) desc) k then None
         else let (res, k) = fat16_close (desc_private (mem k) desc) k
              in if res = PEACHOS_ALL_OK then do { k \<leftarrow> file_free_descriptor desc k; Some (res, k) }
                 else Some (res, k))"

definition fread :: "u32 \<Rightarrow> u32 \<Rightarrow> u32 \<Rightarrow> int \<Rightarrow> 'a fs_machine_scheme \<Rightarrow> (int \<times> 'a fs_machine_scheme) option" where
  "fread ptr sz nmemb fd k =
     (if sz = 0 \<or> nmemb = 0 \<or> fd < 1 then Some (- EINVARG, k)
      else let desc = file_get_descriptor fd k
           in if desc = 0 then Some (- EINVARG, k)
              else if \<not> is_fat16 (desc_filesystem (mem k) desc) k then None
              else fat16_read (desc_disk (mem k) desc) (desc_private (mem k) desc) sz nmemb ptr k)"

definition disk_search_and_init :: "'a fs_machine_scheme \<Rightarrow> 'a fs_machine_scheme option" where
  "disk_search_and_init k = do {
     let disk = addr_disk k;
     let m = memset (mem k) disk 0 20;
     let m = store32 m disk PEACHOS_DISK_TYPE_REAL;
     let m = store32 m (disk + 4) PEACHOS_SECTOR_SIZE;
     let m = store32 m (disk + 8) 0;
     (fs, k) \<leftarrow> fs_resolve disk (k\<lparr>mem := m\<rparr>);
     Some (k\<lparr>mem := store32 (mem k) (disk + 12) fs\<rparr>)
   }"

end
