(* ===== verification/Elf.thy ===== *)
theory Elf
  imports File
begin

text \<open>
  The ELF loader of \<^verbatim>\<open>src/loader/formats/elfloader.c\<close> and \<^verbatim>\<open>elf.c\<close>: the checks on the header, the
  scan of the program headers that finds the bounds of the loaded segments, and \<open>elf_load\<close>. ELF
  structures are packed, so a field is a load at a fixed offset of the file in memory.
\<close>

section \<open>The code\<close>

abbreviation (input) PF_X :: u32 where "PF_X \<equiv> 1"
abbreviation (input) PF_W :: u32 where "PF_W \<equiv> 2"
abbreviation (input) PT_LOAD :: u32 where "PT_LOAD \<equiv> 1"
abbreviation (input) ET_EXEC :: u16 where "ET_EXEC \<equiv> 2"
abbreviation (input) EI_CLASS :: u32 where "EI_CLASS \<equiv> 4"
abbreviation (input) EI_DATA :: u32 where "EI_DATA \<equiv> 5"
abbreviation (input) ELFCLASSNONE :: u8 where "ELFCLASSNONE \<equiv> 0"
abbreviation (input) ELFCLASS32 :: u8 where "ELFCLASS32 \<equiv> 1"
abbreviation (input) ELFDATANONE :: u8 where "ELFDATANONE \<equiv> 0"
abbreviation (input) ELFDATA2LSB :: u8 where "ELFDATA2LSB \<equiv> 1"
abbreviation (input) PEACHOS_PROGRAM_VIRTUAL_ADDRESS :: u32 where "PEACHOS_PROGRAM_VIRTUAL_ADDRESS \<equiv> 0x400000"

text \<open>\<open>struct elf_header\<close>.\<close>

definition e_type :: "mem \<Rightarrow> u32 \<Rightarrow> u16" where "e_type m h = load16 m (h + 16)"
definition e_entry :: "mem \<Rightarrow> u32 \<Rightarrow> u32" where "e_entry m h = load32 m (h + 24)"
definition e_phoff :: "mem \<Rightarrow> u32 \<Rightarrow> u32" where "e_phoff m h = load32 m (h + 28)"
definition e_shoff :: "mem \<Rightarrow> u32 \<Rightarrow> u32" where "e_shoff m h = load32 m (h + 32)"
definition e_phnum :: "mem \<Rightarrow> u32 \<Rightarrow> u16" where "e_phnum m h = load16 m (h + 44)"
definition e_shstrndx :: "mem \<Rightarrow> u32 \<Rightarrow> u16" where "e_shstrndx m h = load16 m (h + 50)"

text \<open>\<open>struct elf32_phdr\<close>, 32 bytes, and the offset in \<open>struct elf32_shdr\<close>, 40 bytes.\<close>

definition p_type :: "mem \<Rightarrow> u32 \<Rightarrow> u32" where "p_type m p = load32 m p"
definition p_offset :: "mem \<Rightarrow> u32 \<Rightarrow> u32" where "p_offset m p = load32 m (p + 4)"
definition p_vaddr :: "mem \<Rightarrow> u32 \<Rightarrow> u32" where "p_vaddr m p = load32 m (p + 8)"
definition p_filesz :: "mem \<Rightarrow> u32 \<Rightarrow> u32" where "p_filesz m p = load32 m (p + 16)"
definition p_memsz :: "mem \<Rightarrow> u32 \<Rightarrow> u32" where "p_memsz m p = load32 m (p + 20)"
definition p_flags :: "mem \<Rightarrow> u32 \<Rightarrow> u32" where "p_flags m p = load32 m (p + 24)"
definition sh_offset :: "mem \<Rightarrow> u32 \<Rightarrow> u32" where "sh_offset m s = load32 m (s + 16)"

text \<open>\<open>struct elf_file\<close>, 132 bytes.\<close>

definition elf_memory :: "mem \<Rightarrow> u32 \<Rightarrow> u32" where "elf_memory m f = load32 m (f + 112)"
definition elf_virtual_base :: "mem \<Rightarrow> u32 \<Rightarrow> u32" where "elf_virtual_base m f = load32 m (f + 116)"
definition elf_virtual_end :: "mem \<Rightarrow> u32 \<Rightarrow> u32" where "elf_virtual_end m f = load32 m (f + 120)"
definition elf_phys_base :: "mem \<Rightarrow> u32 \<Rightarrow> u32" where "elf_phys_base m f = load32 m (f + 124)"
definition elf_phys_end :: "mem \<Rightarrow> u32 \<Rightarrow> u32" where "elf_phys_end m f = load32 m (f + 128)"

definition elf_get_entry_ptr :: "mem \<Rightarrow> u32 \<Rightarrow> u32" where "elf_get_entry_ptr m header = e_entry m header"
definition elf_get_entry :: "mem \<Rightarrow> u32 \<Rightarrow> u32" where "elf_get_entry m header = e_entry m header"

definition elf_valid_signature :: "mem \<Rightarrow> u32 \<Rightarrow> bool" where
  "elf_valid_signature m buf \<longleftrightarrow> m buf = 0x7F \<and> m (buf + 1) = 69 \<and> m (buf + 2) = 76 \<and> m (buf + 3) = 70"

definition elf_valid_class :: "mem \<Rightarrow> u32 \<Rightarrow> bool" where
  "elf_valid_class m header \<longleftrightarrow> m (header + EI_CLASS) = ELFCLASSNONE \<or> m (header + EI_CLASS) = ELFCLASS32"

definition elf_valid_encoding :: "mem \<Rightarrow> u32 \<Rightarrow> bool" where
  "elf_valid_encoding m header \<longleftrightarrow> m (header + EI_DATA) = ELFDATANONE \<or> m (header + EI_DATA) = ELFDATA2LSB"

definition elf_is_executable :: "mem \<Rightarrow> u32 \<Rightarrow> bool" where
  "elf_is_executable m header \<longleftrightarrow> e_type m header = ET_EXEC \<and> e_entry m header \<ge> PEACHOS_PROGRAM_VIRTUAL_ADDRESS"

definition elf_has_program_header :: "mem \<Rightarrow> u32 \<Rightarrow> bool" where
  "elf_has_program_header m header \<longleftrightarrow> e_phoff m header \<noteq> 0"

definition elf_header :: "mem \<Rightarrow> u32 \<Rightarrow> u32" where "elf_header m file = elf_memory m file"

definition elf_sheader :: "mem \<Rightarrow> u32 \<Rightarrow> u32" where "elf_sheader m header = header + e_shoff m header"

definition elf_pheader :: "mem \<Rightarrow> u32 \<Rightarrow> u32" where
  "elf_pheader m header = (if e_phoff m header = 0 then 0 else header + e_phoff m header)"

definition elf_program_header :: "mem \<Rightarrow> u32 \<Rightarrow> u32 \<Rightarrow> u32" where
  "elf_program_header m header index = elf_pheader m header + index * 32"

definition elf_section :: "mem \<Rightarrow> u32 \<Rightarrow> u32 \<Rightarrow> u32" where
  "elf_section m header index = elf_sheader m header + index * 40"

definition elf_str_table :: "mem \<Rightarrow> u32 \<Rightarrow> u32" where
  "elf_str_table m header = header + sh_offset m (elf_section m header (ucast (e_shstrndx m header)))"

definition elf_validate_loaded :: "mem \<Rightarrow> u32 \<Rightarrow> int" where
  "elf_validate_loaded m header =
     (if elf_valid_signature m header \<and> elf_valid_class m header \<and> elf_valid_encoding m header \<and>
         elf_has_program_header m header then PEACHOS_ALL_OK else - EINFORMAT)"

definition elf_phdr_phys_address :: "mem \<Rightarrow> u32 \<Rightarrow> u32 \<Rightarrow> u32" where
  "elf_phdr_phys_address m file phdr = elf_memory m file + p_offset m phdr"

definition elf_process_phdr_pt_load :: "u32 \<Rightarrow> u32 \<Rightarrow> mem \<Rightarrow> int \<times> mem" where
  "elf_process_phdr_pt_load file phdr m =
     (let m = (if elf_virtual_base m file \<ge> p_vaddr m phdr \<or> elf_virtual_base m file = 0
               then let m = store32 m (file + 116) (p_vaddr m phdr)
                    in store32 m (file + 124) (elf_memory m file + p_offset m phdr)
               else m);
          end_virt_addr = p_vaddr m phdr + p_filesz m phdr;
          m = (if elf_virtual_end m file \<le> end_virt_addr \<or> elf_virtual_end m file = 0
               then let m = store32 m (file + 120) end_virt_addr
                    in store32 m (file + 128) (elf_memory m file + p_offset m phdr + p_filesz m phdr)
               else m)
      in (0, m))"

definition elf_process_pheader :: "u32 \<Rightarrow> u32 \<Rightarrow> mem \<Rightarrow> int \<times> mem" where
  "elf_process_pheader file phdr m =
     (if p_type m phdr = PT_LOAD then elf_process_phdr_pt_load file phdr m else (- EINVELFTYPE, m))"

fun process_pheaders_loop :: "u32 \<Rightarrow> u32 \<Rightarrow> nat \<Rightarrow> int \<Rightarrow> mem \<Rightarrow> nat \<Rightarrow> int \<times> mem" where
  "process_pheaders_loop file header i res m 0 = (res, m)"
| "process_pheaders_loop file header i res m (Suc n) =
     (if \<not> i < unat (e_phnum m header) then (res, m)
      else let (res, m) = elf_process_pheader file (elf_program_header m header (of_nat i)) m
           in if ISERR res then (res, m) else process_pheaders_loop file header (Suc i) res m n)"

text \<open>The count is a 16-bit field, so 65536 rounds are enough.\<close>

definition elf_process_pheaders :: "u32 \<Rightarrow> mem \<Rightarrow> int \<times> mem" where
  "elf_process_pheaders file m = process_pheaders_loop file (elf_header m file) 0 0 m 65536"

definition elf_process_loaded :: "u32 \<Rightarrow> mem \<Rightarrow> int \<times> mem" where
  "elf_process_loaded file m =
     (let header = elf_header m file; res = elf_validate_loaded m header
      in if ISERR res then (res, m) else elf_process_pheaders file m)"

text \<open>\<open>fopen\<close> reports a failure as 0, which is no error for \<open>ISERR\<close>; and on success the file stays
  open. \<open>elf_load\<close> ends in one of three ways: success, \<open>clean\<close> (both allocations freed) or \<open>out\<close>.\<close>

definition elf_load_out :: "u32 \<Rightarrow> int \<Rightarrow> int \<Rightarrow> 'a fs_machine_scheme \<Rightarrow> (int \<times> u32 \<times> 'a fs_machine_scheme) option" where
  "elf_load_out elf_file fd res k = do {
     let k = kfree elf_file k;
     (_, k) \<leftarrow> fclose fd k;
     Some (res, 0, k)
   }"

definition elf_load_clean :: "u32 \<Rightarrow> int \<Rightarrow> int \<Rightarrow> 'a fs_machine_scheme \<Rightarrow> (int \<times> u32 \<times> 'a fs_machine_scheme) option" where
  "elf_load_clean elf_file fd res k = elf_load_out elf_file fd res (kfree (elf_memory (mem k) elf_file) k)"

text \<open>\<open>file_out\<close> is returned as a second value, which is 0 where the code leaves it alone.\<close>

definition elf_load :: "u32 \<Rightarrow> u32 \<Rightarrow> 'a fs_machine_scheme \<Rightarrow> (int \<times> u32 \<times> 'a fs_machine_scheme) option" where
  "elf_load filename mode_r k = do {
     (elf_file, k) \<leftarrow> kzalloc 132 k;
     if elf_file = 0 then Some (- ENOMEM, 0, k)
     else do {
       (fd, k) \<leftarrow> fopen filename mode_r k;
       if ISERR fd then elf_load_out elf_file fd fd k
       else do {
         let stat = local_addr k File_stat_buf;
         (res, k) \<leftarrow> fstat fd stat k;
         if ISERR res then elf_load_out elf_file fd res k
         else do {
           (p, k) \<leftarrow> kzalloc (stat_file_size (mem k) stat) k;
           let k = k\<lparr>mem := store32 (mem k) (elf_file + 112) p\<rparr>;
           if p = 0 then elf_load_out elf_file fd (- ENOMEM) k
           else do {
             (res, k) \<leftarrow> fread p (stat_file_size (mem k) stat) 1 fd k;
             if ISERR res then elf_load_clean elf_file fd res k
             else do {
               let (res, m) = elf_process_loaded elf_file (mem k);
               let k = k\<lparr>mem := m\<rparr>;
               if ISERR res then elf_load_clean elf_file fd res k else Some (0, elf_file, k)
             }
           }
         }
       }
     }
   }"

definition elf_close :: "u32 \<Rightarrow> 'a fs_machine_scheme \<Rightarrow> 'a fs_machine_scheme" where
  "elf_close file k = (if file = 0 then k else kfree file (kfree (elf_memory (mem k) file) k))"

end
