(* ===== verification/Task.thy ===== *)
theory Task
  imports Elf
begin

text \<open>
  Tasks of \<^verbatim>\<open>src/task/task.c\<close>: the doubly linked list of tasks with its head, tail and current task,
  the switch between address spaces, saving the registers of an interrupted task, and the two routines
  through which the kernel reads memory of a task.

  The kernel itself runs on an identity mapping, so its own accesses go to raw memory directly. While
  a task's directory is loaded, addresses of the task are translated by the processor: the field \<open>mmu\<close>
  is that translation, a parameter; \<open>mmu_holds\<close> states what the code relies on, that it follows the
  directory and table entries. A translation in use is the one of the moment of the switch.
  \<open>task_return\<close> leaves the kernel for the program; the address of the registers it loads is recorded.
\<close>

section \<open>The state\<close>

record task_machine = fs_machine +
  current_task :: u32
  task_tail :: u32
  task_head :: u32
  kernel_4gb_chunk :: u32
  data_segments :: u16
  returned_to :: "u32 option"
  mmu :: "mem \<Rightarrow> u32 \<Rightarrow> u32 \<Rightarrow> u32"

abbreviation (input) USER_DATA_SEGMENT :: u32 where "USER_DATA_SEGMENT \<equiv> 0x23"
abbreviation (input) USER_CODE_SEGMENT :: u32 where "USER_CODE_SEGMENT \<equiv> 0x1B"
abbreviation (input) KERNEL_DATA_SELECTOR :: u16 where "KERNEL_DATA_SELECTOR \<equiv> 0x10"
abbreviation (input) PEACHOS_PROGRAM_VIRTUAL_STACK_ADDRESS_START :: u32
  where "PEACHOS_PROGRAM_VIRTUAL_STACK_ADDRESS_START \<equiv> 0x3FF000"
abbreviation (input) PROCESS_FILE_TYPE_ELF :: u8 where "PROCESS_FILE_TYPE_ELF \<equiv> 0"
abbreviation (input) PROCESS_FILE_TYPE_BIN :: u8 where "PROCESS_FILE_TYPE_BIN \<equiv> 1"

text \<open>\<open>struct task\<close>: the page directory, 12 registers, the process, next and prev; 64 bytes.\<close>

definition task_page_directory :: "mem \<Rightarrow> u32 \<Rightarrow> u32" where "task_page_directory m t = load32 m t"
definition task_registers :: "u32 \<Rightarrow> u32" where "task_registers t = t + 4"
definition reg_esp :: "mem \<Rightarrow> u32 \<Rightarrow> u32" where "reg_esp m r = load32 m (r + 40)"
definition task_process :: "mem \<Rightarrow> u32 \<Rightarrow> u32" where "task_process m t = load32 m (t + 52)"
definition task_next :: "mem \<Rightarrow> u32 \<Rightarrow> u32" where "task_next m t = load32 m (t + 56)"
definition task_prev :: "mem \<Rightarrow> u32 \<Rightarrow> u32" where "task_prev m t = load32 m (t + 60)"

text \<open>The two fields of \<open>struct process\<close> that tasks look at.\<close>

definition proc_filetype :: "mem \<Rightarrow> u32 \<Rightarrow> u8" where "proc_filetype m p = m (p + 110)"
definition proc_elf_file :: "mem \<Rightarrow> u32 \<Rightarrow> u32" where "proc_elf_file m p = load32 m (p + 8308)"

section \<open>Address spaces\<close>

definition kernel_registers :: "'a task_machine_scheme \<Rightarrow> 'a task_machine_scheme" where
  "kernel_registers k = k\<lparr>data_segments := KERNEL_DATA_SELECTOR\<rparr>"

definition user_registers :: "'a task_machine_scheme \<Rightarrow> 'a task_machine_scheme" where
  "user_registers k = k\<lparr>data_segments := 0x23\<rparr>"

definition kernel_page :: "'a task_machine_scheme \<Rightarrow> 'a task_machine_scheme" where
  "kernel_page k = (let k = kernel_registers k in paging_switch (kernel_4gb_chunk k) k)"

definition task_switch :: "u32 \<Rightarrow> 'a task_machine_scheme \<Rightarrow> int \<times> 'a task_machine_scheme" where
  "task_switch task k =
     (let k = k\<lparr>current_task := task\<rparr> in (0, paging_switch (task_page_directory (mem k) task) k))"

definition task_page :: "'a task_machine_scheme \<Rightarrow> int \<times> 'a task_machine_scheme" where
  "task_page k = (let k = user_registers k; (_, k) = task_switch (current_task k) k in (0, k))"

definition task_page_task :: "u32 \<Rightarrow> 'a task_machine_scheme \<Rightarrow> int \<times> 'a task_machine_scheme" where
  "task_page_task task k =
     (let k = user_registers k in (0, paging_switch (task_page_directory (mem k) task) k))"

text \<open>Memory as the loaded directory shows it.\<close>

definition translation :: "'a task_machine_scheme \<Rightarrow> u32 \<Rightarrow> u32" where
  "translation k = mmu k (mem k) (cr3 k)"

definition vload32 :: "(u32 \<Rightarrow> u32) \<Rightarrow> mem \<Rightarrow> u32 \<Rightarrow> u32" where
  "vload32 tr m a = load32 (\<lambda>b. m (tr b)) a"

fun vstrncpy_loop :: "(u32 \<Rightarrow> u32) \<Rightarrow> mem \<Rightarrow> u32 \<Rightarrow> u32 \<Rightarrow> nat \<Rightarrow> mem" where
  "vstrncpy_loop tr m dest src 0 = m(tr dest := 0)"
| "vstrncpy_loop tr m dest src (Suc n) =
     (if m (tr src) = 0 then m(tr dest := 0)
      else vstrncpy_loop tr (m(tr dest := m (tr src))) (dest + 1) (src + 1) n)"

section \<open>The list of tasks\<close>

definition task_current :: "'a task_machine_scheme \<Rightarrow> u32" where
  "task_current k = current_task k"

definition task_get_next :: "'a task_machine_scheme \<Rightarrow> u32" where
  "task_get_next k =
     (if task_next (mem k) (current_task k) = 0 then task_head k else task_next (mem k) (current_task k))"

definition task_list_remove :: "u32 \<Rightarrow> 'a task_machine_scheme \<Rightarrow> 'a task_machine_scheme" where
  "task_list_remove task k =
     (let k = (if task_prev (mem k) task \<noteq> 0
               then k\<lparr>mem := store32 (mem k) (task_prev (mem k) task + 56) (task_next (mem k) task)\<rparr> else k);
          k = (if task_next (mem k) task \<noteq> 0
               then k\<lparr>mem := store32 (mem k) (task_next (mem k) task + 60) (task_prev (mem k) task)\<rparr> else k);
          k = (if task = task_head k then k\<lparr>task_head := task_next (mem k) task\<rparr> else k);
          k = (if task = task_tail k then k\<lparr>task_tail := task_prev (mem k) task\<rparr> else k)
      in if task = current_task k then k\<lparr>current_task := task_get_next k\<rparr> else k)"

definition task_free :: "u32 \<Rightarrow> 'a task_machine_scheme \<Rightarrow> int \<times> 'a task_machine_scheme" where
  "task_free task k =
     (let k = paging_free_4gb (task_page_directory (mem k) task) k;
          k = task_list_remove task k
      in (0, kfree task k))"

text \<open>\<open>sizeof(task)\<close> is the size of the pointer: 4 bytes are cleared, here and in \<open>task_new\<close>.\<close>

definition task_init :: "u32 \<Rightarrow> u32 \<Rightarrow> 'a task_machine_scheme \<Rightarrow> (int \<times> 'a task_machine_scheme) option" where
  "task_init task proc k = do {
     let k = k\<lparr>mem := memset (mem k) task 0x00 4\<rparr>;
     (chunk, k) \<leftarrow> paging_new_4gb (ucast (PAGING_IS_PRESENT OR PAGING_ACCESS_FROM_ALL)) k;
     let k = k\<lparr>mem := store32 (mem k) task chunk\<rparr>;
     if chunk = 0 then Some (- EIO, k)
     else let r = task_registers task;
              m = store32 (mem k) (r + 28) PEACHOS_PROGRAM_VIRTUAL_ADDRESS;
              m = (if proc_filetype m proc = PROCESS_FILE_TYPE_ELF
                   then store32 m (r + 28) (e_entry m (elf_header m (proc_elf_file m proc))) else m);
              m = store32 m (r + 44) USER_DATA_SEGMENT;
              m = store32 m (r + 32) USER_CODE_SEGMENT;
              m = store32 m (r + 40) PEACHOS_PROGRAM_VIRTUAL_STACK_ADDRESS_START;
              m = store32 m (task + 52) proc
          in Some (0, k\<lparr>mem := m\<rparr>)
   }"

definition task_link :: "u32 \<Rightarrow> 'a task_machine_scheme \<Rightarrow> 'a task_machine_scheme" where
  "task_link task k =
     (if task_head k = 0 then k\<lparr>task_head := task, task_tail := task, current_task := task\<rparr>
      else let m = store32 (mem k) (task_tail k + 56) task;
               m = store32 m (task + 60) (task_tail k)
           in k\<lparr>mem := m, task_tail := task\<rparr>)"

definition task_new :: "u32 \<Rightarrow> 'a task_machine_scheme \<Rightarrow> (u32 \<times> 'a task_machine_scheme) option" where
  "task_new proc k = do {
     (task, k) \<leftarrow> kzalloc 4 k;
     (res, k) \<leftarrow> (if task = 0 then Some (- ENOMEM, k)
       else do {
         (res, k) \<leftarrow> task_init task proc k;
         if res \<noteq> PEACHOS_ALL_OK then Some (res, k) else Some (res, task_link task k)
       });
     if ISERR res then let (_, k) = task_free task k in Some (ERROR res, k) else Some (task, k)
   }"

section \<open>Registers and the memory of a task\<close>

text \<open>\<open>struct interupt_frame\<close> at \<open>frame\<close>: edi, esi, ebp, reserved, ebx, edx, ecx, eax, ip, cs, flags,
  esp, ss. \<open>struct registers\<close>: edi, esi, ebp, ebx, edx, ecx, eax, ip, cs, flags, esp, ss.\<close>

definition task_save_state :: "u32 \<Rightarrow> u32 \<Rightarrow> mem \<Rightarrow> mem" where
  "task_save_state task frame m =
     (let r = task_registers task;
          m = store32 m (r + 28) (load32 m (frame + 32));
          m = store32 m (r + 32) (load32 m (frame + 36));
          m = store32 m (r + 36) (load32 m (frame + 40));
          m = store32 m (r + 40) (load32 m (frame + 44));
          m = store32 m (r + 44) (load32 m (frame + 48));
          m = store32 m (r + 24) (load32 m (frame + 28));
          m = store32 m (r + 8) (load32 m (frame + 8));
          m = store32 m (r + 12) (load32 m (frame + 16));
          m = store32 m (r + 20) (load32 m (frame + 24));
          m = store32 m r (load32 m frame);
          m = store32 m (r + 16) (load32 m (frame + 20))
      in store32 m (r + 4) (load32 m (frame + 4)))"

text \<open>\<open>None\<close> is the panic.\<close>

definition task_current_save_state :: "u32 \<Rightarrow> 'a task_machine_scheme \<Rightarrow> 'a task_machine_scheme option" where
  "task_current_save_state frame k =
     (if current_task k = 0 then None else Some (k\<lparr>mem := task_save_state (current_task k) frame (mem k)\<rparr>))"

definition task_return :: "u32 \<Rightarrow> 'a task_machine_scheme \<Rightarrow> 'a task_machine_scheme" where
  "task_return regs k = k\<lparr>returned_to := Some regs\<rparr>"

definition task_run_first_ever_task :: "'a task_machine_scheme \<Rightarrow> 'a task_machine_scheme option" where
  "task_run_first_ever_task k =
     (if current_task k = 0 then None
      else let (_, k) = task_switch (task_head k) k in Some (task_return (task_registers (task_head k)) k))"

definition copy_string_from_task ::
  "u32 \<Rightarrow> u32 \<Rightarrow> u32 \<Rightarrow> int \<Rightarrow> 'a task_machine_scheme \<Rightarrow> (int \<times> 'a task_machine_scheme) option" where
  "copy_string_from_task task virt phys mx k =
     (if mx \<ge> 4096 then Some (- EINVARG, k)
      else do {
        (tmp, k) \<leftarrow> kzalloc (word_of_int mx) k;
        if tmp = 0 then Some (- ENOMEM, k)
        else do {
          let task_dir = directory_entry (mem k) (task_page_directory (mem k) task);
          let old_entry = paging_get (mem k) task_dir tmp;
          let (_, m) = paging_map (task_page_directory (mem k) task) tmp tmp
                         (PAGING_IS_WRITEABLE OR PAGING_IS_PRESENT OR PAGING_ACCESS_FROM_ALL) (mem k);
          let k = paging_switch (task_page_directory m task) (k\<lparr>mem := m\<rparr>);
          let k = k\<lparr>mem := vstrncpy_loop (translation k) (mem k) tmp virt (nat (mx - 1))\<rparr>;
          let k = kernel_page k;
          let (res, m) = paging_set task_dir tmp old_entry (mem k);
          let k = k\<lparr>mem := m\<rparr>;
          if ISERR res then Some (- EIO, kfree tmp k)
          else Some (res, kfree tmp (k\<lparr>mem := strncpy (mem k) phys tmp mx\<rparr>))
        }
      })"

definition task_get_stack_item :: "u32 \<Rightarrow> u32 \<Rightarrow> 'a task_machine_scheme \<Rightarrow> u32 \<times> 'a task_machine_scheme" where
  "task_get_stack_item task index k =
     (let sp = reg_esp (mem k) (task_registers task);
          (_, k) = task_page_task task k;
          result = vload32 (translation k) (mem k) (sp + 4 * index)
      in (result, kernel_page k))"

definition task_virtual_address_to_physical :: "mem \<Rightarrow> u32 \<Rightarrow> u32 \<Rightarrow> u32" where
  "task_virtual_address_to_physical m task virt =
     paging_get_physical_address m (directory_entry m (task_page_directory m task)) virt"

end
