(* ===== verification/Process.thy ===== *)
theory Process
  imports Task
begin

text \<open>
  Processes of \<^verbatim>\<open>src/task/process.c\<close>: the table of 16 processes, memory allocated for a process and
  mapped into it, loading a program as an ELF file or as a flat binary, mapping it, and passing
  command arguments. \<open>struct process\<close> is 12432 bytes of raw memory. Reading the variable \<open>proc\<close> before
  it is set, which \<open>process_load_for_slot\<close> does when its slot is taken, is the outcome \<open>None\<close>.
\<close>

section \<open>The state\<close>

record proc_machine = task_machine +
  current_process :: u32
  processes :: "u32 list"
  lit_r :: u32

text \<open>\<open>lit_r\<close> is the address of the literal \<open>''r''\<close> that is passed to \<open>fopen\<close>.\<close>

abbreviation (input) PEACHOS_MAX_PROCESSES :: nat where "PEACHOS_MAX_PROCESSES \<equiv> 16"
abbreviation (input) PEACHOS_MAX_PROGRAM_ALLOCATIONS :: nat where "PEACHOS_MAX_PROGRAM_ALLOCATIONS \<equiv> 1024"
abbreviation (input) PEACHOS_USER_PROGRAM_STACK_SIZE :: u32 where "PEACHOS_USER_PROGRAM_STACK_SIZE \<equiv> 16384"
abbreviation (input) PEACHOS_PROGRAM_VIRTUAL_STACK_ADDRESS_END :: u32
  where "PEACHOS_PROGRAM_VIRTUAL_STACK_ADDRESS_END \<equiv> 0x3FF000 - 16384"

text \<open>\<open>struct process\<close>.\<close>

abbreviation (input) proc_filename :: "u32 \<Rightarrow> u32" where "proc_filename p \<equiv> p + 2"
definition proc_task :: "mem \<Rightarrow> u32 \<Rightarrow> u32" where "proc_task m p = load32 m (p + 112)"
definition alloc_slot :: "u32 \<Rightarrow> nat \<Rightarrow> u32" where "alloc_slot p i = p + 116 + 8 * of_nat i"
definition alloc_ptr :: "mem \<Rightarrow> u32 \<Rightarrow> nat \<Rightarrow> u32" where "alloc_ptr m p i = load32 m (alloc_slot p i)"
definition alloc_size :: "mem \<Rightarrow> u32 \<Rightarrow> nat \<Rightarrow> u32" where "alloc_size m p i = load32 m (alloc_slot p i + 4)"
definition proc_ptr :: "mem \<Rightarrow> u32 \<Rightarrow> u32" where "proc_ptr m p = load32 m (p + 8308)"
definition proc_stack :: "mem \<Rightarrow> u32 \<Rightarrow> u32" where "proc_stack m p = load32 m (p + 8312)"
definition proc_size :: "mem \<Rightarrow> u32 \<Rightarrow> u32" where "proc_size m p = load32 m (p + 8316)"
definition proc_argc :: "mem \<Rightarrow> u32 \<Rightarrow> u32" where "proc_argc m p = load32 m (p + 12424)"
definition proc_argv :: "mem \<Rightarrow> u32 \<Rightarrow> u32" where "proc_argv m p = load32 m (p + 12428)"

text \<open>\<open>struct command_argument\<close>: 512 characters and the next argument.\<close>

definition arg_next :: "mem \<Rightarrow> u32 \<Rightarrow> u32" where "arg_next m a = load32 m (a + 512)"

definition user_flags :: u32 where
  "user_flags = PAGING_IS_WRITEABLE OR PAGING_IS_PRESENT OR PAGING_ACCESS_FROM_ALL"

section \<open>The table of processes\<close>

definition process_init :: "u32 \<Rightarrow> 'a proc_machine_scheme \<Rightarrow> 'a proc_machine_scheme" where
  "process_init proc k = k\<lparr>mem := memset (mem k) proc 0x00 12432\<rparr>"

definition process_current :: "'a proc_machine_scheme \<Rightarrow> u32" where
  "process_current k = current_process k"

definition process_get :: "int \<Rightarrow> 'a proc_machine_scheme \<Rightarrow> u32" where
  "process_get proc_id k =
     (if proc_id < 0 \<or> proc_id \<ge> int PEACHOS_MAX_PROCESSES then 0 else processes k ! nat proc_id)"

definition process_switch :: "u32 \<Rightarrow> 'a proc_machine_scheme \<Rightarrow> int \<times> 'a proc_machine_scheme" where
  "process_switch proc k = (PEACHOS_ALL_OK, k\<lparr>current_process := proc\<rparr>)"

text \<open>When every slot is taken the result is \<open>EISTKN\<close>, a positive number and a legal slot.\<close>

definition process_get_free_slot :: "'a proc_machine_scheme \<Rightarrow> int" where
  "process_get_free_slot k = (case first_null (processes k) of Some i \<Rightarrow> int i | None \<Rightarrow> EISTKN)"

section \<open>Memory of a process\<close>

text \<open>The first of \<open>n\<close> slots, from slot \<open>i\<close> on, that holds the pointer \<open>v\<close>.\<close>

fun find_slot :: "mem \<Rightarrow> u32 \<Rightarrow> u32 \<Rightarrow> nat \<Rightarrow> nat \<Rightarrow> nat option" where
  "find_slot m proc v i 0 = None"
| "find_slot m proc v i (Suc n) = (if alloc_ptr m proc i = v then Some i else find_slot m proc v (Suc i) n)"

definition process_find_free_allocation_index :: "mem \<Rightarrow> u32 \<Rightarrow> int" where
  "process_find_free_allocation_index m proc =
     (case find_slot m proc 0 0 PEACHOS_MAX_PROGRAM_ALLOCATIONS of Some i \<Rightarrow> int i | None \<Rightarrow> - ENOMEM)"

definition process_get_allocations_by_addr :: "mem \<Rightarrow> u32 \<Rightarrow> u32 \<Rightarrow> u32" where
  "process_get_allocations_by_addr m proc addr =
     (case find_slot m proc addr 0 PEACHOS_MAX_PROGRAM_ALLOCATIONS of Some i \<Rightarrow> alloc_slot proc i | None \<Rightarrow> 0)"

definition process_malloc :: "u32 \<Rightarrow> u32 \<Rightarrow> 'a proc_machine_scheme \<Rightarrow> (u32 \<times> 'a proc_machine_scheme) option" where
  "process_malloc proc sz k = do {
     (ptr, k) \<leftarrow> kzalloc sz k;
     if ptr = 0 then Some (0, kfree ptr k)
     else let index = process_find_free_allocation_index (mem k) proc in
       if index < 0 then Some (0, kfree ptr k)
       else let (res, m) = paging_map_to (task_page_directory (mem k) (proc_task (mem k) proc)) ptr ptr
                             (paging_align_address (ptr + sz)) user_flags (mem k);
                k = k\<lparr>mem := m\<rparr>
            in if ISERR res then Some (0, kfree ptr k)
               else let m = store32 (mem k) (alloc_slot proc (nat index)) ptr;
                        m = store32 m (alloc_slot proc (nat index) + 4) sz
                    in Some (ptr, k\<lparr>mem := m\<rparr>)
   }"

text \<open>A null pointer matches the first unused slot, whose size may be left from an earlier use.\<close>

definition process_free :: "u32 \<Rightarrow> u32 \<Rightarrow> 'a proc_machine_scheme \<Rightarrow> 'a proc_machine_scheme" where
  "process_free proc ptr k =
     (case find_slot (mem k) proc ptr 0 PEACHOS_MAX_PROGRAM_ALLOCATIONS of
        None \<Rightarrow> k
      | Some i \<Rightarrow>
          let (res, m) = paging_map_to (task_page_directory (mem k) (proc_task (mem k) proc)) ptr ptr
                           (paging_align_address (ptr + alloc_size (mem k) proc i)) 0x00 (mem k);
              k = k\<lparr>mem := m\<rparr>
          in if ISERR res then k
             else kfree ptr (k\<lparr>mem := store32 (mem k) (alloc_slot proc i) 0\<rparr>))"

section \<open>Loading\<close>

text \<open>The body up to the label \<open>out\<close>, where the file is closed whether it was opened or not.\<close>

definition load_binary_body :: "u32 \<Rightarrow> int \<Rightarrow> 'a proc_machine_scheme \<Rightarrow> (int \<times> 'a proc_machine_scheme) option" where
  "load_binary_body proc fd k =
     (if fd = 0 then Some (- EIO, k)
      else do {
        let stat = local_addr k File_stat_bin;
        (res, k) \<leftarrow> fstat fd stat k;
        if res \<noteq> PEACHOS_ALL_OK then Some (res, k)
        else do {
          (p, k) \<leftarrow> kzalloc (stat_file_size (mem k) stat) k;
          if p = 0 then Some (- ENOMEM, k)
          else do {
            (n, k) \<leftarrow> fread p (stat_file_size (mem k) stat) 1 fd k;
            if n \<noteq> 1 then Some (- EIO, k)
            else let m = store32 (mem k) (proc + 8308) p;
                     m = store32 m (proc + 8316) (stat_file_size m stat);
                     m = m(proc + 110 := PROCESS_FILE_TYPE_BIN)
                 in Some (res, k\<lparr>mem := m\<rparr>)
          }
        }
      })"

definition process_load_binary :: "u32 \<Rightarrow> u32 \<Rightarrow> 'a proc_machine_scheme \<Rightarrow> (int \<times> 'a proc_machine_scheme) option" where
  "process_load_binary filename proc k = do {
     (fd, k) \<leftarrow> fopen filename (lit_r k) k;
     (res, k) \<leftarrow> load_binary_body proc fd k;
     (_, k) \<leftarrow> fclose fd k;
     Some (res, k)
   }"

definition process_load_elf :: "u32 \<Rightarrow> u32 \<Rightarrow> 'a proc_machine_scheme \<Rightarrow> (int \<times> 'a proc_machine_scheme) option" where
  "process_load_elf filename proc k = do {
     (res, file, k) \<leftarrow> elf_load filename (lit_r k) k;
     if ISERR res then Some (res, k)
     else let m = (mem k)(proc + 110 := PROCESS_FILE_TYPE_ELF);
              m = store32 m (proc + 8308) file
          in Some (res, k\<lparr>mem := m\<rparr>)
   }"

definition process_load_data :: "u32 \<Rightarrow> u32 \<Rightarrow> 'a proc_machine_scheme \<Rightarrow> (int \<times> 'a proc_machine_scheme) option" where
  "process_load_data filename proc k = do {
     (res, k) \<leftarrow> process_load_elf filename proc k;
     if res = - EINFORMAT then process_load_binary filename proc k else Some (res, k)
   }"

section \<open>Mapping\<close>

definition process_map_binary :: "u32 \<Rightarrow> mem \<Rightarrow> int \<times> mem" where
  "process_map_binary proc m =
     paging_map_to (task_page_directory m (proc_task m proc)) PEACHOS_PROGRAM_VIRTUAL_ADDRESS (proc_ptr m proc)
       (paging_align_address (proc_ptr m proc + proc_size m proc)) user_flags m"

fun map_elf_loop :: "u32 \<Rightarrow> u32 \<Rightarrow> u32 \<Rightarrow> u32 \<Rightarrow> nat \<Rightarrow> nat \<Rightarrow> int \<Rightarrow> mem \<Rightarrow> int \<times> mem" where
  "map_elf_loop dir file header phdrs i 0 res m = (res, m)"
| "map_elf_loop dir file header phdrs i (Suc n) res m =
     (if \<not> i < unat (e_phnum m header) then (res, m)
      else let phdr = phdrs + of_nat i * 32;
               phys = elf_phdr_phys_address m file phdr;
               flags = PAGING_IS_PRESENT OR PAGING_ACCESS_FROM_ALL;
               flags = (if p_flags m phdr AND PF_W \<noteq> 0 then flags OR PAGING_IS_WRITEABLE else flags);
               base_virt = paging_align_to_lower_page (p_vaddr m phdr);
               base_phys = paging_align_to_lower_page phys;
               (res, m) = paging_map_to dir base_virt base_phys
                            (paging_align_address (phys + p_memsz m phdr)) flags m
           in if ISERR res then (res, m) else map_elf_loop dir file header phdrs (Suc i) n res m)"

definition process_map_elf :: "u32 \<Rightarrow> mem \<Rightarrow> int \<times> mem" where
  "process_map_elf proc m =
     (let dir = task_page_directory m (proc_task m proc);
          file = proc_elf_file m proc;
          header = elf_header m file;
          phdrs = elf_pheader m header
      in map_elf_loop dir file header phdrs 0 65536 0 m)"

text \<open>\<open>None\<close> is the panic on an unknown file type.\<close>

definition process_map_memory :: "u32 \<Rightarrow> mem \<Rightarrow> (int \<times> mem) option" where
  "process_map_memory proc m = do {
     let (_, m) = process_map_binary proc m;
     (res, m) \<leftarrow>
       (if proc_filetype m proc = PROCESS_FILE_TYPE_ELF then Some (process_map_elf proc m)
        else if proc_filetype m proc = PROCESS_FILE_TYPE_BIN then Some (process_map_binary proc m)
        else None);
     if ISERR res then Some (res, m)
     else Some (paging_map_to (task_page_directory m (proc_task m proc)) PEACHOS_PROGRAM_VIRTUAL_STACK_ADDRESS_END
                  (proc_stack m proc) (paging_align_address (proc_stack m proc + PEACHOS_USER_PROGRAM_STACK_SIZE))
                  user_flags m)
   }"

section \<open>Starting a process\<close>

text \<open>The label \<open>out\<close> once \<open>proc\<close> is set: on an error the task is freed, if there is one.\<close>

definition load_for_slot_out :: "u32 \<Rightarrow> int \<Rightarrow> 'a proc_machine_scheme \<Rightarrow> (int \<times> u32 \<times> 'a proc_machine_scheme) option" where
  "load_for_slot_out proc res k =
     (if ISERR res \<and> proc \<noteq> 0 \<and> proc_task (mem k) proc \<noteq> 0
      then let (_, k) = task_free (proc_task (mem k) proc) k in Some (res, 0, k)
      else Some (res, 0, k))"

text \<open>\<open>process\<close> is returned as the second value, 0 where the code leaves it alone. A \<open>task_new\<close> that
  fails gives a negative error pointer, which the test against 0 lets through.\<close>

definition process_load_for_slot ::
  "u32 \<Rightarrow> int \<Rightarrow> 'a proc_machine_scheme \<Rightarrow> (int \<times> u32 \<times> 'a proc_machine_scheme) option" where
  "process_load_for_slot filename process_slot k =
     (if process_get process_slot k \<noteq> 0 then None
      else do {
        (proc, k) \<leftarrow> kzalloc 12432 k;
        if proc = 0 then load_for_slot_out proc (- ENOMEM) k
        else do {
          let k = process_init proc k;
          (res, k) \<leftarrow> process_load_data filename proc k;
          if ISERR res then load_for_slot_out proc res k
          else do {
            (stack, k) \<leftarrow> kzalloc PEACHOS_USER_PROGRAM_STACK_SIZE k;
            if stack = 0 then load_for_slot_out proc (- ENOMEM) k
            else do {
              let m = strncpy (mem k) (proc_filename proc) filename 108;
              let m = store32 m (proc + 8312) stack;
              let m = m(proc := word_of_int process_slot, proc + 1 := word_of_int (process_slot div 256));
              (task, k) \<leftarrow> task_new proc (k\<lparr>mem := m\<rparr>);
              if ERROR_I task = 0 then load_for_slot_out proc (ERROR_I task) k
              else do {
                let k = k\<lparr>mem := store32 (mem k) (proc + 112) task\<rparr>;
                (res, m) \<leftarrow> process_map_memory proc (mem k);
                let k = k\<lparr>mem := m\<rparr>;
                if res < 0 then load_for_slot_out proc res k
                else if nat process_slot < length (processes k)
                then Some (res, proc, k\<lparr>processes := (processes k)[nat process_slot := proc]\<rparr>)
                else None
              }
            }
          }
        }
      })"

definition process_load :: "u32 \<Rightarrow> 'a proc_machine_scheme \<Rightarrow> (int \<times> u32 \<times> 'a proc_machine_scheme) option" where
  "process_load filename k =
     (let process_slot = process_get_free_slot k
      in if process_slot < 0 then Some (- ENOMEM, 0, k) else process_load_for_slot filename process_slot k)"

definition process_load_switch :: "u32 \<Rightarrow> 'a proc_machine_scheme \<Rightarrow> (int \<times> u32 \<times> 'a proc_machine_scheme) option" where
  "process_load_switch filename k = do {
     (res, proc, k) \<leftarrow> process_load filename k;
     if res = PEACHOS_ALL_OK then let (_, k) = process_switch proc k in Some (res, proc, k)
     else Some (res, proc, k)
   }"

section \<open>Arguments\<close>

definition process_get_arguments :: "mem \<Rightarrow> u32 \<Rightarrow> u32 \<times> u32" where
  "process_get_arguments m proc = (proc_argc m proc, proc_argv m proc)"

partial_function (option) count_loop :: "mem \<Rightarrow> u32 \<Rightarrow> nat \<Rightarrow> nat option" where
  "count_loop m cur count = (if cur = 0 then Some count else count_loop m (arg_next m cur) (count + 1))"

definition command_count_arguments :: "mem \<Rightarrow> u32 \<Rightarrow> nat option" where
  "command_count_arguments m root = count_loop m root 0"

partial_function (option) inject_loop ::
  "u32 \<Rightarrow> u32 \<Rightarrow> u32 \<Rightarrow> u32 \<Rightarrow> 'a proc_machine_scheme \<Rightarrow> (int \<times> 'a proc_machine_scheme) option" where
  "inject_loop proc argv cur i k =
     (if cur = 0 then Some (0, k)
      else do {
        (argument_str, k) \<leftarrow> process_malloc proc 512 k;
        if argument_str = 0 then Some (- ENOMEM, k)
        else let m = strncpy (mem k) argument_str cur 512;
                 m = store32 m (argv + 4 * i) argument_str
             in inject_loop proc argv (arg_next m cur) (i + 1) (k\<lparr>mem := m\<rparr>)
      })"

definition process_inject_arguments :: "u32 \<Rightarrow> u32 \<Rightarrow> 'a proc_machine_scheme \<Rightarrow> (int \<times> 'a proc_machine_scheme) option" where
  "process_inject_arguments proc root k = do {
     argc \<leftarrow> command_count_arguments (mem k) root;
     if argc = 0 then Some (- EIO, k)
     else do {
       (argv, k) \<leftarrow> process_malloc proc (4 * of_nat argc) k;
       if argv = 0 then Some (- ENOMEM, k)
       else do {
         (res, k) \<leftarrow> inject_loop proc argv root 0 k;
         if res < 0 then Some (res, k)
         else let m = store32 (mem k) (proc + 12424) (of_nat argc);
                  m = store32 m (proc + 12428) argv
              in Some (0, k\<lparr>mem := m\<rparr>)
       }
     }
   }"

section \<open>A machine for the examples\<close>

text \<open>A freshly booted kernel with the memory contents \<open>m\<close>: an empty heap of 25600 blocks, no open
  files, no processes, and an address translation that is the identity.\<close>

definition sample_machine :: "mem \<Rightarrow> proc_machine" where
  "sample_machine m = \<lparr>video_mem = (\<lambda>_. 0), terminal_row = 0, terminal_col = 0,
     kernel_heap = kernel_heap (kheap_init machine4), mem = m, current_directory = 0, cr3 = 0, cr0 = 0,
     io_log = [], dev_b = (\<lambda>_ _. 8), dev_w = (\<lambda>_ _. 0), addr_disk = 0x8000, addr_fat16_fs = 0x8100,
     local_addr = (\<lambda>_. 0x1FF000), filesystems = replicate 12 0, file_descriptors = replicate 512 0,
     current_task = 0, task_tail = 0, task_head = 0, kernel_4gb_chunk = 0, data_segments = 0x10,
     returned_to = None, mmu = (\<lambda>_ _ a. a), current_process = 0, processes = replicate 16 0, lit_r = 0\<rparr>"

end
