(* ===== verification/Keyboard.thy ===== *)
theory Keyboard
  imports Process
begin

text \<open>
  The keyboard buffer of \<^verbatim>\<open>src/keyboard/keyboard.c\<close>: a ring of 4096 characters inside \<open>struct process\<close>
  with two running indices, filled by the interrupt for the current process and emptied by the
  \<open>getkey\<close> command of the current task. A zero byte marks a free slot. The buffer refines a queue:
  the locale \<open>char_queue\<close> states what its clients rely on, first in first out follows from it, and
  the operations on raw memory are an interpretation of it.
\<close>

section \<open>The code\<close>

definition kb_tail :: "mem \<Rightarrow> u32 \<Rightarrow> u32" where "kb_tail m p = load32 m (p + 12416)"
definition kb_head :: "mem \<Rightarrow> u32 \<Rightarrow> u32" where "kb_head m p = load32 m (p + 12420)"

text \<open>\<open>sizeof\<close> makes the division unsigned.\<close>

definition keyboard_get_tail_index :: "mem \<Rightarrow> u32 \<Rightarrow> u32" where
  "keyboard_get_tail_index m proc = kb_tail m proc mod 4096"

definition keyboard_backspace :: "u32 \<Rightarrow> mem \<Rightarrow> mem" where
  "keyboard_backspace proc m =
     (let m = store32 m (proc + 12416) (kb_tail m proc - 1);
          real_index = keyboard_get_tail_index m proc
      in m(proc + 8320 + real_index := 0x00))"

definition keyboard_push :: "u8 \<Rightarrow> 'a proc_machine_scheme \<Rightarrow> 'a proc_machine_scheme" where
  "keyboard_push c k =
     (if c = 0 then k
      else let proc = process_current k
           in if proc = 0 then k
              else let real_index = keyboard_get_tail_index (mem k) proc;
                       m = (mem k)(proc + 8320 + real_index := c)
                   in k\<lparr>mem := store32 m (proc + 12416) (kb_tail m proc + 1)\<rparr>)"

definition keyboard_pop :: "'a proc_machine_scheme \<Rightarrow> u8 \<times> 'a proc_machine_scheme" where
  "keyboard_pop k =
     (if task_current k = 0 then (0x00, k)
      else let proc = task_process (mem k) (task_current k);
               real_index = kb_head (mem k) proc mod 4096;
               c = mem k (proc + 8320 + real_index)
           in if c = 0x00 then (0x00, k)
              else let m = (mem k)(proc + 8320 + real_index := 0)
                   in (c, k\<lparr>mem := store32 m (proc + 12420) (kb_head m proc + 1)\<rparr>))"

section \<open>A queue of characters\<close>

fun take_n :: "('s \<Rightarrow> 'c \<times> 's) \<Rightarrow> nat \<Rightarrow> 's \<Rightarrow> 'c list \<times> 's" where
  "take_n pop 0 s = ([], s)"
| "take_n pop (Suc n) s = (let (c, s) = pop s; (cs, s) = take_n pop n s in (c # cs, s))"

locale char_queue =
  fixes push :: "u8 \<Rightarrow> 's \<Rightarrow> 's"
    and pop :: "'s \<Rightarrow> u8 \<times> 's"
    and holds :: "u8 list \<Rightarrow> 's \<Rightarrow> bool"
    and cap :: nat
  assumes push_holds: "holds q s \<Longrightarrow> c \<noteq> 0 \<Longrightarrow> length q < cap \<Longrightarrow> holds (q @ [c]) (push c s)"
    and pop_holds: "holds (c # q) s \<Longrightarrow> fst (pop s) = c \<and> holds q (snd (pop s))"
    and pop_empty: "holds [] s \<Longrightarrow> pop s = (0, s)"
begin

lemma pushes_hold:
  "holds q s \<Longrightarrow> 0 \<notin> set xs \<Longrightarrow> length q + length xs \<le> cap \<Longrightarrow> holds (q @ xs) (fold push xs s)"
proof (induction xs arbitrary: q s)
  case (Cons c cs)
  then have "holds (q @ [c]) (push c s)" by (intro push_holds) auto
  from Cons.IH [OF this] Cons.prems show ?case by simp
qed simp

lemma takes_hold:
  "holds (xs @ q) s \<Longrightarrow> fst (take_n pop (length xs) s) = xs \<and> holds q (snd (take_n pop (length xs) s))"
proof (induction xs arbitrary: s)
  case (Cons c cs)
  then have "fst (pop s) = c" "holds (cs @ q) (snd (pop s))" using pop_holds [of c "cs @ q" s] by simp_all
  with Cons.IH [of "snd (pop s)"] show ?case by (simp add: case_prod_unfold)
qed simp

text \<open>First in, first out; and an empty queue says so.\<close>

lemma fifo:
  assumes "holds q s" "0 \<notin> set xs" "length q + length xs \<le> cap"
  shows "fst (take_n pop (length q + length xs) (fold push xs s)) = q @ xs"
    and "fst (pop (snd (take_n pop (length q + length xs) (fold push xs s)))) = 0"
proof -
  have h: "holds ((q @ xs) @ []) (fold push xs s)" using pushes_hold [OF assms] by simp
  from takes_hold [OF h] show "fst (take_n pop (length q + length xs) (fold push xs s)) = q @ xs" by simp
  from takes_hold [OF h] pop_empty
  show "fst (pop (snd (take_n pop (length q + length xs) (fold push xs s)))) = 0" by simp
qed

end

section \<open>The ring refines the queue\<close>

definition kb_slot :: "u32 \<Rightarrow> u32 \<Rightarrow> u32" where
  "kb_slot p x = p + 8320 + x mod 4096"

definition kb_ring :: "mem \<Rightarrow> u32 \<Rightarrow> u8 list \<Rightarrow> bool" where
  "kb_ring m p q \<longleftrightarrow> length q \<le> 4096 \<and> 0 \<notin> set q \<and> kb_tail m p = kb_head m p + of_nat (length q) \<and>
     (\<forall>d < 4096. m (kb_slot p (kb_head m p + of_nat d)) = (if d < length q then q ! d else 0))"

text \<open>The interrupt fills the buffer of the process that the current task runs, and the task structure
  lies outside that process.\<close>

definition kb_holds :: "u8 list \<Rightarrow> 'a proc_machine_scheme \<Rightarrow> bool" where
  "kb_holds q k \<longleftrightarrow> (let p = process_current k; t = task_current k in
     p \<noteq> 0 \<and> t \<noteq> 0 \<and> task_process (mem k) t = p \<and> (\<forall>j < 4. unat (t + 52 + of_nat j - p) \<ge> 12432) \<and>
     kb_ring (mem k) p q)"

lemma mod_4096_inj:
  assumes "(a + d) mod 4096 = (a + e) mod (4096 :: nat)" "d < 4096" "e < 4096"
  shows "d = e"
proof -
  have "(int a + int d) mod 4096 = (int a + int e) mod 4096"
    using arg_cong [OF assms(1), of int] by (simp add: zmod_int)
  then have "4096 dvd int d - int e" by (simp add: mod_eq_dvd_iff)
  then obtain c where c: "int d - int e = 4096 * c" by (elim dvdE)
  with assms(2,3) have "c = 0" by linarith
  with c show ?thesis by simp
qed

lemma unat_slot: "unat (x mod 4096 :: u32) = unat x mod 4096"
  by (simp add: unat_mod_distrib)

lemma unat_slot_add: "unat ((h + of_nat d) mod 4096 :: u32) = (unat h + d) mod 4096"
  by (simp add: unat_slot unat_word_ariths unat_of_nat take_bit_eq_mod mod_mod_cancel mod_simps)

lemma kb_slot_inj: "kb_slot p (h + of_nat d) = kb_slot p (h + of_nat e) \<Longrightarrow> d < 4096 \<Longrightarrow> e < 4096 \<Longrightarrow> d = e"
  using mod_4096_inj [of "unat h" d e] by (metis kb_slot_def add_left_cancel unat_slot_add)

lemma kb_slot_wrap: "kb_slot p (h + 4096) = kb_slot p h"
proof -
  have "(h + 4096) mod 4096 = h mod 4096"
    using unat_slot_add [of h 4096] by (simp only: word_unat_eq_iff unat_slot) simp
  then show ?thesis by (simp add: kb_slot_def)
qed

lemma kb_slot_offset: "unat (kb_slot p x - p) = 8320 + unat x mod 4096"
proof -
  have "unat x mod 4096 < 4096" by simp
  then have "unat (8320 + x mod 4096 :: u32) = 8320 + unat x mod 4096"
    by (subst unat_add_small) (simp_all add: unat_slot)
  moreover have "kb_slot p x - p = 8320 + x mod 4096" by (simp add: kb_slot_def)
  ultimately show ?thesis by simp
qed

text \<open>A field of the structure is written: what lies at another distance from its start stays.\<close>

lemma store32_off:
  assumes "unat (a - p) < off \<or> off + 4 \<le> unat (a - p)" "off + 4 \<le> 4294967296"
  shows "store32 m (p + of_nat off) v a = m a"
proof -
  have "a \<noteq> p + of_nat off + of_nat i" if "i < 4" for i
  proof
    assume "a = p + of_nat off + of_nat i"
    then have "a - p = of_nat (off + i)" by simp
    moreover have "unat (of_nat (off + i) :: u32) = off + i" using assms(2) that by (intro unat_of_nat_u32) linarith
    ultimately have "unat (a - p) = off + i" by simp
    with assms(1) that show False by linarith
  qed
  from this [of 0] this [of 1] this [of 2] this [of 3] show ?thesis by (simp add: store32_def)
qed

lemma byte_off: "unat (a - p) \<noteq> unat (b - p) \<Longrightarrow> (m(b := v)) a = m a"
  by auto

lemma load32_eqI: "(\<And>j. j < 4 \<Longrightarrow> m' (a + of_nat j) = m (a + of_nat j)) \<Longrightarrow> load32 m' a = load32 m a"
proof -
  assume h: "\<And>j. j < 4 \<Longrightarrow> m' (a + of_nat j) = m (a + of_nat j)"
  show ?thesis using h [of 0] h [of 1] h [of 2] h [of 3] by (intro load32_cong) simp_all
qed

text \<open>Writing a slot changes neither index; writing an index changes neither a slot nor the other index.\<close>

lemma slot_write:
  "kb_tail (m(kb_slot p x := c)) p = kb_tail m p" "kb_head (m(kb_slot p x := c)) p = kb_head m p"
proof -
  have lt: "unat x mod 4096 < 4096" by simp
  have "unat (p + 12416 + of_nat j - p) = 12416 + j" "unat (p + 12420 + of_nat j - p) = 12420 + j" if "j < 4" for j
    using that unat_of_nat_u32 [of "12416 + j"] unat_of_nat_u32 [of "12420 + j"] by (simp_all add: add.assoc)
  then show "kb_tail (m(kb_slot p x := c)) p = kb_tail m p" "kb_head (m(kb_slot p x := c)) p = kb_head m p"
    unfolding kb_tail_def kb_head_def using lt
    by (auto intro!: load32_eqI byte_off [of _ p] simp: kb_slot_offset simp del: fun_upd_apply)
qed

lemma index_write:
  "kb_tail (store32 m (p + 12416) v) p = v" "kb_head (store32 m (p + 12416) v) p = kb_head m p"
  "kb_tail (store32 m (p + 12420) v) p = kb_tail m p" "kb_head (store32 m (p + 12420) v) p = v"
  by (simp_all add: kb_tail_def kb_head_def) (simp_all add: load32_def store32_def)

lemma index_write_slot:
  "store32 m (p + 12416) v (kb_slot p x) = m (kb_slot p x)" "store32 m (p + 12420) v (kb_slot p x) = m (kb_slot p x)"
proof -
  have "unat (kb_slot p x - p) < 12416" using mod_less_divisor [of 4096 "unat x"] unfolding kb_slot_offset by linarith
  then show "store32 m (p + 12416) v (kb_slot p x) = m (kb_slot p x)" "store32 m (p + 12420) v (kb_slot p x) = m (kb_slot p x)"
    using store32_off [of "kb_slot p x" p 12416 m v] store32_off [of "kb_slot p x" p 12420 m v] by simp_all
qed

lemma kb_ring_push:
  assumes "kb_ring m p q" "c \<noteq> 0" "length q < 4096"
  shows "kb_ring (store32 (m(kb_slot p (kb_tail m p) := c)) (p + 12416) (kb_tail m p + 1)) p (q @ [c])"
proof -
  have t: "kb_tail m p = kb_head m p + of_nat (length q)" using assms(1) by (simp add: kb_ring_def)
  have "(m(kb_slot p (kb_tail m p) := c)) (kb_slot p (kb_head m p + of_nat d)) =
      (if d < length (q @ [c]) then (q @ [c]) ! d else 0)" if "d < 4096" for d
    using assms that kb_slot_inj [of p "kb_head m p" d "length q"]
    by (auto simp: kb_ring_def t nth_append less_Suc_eq)
  with assms t show ?thesis by (auto simp: kb_ring_def index_write index_write_slot slot_write)
qed

lemma kb_ring_pop:
  assumes "kb_ring m p (c # q)"
  shows "m (kb_slot p (kb_head m p)) = c"
    and "kb_ring (store32 (m(kb_slot p (kb_head m p) := 0)) (p + 12420) (kb_head m p + 1)) p q"
proof -
  let ?h = "kb_head m p"
  have s: "m (kb_slot p (?h + of_nat d)) = (if d < length (c # q) then (c # q) ! d else 0)" if "d < 4096" for d
    using assms that by (simp add: kb_ring_def)
  from s [of 0] show "m (kb_slot p ?h) = c" by simp
  have "(m(kb_slot p ?h := 0)) (kb_slot p (?h + 1 + of_nat d)) = (if d < length q then q ! d else 0)" if "d < 4096" for d
  proof (cases "d = 4095")
    case True
    then have "kb_slot p (?h + 1 + of_nat d) = kb_slot p ?h" using kb_slot_wrap [of p ?h] by (simp add: add.assoc)
    with True assms show ?thesis by (simp add: kb_ring_def)
  next
    case False
    with that have d: "Suc d < 4096" by simp
    have "kb_slot p (?h + of_nat (Suc d)) \<noteq> kb_slot p (?h + of_nat 0)"
      using kb_slot_inj [of p ?h "Suc d" 0] d by auto
    with s [OF d] show ?thesis by (simp add: algebra_simps)
  qed
  with assms show "kb_ring (store32 (m(kb_slot p ?h := 0)) (p + 12420) (?h + 1)) p q"
    by (auto simp: kb_ring_def index_write index_write_slot slot_write algebra_simps)
qed

lemma kb_ring_empty:
  assumes "kb_ring m p []"
  shows "m (kb_slot p (kb_head m p)) = 0"
proof -
  have "\<forall>d < 4096. m (kb_slot p (kb_head m p + of_nat d)) = 0" using assms by (simp add: kb_ring_def)
  from this [THEN spec, of 0] show ?thesis by simp
qed

text \<open>The task structure is outside the process, so its link to the process survives.\<close>

lemma process_link:
  assumes "\<forall>j < 4. unat (t + 52 + of_nat j - p) \<ge> 12432" "off + 4 \<le> 12432"
  shows "task_process (store32 (m(kb_slot p x := c)) (p + of_nat off) v) t = task_process m t"
  unfolding task_process_def
proof (rule load32_eqI)
  fix j :: nat
  assume "j < 4"
  with assms(1) have far: "unat (t + 52 + of_nat j - p) \<ge> 12432" by blast
  have "unat (kb_slot p x - p) < 12416" using mod_less_divisor [of 4096 "unat x"] unfolding kb_slot_offset by linarith
  with far assms(2) show "store32 (m(kb_slot p x := c)) (p + of_nat off) v (t + 52 + of_nat j) = m (t + 52 + of_nat j)"
    using store32_off [of "t + 52 + of_nat j" p off "m(kb_slot p x := c)" v] by auto
qed

lemma keyboard_push_holds:
  assumes "kb_holds q k" "c \<noteq> 0" "length q < 4096"
  shows "kb_holds (q @ [c]) (keyboard_push c k)"
proof -
  let ?p = "process_current k" and ?t = "task_current k"
  let ?m = "(mem k)(kb_slot ?p (kb_tail (mem k) ?p) := c)"
  let ?k = "k\<lparr>mem := store32 ?m (?p + 12416) (kb_tail (mem k) ?p + 1)\<rparr>"
  have h: "?p \<noteq> 0" "?t \<noteq> 0" "task_process (mem k) ?t = ?p" "kb_ring (mem k) ?p q"
      "\<forall>j < 4. unat (?t + 52 + of_nat j - ?p) \<ge> 12432"
    using assms(1) by (simp_all add: kb_holds_def Let_def)
  have "keyboard_push c k = ?k"
    using h(1) assms(2) slot_write(1) [of "mem k" ?p _ c]
    by (simp add: keyboard_push_def keyboard_get_tail_index_def Let_def kb_slot_def)
  moreover have "process_current ?k = ?p" "task_current ?k = ?t" by (simp_all add: process_current_def task_current_def)
  ultimately show ?thesis
    using h kb_ring_push [OF h(4) assms(2,3)] process_link [OF h(5), of 12416]
    by (simp add: kb_holds_def Let_def)
qed

lemma keyboard_pop_holds:
  assumes "kb_holds (c # q) k"
  shows "fst (keyboard_pop k) = c \<and> kb_holds q (snd (keyboard_pop k))"
proof -
  let ?p = "process_current k" and ?t = "task_current k"
  let ?m = "(mem k)(kb_slot ?p (kb_head (mem k) ?p) := 0)"
  let ?k = "k\<lparr>mem := store32 ?m (?p + 12420) (kb_head (mem k) ?p + 1)\<rparr>"
  have h: "?p \<noteq> 0" "?t \<noteq> 0" "task_process (mem k) ?t = ?p" "kb_ring (mem k) ?p (c # q)"
      "\<forall>j < 4. unat (?t + 52 + of_nat j - ?p) \<ge> 12432"
    using assms by (simp_all add: kb_holds_def Let_def)
  then have "c \<noteq> 0" by (simp add: kb_ring_def)
  with h have "keyboard_pop k = (c, ?k)"
    using kb_ring_pop(1) [OF h(4)] slot_write(2) [of "mem k" ?p _ 0]
    by (simp add: keyboard_pop_def Let_def kb_slot_def)
  moreover have "process_current ?k = ?p" "task_current ?k = ?t" by (simp_all add: process_current_def task_current_def)
  ultimately show ?thesis
    using h kb_ring_pop(2) [OF h(4)] process_link [OF h(5), of 12420]
    by (simp add: kb_holds_def Let_def)
qed

lemma keyboard_pop_empty:
  assumes "kb_holds [] k"
  shows "keyboard_pop k = (0, k)"
  using assms kb_ring_empty [of "mem k" "process_current k"]
  by (simp add: kb_holds_def Let_def keyboard_pop_def kb_slot_def)

interpretation kb: char_queue keyboard_push keyboard_pop kb_holds 4096
  by unfold_locales (rule keyboard_push_holds keyboard_pop_holds keyboard_pop_empty; assumption)+

section \<open>Correctness\<close>

text \<open>C14. The keyboard buffer is a first-in first-out queue: as long as no more than 4096 characters wait,
  whatever has been typed is read back in the order it was typed, after what was waiting already, and
  the next read after that reports that nothing is left.\<close>

theorem keyboard_fifo:
  assumes "kb_holds q k" "0 \<notin> set xs" "length q + length xs \<le> 4096"
  shows "fst (take_n keyboard_pop (length q + length xs) (fold keyboard_push xs k)) = q @ xs \<and>
    fst (keyboard_pop (snd (take_n keyboard_pop (length q + length xs) (fold keyboard_push xs k)))) = 0"
  using kb.fifo [OF assms] by simp

lemma keyboard_push_full:
  assumes "kb_holds q k" "length q = 4096" "c \<noteq> 0"
  shows "fst (keyboard_pop (keyboard_push c k)) = c"
proof -
  let ?p = "process_current k" and ?t = "task_current k"
  let ?m = "(mem k)(kb_slot ?p (kb_tail (mem k) ?p) := c)"
  let ?k = "k\<lparr>mem := store32 ?m (?p + 12416) (kb_tail (mem k) ?p + 1)\<rparr>"
  have h: "?p \<noteq> 0" "?t \<noteq> 0" "task_process (mem k) ?t = ?p" "kb_ring (mem k) ?p q"
      "\<forall>j < 4. unat (?t + 52 + of_nat j - ?p) \<ge> 12432"
    using assms(1) by (simp_all add: kb_holds_def Let_def)
  have "kb_tail (mem k) ?p = kb_head (mem k) ?p + 4096" using h(4) assms(2) by (simp add: kb_ring_def)
  then have s: "kb_slot ?p (kb_tail (mem k) ?p) = kb_slot ?p (kb_head (mem k) ?p)" by (simp add: kb_slot_wrap)
  have k': "keyboard_push c k = ?k"
    using h(1) assms(3) slot_write(1) [of "mem k" ?p _ c]
    by (simp add: keyboard_push_def keyboard_get_tail_index_def Let_def kb_slot_def)
  have cur: "task_current ?k = ?t" by (simp add: task_current_def)
  have pr: "task_process (mem ?k) ?t = ?p" using process_link [OF h(5), of 12416] h(3) by simp
  have hd: "kb_head (mem ?k) ?p = kb_head (mem k) ?p" by (simp add: index_write slot_write)
  have "mem ?k (kb_slot ?p (kb_head (mem k) ?p)) = c" by (simp add: index_write_slot s)
  then show ?thesis
    unfolding k' keyboard_pop_def cur using h(2) assms(3) by (simp only: pr hd Let_def) (simp add: kb_slot_def)
qed

lemma kb_ring_backspace:
  assumes "kb_ring m p (q @ [c])"
  shows "kb_ring (keyboard_backspace p m) p q"
proof -
  let ?h = "kb_head m p" and ?n = "length q"
  have t: "kb_tail m p - 1 = ?h + of_nat ?n" using assms by (simp add: kb_ring_def)
  have e: "keyboard_backspace p m = (store32 m (p + 12416) (?h + of_nat ?n))(kb_slot p (?h + of_nat ?n) := 0)"
    unfolding keyboard_backspace_def keyboard_get_tail_index_def Let_def t
    by (simp add: index_write kb_slot_def)
  have "((store32 m (p + 12416) (?h + of_nat ?n))(kb_slot p (?h + of_nat ?n) := 0)) (kb_slot p (?h + of_nat d)) =
      (if d < ?n then q ! d else 0)" if "d < 4096" for d
    using assms that kb_slot_inj [of p ?h d ?n]
    by (cases "d = ?n") (auto simp: kb_ring_def nth_append index_write_slot)
  moreover have "length q \<le> 4096" "0 \<notin> set q" using assms by (simp_all add: kb_ring_def)
  ultimately show ?thesis
    unfolding e kb_ring_def by (simp add: index_write slot_write del: fun_upd_apply)
qed

text \<open>\<open>keyboard_backspace\<close> takes the last character typed out of the buffer.\<close>

theorem keyboard_backspace_undoes:
  assumes "kb_ring m p (q @ [c])"
  shows "kb_ring (keyboard_backspace p m) p q"
  using assms by (rule kb_ring_backspace)

text \<open>A full buffer is not refused: the next character overwrites the oldest one, so it is read first,
  before the 4095 that were typed before it.\<close>

theorem keyboard_overflow:
  assumes "kb_holds q k" "length q = 4096" "c \<noteq> 0"
  shows "fst (keyboard_pop (keyboard_push c k)) = c"
  using assms by (rule keyboard_push_full)

text \<open>A process at \<open>0x20000\<close> with an empty buffer and its task at \<open>0x9000\<close>.\<close>

definition typing_machine :: proc_machine where
  "typing_machine = (sample_machine (store32 (\<lambda>_. 0) 0x9034 0x20000))\<lparr>current_process := 0x20000, current_task := 0x9000\<rparr>"

lemma typing_machine_holds: "kb_holds [] typing_machine"
proof -
  have z: "store32 (\<lambda>_. 0) 0x9034 0x20000 a = 0" if "unat (a - 0x20000) < 12432" for a :: u32
  proof -
    have "a \<noteq> 0x9034" "a \<noteq> 0x9035" "a \<noteq> 0x9036" "a \<noteq> 0x9037" using that by auto
    then show ?thesis by (simp add: store32_def)
  qed
  have s: "unat (kb_slot 0x20000 x - 0x20000) < 12432" for x
    using mod_less_divisor [of 4096 "unat x"] unfolding kb_slot_offset by linarith
  have "kb_ring (store32 (\<lambda>_. 0) 0x9034 0x20000) 0x20000 []"
    by (simp add: kb_ring_def z [OF s])
      (simp add: kb_tail_def kb_head_def load32_def z)
  moreover have "\<forall>j < 4. unat (0x9000 + 52 + of_nat j - 0x20000 :: u32) \<ge> 12432"
  proof (intro allI impI)
    fix j :: nat
    assume "j < 4"
    then consider "j = 0" | "j = 1" | "j = 2" | "j = 3" by linarith
    then show "unat (0x9000 + 52 + of_nat j - 0x20000 :: u32) \<ge> 12432" by cases simp_all
  qed
  ultimately show ?thesis
    by (simp add: kb_holds_def Let_def typing_machine_def process_current_def task_current_def task_process_def
        sample_machine_def)
qed

theorem keyboard_fifo_witness:
  "fst (take_n keyboard_pop 2 (fold keyboard_push [104, 105] typing_machine)) = [104, 105]"
proof -
  have "(0 :: u8) \<notin> set [104, 105]" by simp
  from keyboard_fifo [OF typing_machine_holds this] show ?thesis by (simp add: numeral_2_eq_2 del: take_n.simps)
qed

theorem keyboard_overflow_witness:
  "fst (keyboard_pop (keyboard_push 66 (fold keyboard_push (replicate 4096 65) typing_machine))) = 66"
proof -
  have "kb_holds ([] @ replicate 4096 65) (fold keyboard_push (replicate 4096 65) typing_machine)"
    using typing_machine_holds by (rule kb.pushes_hold) simp_all
  from keyboard_overflow [OF this, of 66] show ?thesis by simp
qed

theorem keyboard_backspace_undoes_witness:
  "kb_ring (keyboard_backspace 0x20000 (mem (keyboard_push 65 typing_machine))) 0x20000 []"
proof -
  have "kb_holds [65] (keyboard_push 65 typing_machine)"
    using kb.push_holds [OF typing_machine_holds, of 65] by simp
  moreover have "process_current (keyboard_push 65 typing_machine) = 0x20000"
    by (simp add: keyboard_push_def process_current_def typing_machine_def Let_def)
  ultimately have "kb_ring (mem (keyboard_push 65 typing_machine)) 0x20000 ([] @ [65])"
    by (simp add: kb_holds_def Let_def)
  then show ?thesis by (rule keyboard_backspace_undoes)
qed

end
