(* ===== verification/Isr80h.thy ===== *)
theory Isr80h
  imports Keyboard
begin

text \<open>
  The system calls of \<^verbatim>\<open>src/isr80h/misc.c\<close>, \<^verbatim>\<open>io.c\<close>, \<^verbatim>\<open>heap.c\<close> and \<^verbatim>\<open>process.c\<close>: each reads its arguments
  from the stack of the calling task and works on that task or on its process. Two of them start a
  program and end in \<open>task_return\<close>, which leaves the kernel and never comes back: a command returns
  \<open>Some v\<close> for the value \<open>v\<close>, and \<open>None\<close> when it has left. The outer option is \<open>None\<close>, as everywhere,
  for a run that never ends or has no defined behaviour.
\<close>

section \<open>The code\<close>

type_synonym 'k command_result = "(u32 option \<times> 'k) option"

text \<open>The characters of a zero-terminated string, which \<open>print\<close> reads when it is given its address.\<close>

partial_function (option) read_string :: "mem \<Rightarrow> u32 \<Rightarrow> u8 list option" where
  "read_string m p = (if m p = 0 then Some [] else do { s \<leftarrow> read_string m (p + 1); Some (m p # s) })"

definition print_at :: "u32 \<Rightarrow> 'a proc_machine_scheme \<Rightarrow> 'a proc_machine_scheme option" where
  "print_at str k = do { s \<leftarrow> read_string (mem k) str; Some (print s k) }"

definition isr80h_command0_sum :: "u32 \<Rightarrow> 'a proc_machine_scheme \<Rightarrow> 'a proc_machine_scheme command_result" where
  "isr80h_command0_sum frame k =
     (let (v2, k) = task_get_stack_item (task_current k) 1 k;
          (v1, k) = task_get_stack_item (task_current k) 0 k
      in Some (Some (v1 + v2), k))"

definition isr80h_command1_print :: "u32 \<Rightarrow> 'a proc_machine_scheme \<Rightarrow> 'a proc_machine_scheme command_result" where
  "isr80h_command1_print frame k = do {
     let (user_space_msg_buf, k) = task_get_stack_item (task_current k) 0 k;
     let buf = local_addr k Print_buf;
     let k = k\<lparr>mem := memset (mem k) buf 0 1024\<rparr>;
     (res, k) \<leftarrow> copy_string_from_task (task_current k) user_space_msg_buf buf 1024 k;
     if ISERR res then Some (Some 0, k)
     else do { k \<leftarrow> print_at buf k; Some (Some 0, k) }
   }"

definition isr80h_command2_getkey :: "u32 \<Rightarrow> 'a proc_machine_scheme \<Rightarrow> 'a proc_machine_scheme command_result" where
  "isr80h_command2_getkey frame k = (let (c, k) = keyboard_pop k in Some (Some (scast c), k))"

definition isr80h_command3_putchar :: "u32 \<Rightarrow> 'a proc_machine_scheme \<Rightarrow> 'a proc_machine_scheme command_result" where
  "isr80h_command3_putchar frame k =
     (let (item, k) = task_get_stack_item (task_current k) 0 k; c = ucast item
      in Some (Some 0, terminal_write_char c 15 k))"

definition isr80h_command4_malloc :: "u32 \<Rightarrow> 'a proc_machine_scheme \<Rightarrow> 'a proc_machine_scheme command_result" where
  "isr80h_command4_malloc frame k = do {
     let (sz, k) = task_get_stack_item (task_current k) 0 k;
     (ptr, k) \<leftarrow> process_malloc (task_process (mem k) (task_current k)) sz k;
     Some (Some ptr, k)
   }"

definition isr80h_command5_free :: "u32 \<Rightarrow> 'a proc_machine_scheme \<Rightarrow> 'a proc_machine_scheme command_result" where
  "isr80h_command5_free frame k =
     (let (ptr, k) = task_get_stack_item (task_current k) 0 k
      in Some (Some 0, process_free (task_process (mem k) (task_current k)) ptr k))"

text \<open>Both ways to start a program end alike: the task of the new process is switched to and its
  registers are loaded, which leaves the kernel.\<close>

definition run_process :: "u32 \<Rightarrow> 'a proc_machine_scheme \<Rightarrow> 'a proc_machine_scheme" where
  "run_process proc k =
     (let (_, k) = task_switch (proc_task (mem k) proc) k
      in task_return (task_registers (proc_task (mem k) proc)) k)"

definition isr80h_command6_process_load_start ::
  "u32 \<Rightarrow> 'a proc_machine_scheme \<Rightarrow> 'a proc_machine_scheme command_result" where
  "isr80h_command6_process_load_start frame k = do {
     let (filename_user_ptr, k) = task_get_stack_item (task_current k) 0 k;
     let filename = local_addr k Path_buf;
     let k = k\<lparr>mem := copy_out filename (chars ''0:/'' @ [0]) (mem k)\<rparr>;
     (res, k) \<leftarrow> copy_string_from_task (task_current k) filename_user_ptr (filename + 3) (108 - 3) k;
     if res < 0 then Some (Some (word_of_int res), k)
     else do {
       (res, process, k) \<leftarrow> process_load_switch filename k;
       if res < 0 then Some (Some (word_of_int res), k)
       else Some (None, run_process process k)
     }
   }"

definition isr80h_command7_invoke_system_command ::
  "u32 \<Rightarrow> 'a proc_machine_scheme \<Rightarrow> 'a proc_machine_scheme command_result" where
  "isr80h_command7_invoke_system_command frame k = do {
     let (item, k) = task_get_stack_item (task_current k) 0 k;
     let args = task_virtual_address_to_physical (mem k) (task_current k) item;
     len \<leftarrow> (if args = 0 then Some 0 else strlen (mem k) args);
     if args = 0 \<or> len = 0 then Some (Some (ERROR (- EINVARG)), k)
     else do {
       let path = local_addr k Path_buf;
       let m = copy_out path (chars ''0:/'' @ [0]) (mem k);
       let m = strncpy m (path + 3) args (108 - 3);
       (res, proc, k) \<leftarrow> process_load_switch path (k\<lparr>mem := m\<rparr>);
       if ISERR res then Some (Some (ERROR res), k)
       else do {
         (res, k) \<leftarrow> process_inject_arguments proc args k;
         if ISERR res then Some (Some (ERROR res), k)
         else Some (None, run_process proc k)
       }
     }
   }"

definition isr80h_command6_get_program_arguments ::
  "u32 \<Rightarrow> 'a proc_machine_scheme \<Rightarrow> 'a proc_machine_scheme command_result" where
  "isr80h_command6_get_program_arguments frame k =
     (let proc = task_process (mem k) (task_current k);
          (item, k) = task_get_stack_item (task_current k) 0 k;
          arguments = task_virtual_address_to_physical (mem k) (task_current k) item;
          (argc, argv) = process_get_arguments (mem k) proc;
          m = store32 (mem k) arguments argc
      in Some (Some 0, k\<lparr>mem := store32 m (arguments + 4) argv\<rparr>))"

end
