(* ===== verification/Idt.thy ===== *)
theory Idt
  imports Isr80h
begin

text \<open>
  Interrupts: the descriptor table, the table of interrupt callbacks and the table of system calls of
  \<^verbatim>\<open>src/idt/idt.c\<close>, the registration of the commands in \<^verbatim>\<open>src/isr80h/isr80h.c\<close>, the keyboard driver of
  \<^verbatim>\<open>src/keyboard/classic.c\<close> and the list of keyboards of \<^verbatim>\<open>keyboard.c\<close>. A function pointer the program
  stores is a constructor of a datatype with one case for each function it is set to; calling it runs
  that function. The entry points in \<^verbatim>\<open>idt.asm\<close> are addresses the linker chose, fields of the state.
\<close>

section \<open>The state\<close>

record idt_desc =
  offset_1 :: u16
  selector :: u16
  zero_byte :: u8
  type_attr :: u8
  offset_2 :: u16

datatype interrupt_callback = No_callback | Classic_keyboard_handle_interupt

datatype isr80h_command = No_command | Command0_sum | Command1_print | Command2_getkey | Command3_putchar |
  Command4_malloc | Command5_free | Command6_process_load_start | Command7_invoke_system_command |
  Command8_get_program_arguments

record idt_machine = proc_machine +
  idt_descriptors :: "idt_desc list"
  idtr_limit :: u16
  idtr_base :: u32
  idt_loaded :: bool
  interrupt_callbacks :: "interrupt_callback list"
  isr80h_commands :: "isr80h_command list"
  interrupt_pointer_table :: "u32 list"
  addr_idt_descriptors :: u32
  addr_idt_zero :: u32
  addr_isr80h_wrapper :: u32
  keyboard_list_head :: u32
  keyboard_list_last :: u32
  addr_classic_keyboard :: u32

abbreviation (input) PEACHOS_TOTAL_INTERRUPTS :: nat where "PEACHOS_TOTAL_INTERRUPTS \<equiv> 512"
abbreviation (input) PEACHOS_MAX_ISR80H_COMMANDS :: nat where "PEACHOS_MAX_ISR80H_COMMANDS \<equiv> 1024"
abbreviation (input) KERNEL_CODE_SELECTOR :: u16 where "KERNEL_CODE_SELECTOR \<equiv> 0x08"

section \<open>The descriptor table\<close>

definition no_interrupt_handler :: "'a idt_machine_scheme \<Rightarrow> 'a idt_machine_scheme" where
  "no_interrupt_handler k = outb 0x20 0x20 k"

definition idt_zero :: "'a idt_machine_scheme \<Rightarrow> 'a idt_machine_scheme" where
  "idt_zero k = print (chars ''Devide by zero error'' @ [10]) k"

definition idt_set :: "nat \<Rightarrow> u32 \<Rightarrow> 'a idt_machine_scheme \<Rightarrow> 'a idt_machine_scheme" where
  "idt_set interupt_no addr k = k\<lparr>idt_descriptors := (idt_descriptors k)[interupt_no :=
     \<lparr>offset_1 = ucast (addr AND 0x0000ffff), selector = KERNEL_CODE_SELECTOR, zero_byte = 0x00,
      type_attr = 0xEE, offset_2 = ucast (drop_bit 16 addr)\<rparr>]\<rparr>"

text \<open>\<open>sizeof(PEACHOS_TOTAL_INTERRUPTS)\<close> is the size of an \<open>int\<close>: the first four bytes of the table, the
  offset and the selector of entry 0, are cleared.\<close>

definition idt_init :: "'a idt_machine_scheme \<Rightarrow> 'a idt_machine_scheme" where
  "idt_init k =
     (let k = k\<lparr>idt_descriptors := (idt_descriptors k)[0 := (idt_descriptors k ! 0)\<lparr>offset_1 := 0, selector := 0\<rparr>]\<rparr>;
          k = k\<lparr>idtr_limit := 8 * 512 - 1, idtr_base := addr_idt_descriptors k\<rparr>;
          k = fold (\<lambda>i k. idt_set i (interrupt_pointer_table k ! i) k) [0..<PEACHOS_TOTAL_INTERRUPTS] k;
          k = idt_set 0 (addr_idt_zero k) k;
          k = idt_set 0x80 (addr_isr80h_wrapper k) k
      in k\<lparr>idt_loaded := True\<rparr>)"

section \<open>Registration\<close>

definition idt_register_interrupt_callback ::
  "int \<Rightarrow> interrupt_callback \<Rightarrow> 'a idt_machine_scheme \<Rightarrow> int \<times> 'a idt_machine_scheme" where
  "idt_register_interrupt_callback interrupt callback k =
     (if interrupt < 0 \<or> interrupt \<ge> int PEACHOS_TOTAL_INTERRUPTS then (- EINVARG, k)
      else (PEACHOS_ALL_OK, k\<lparr>interrupt_callbacks := (interrupt_callbacks k)[nat interrupt := callback]\<rparr>))"

definition isr80h_register_command ::
  "int \<Rightarrow> isr80h_command \<Rightarrow> 'a idt_machine_scheme \<Rightarrow> 'a idt_machine_scheme option" where
  "isr80h_register_command command_id command k =
     (if command_id < 0 \<or> command_id \<ge> int PEACHOS_MAX_ISR80H_COMMANDS
      then panic (chars ''isr80h_register_command: commdand_id out of bounds.'' @ [10]) k
      else if isr80h_commands k ! nat command_id \<noteq> No_command
      then panic (chars ''isr80h_register_command: commdand_id already taken.'' @ [10]) k
      else Some (k\<lparr>isr80h_commands := (isr80h_commands k)[nat command_id := command]\<rparr>))"

definition isr80h_register_commands :: "'a idt_machine_scheme \<Rightarrow> 'a idt_machine_scheme option" where
  "isr80h_register_commands k = do {
     k \<leftarrow> isr80h_register_command 0 Command0_sum k;
     k \<leftarrow> isr80h_register_command 1 Command1_print k;
     k \<leftarrow> isr80h_register_command 2 Command2_getkey k;
     k \<leftarrow> isr80h_register_command 3 Command3_putchar k;
     k \<leftarrow> isr80h_register_command 4 Command4_malloc k;
     k \<leftarrow> isr80h_register_command 5 Command5_free k;
     k \<leftarrow> isr80h_register_command 6 Command6_process_load_start k;
     k \<leftarrow> isr80h_register_command 7 Command7_invoke_system_command k;
     isr80h_register_command 8 Command8_get_program_arguments k
   }"

section \<open>System calls\<close>

definition call_command ::
  "isr80h_command \<Rightarrow> u32 \<Rightarrow> 'a idt_machine_scheme \<Rightarrow> 'a idt_machine_scheme command_result" where
  "call_command command frame k = (case command of
     No_command \<Rightarrow> None
   | Command0_sum \<Rightarrow> isr80h_command0_sum frame k
   | Command1_print \<Rightarrow> isr80h_command1_print frame k
   | Command2_getkey \<Rightarrow> isr80h_command2_getkey frame k
   | Command3_putchar \<Rightarrow> isr80h_command3_putchar frame k
   | Command4_malloc \<Rightarrow> isr80h_command4_malloc frame k
   | Command5_free \<Rightarrow> isr80h_command5_free frame k
   | Command6_process_load_start \<Rightarrow> isr80h_command6_process_load_start frame k
   | Command7_invoke_system_command \<Rightarrow> isr80h_command7_invoke_system_command frame k
   | Command8_get_program_arguments \<Rightarrow> isr80h_command6_get_program_arguments frame k)"

definition isr80h_handle_command ::
  "int \<Rightarrow> u32 \<Rightarrow> 'a idt_machine_scheme \<Rightarrow> 'a idt_machine_scheme command_result" where
  "isr80h_handle_command command frame k =
     (if command < 0 \<or> command \<ge> int PEACHOS_MAX_ISR80H_COMMANDS then Some (Some 0, k)
      else if isr80h_commands k ! nat command = No_command then Some (Some 0, k)
      else call_command (isr80h_commands k ! nat command) frame k)"

text \<open>A command that has left the kernel does not come back to \<open>task_page\<close>.\<close>

definition isr80h_handler :: "int \<Rightarrow> u32 \<Rightarrow> 'a idt_machine_scheme \<Rightarrow> 'a idt_machine_scheme command_result" where
  "isr80h_handler command frame k = do {
     let k = kernel_page k;
     k \<leftarrow> task_current_save_state frame k;
     (res, k) \<leftarrow> isr80h_handle_command command frame k;
     case res of None \<Rightarrow> Some (None, k) | Some v \<Rightarrow> Some (Some v, snd (task_page k))
   }"

section \<open>The keyboard driver\<close>

definition keyboard_scan_set_one :: "u8 list" where
  "keyboard_scan_set_one =
     [0x00, 0x1B] @ chars ''1234567890-='' @
     [0x08, 9] @ chars ''QWERTYUIOP[]'' @
     [0x0d, 0x00] @ chars ''ASDFGHJKL;'' @ [39, 96] @
     [0x00, 92] @ chars ''ZXCVBNM,./'' @ [0x00, 42] @
     [0x00, 0x20, 0x00, 0x00, 0x00, 0x00] @
     [0x00, 0x00, 0x00, 0x00, 0x00, 0x00] @
     [0x00] @ chars ''789-456+1230.''"

text \<open>The comparison is \<open>>\<close>: a code equal to the size is read from past the end, which is \<open>None\<close>.\<close>

definition classic_keyboard_scancode_to_char :: "u8 \<Rightarrow> u8 option" where
  "classic_keyboard_scancode_to_char scancode =
     (let set_one_size = length keyboard_scan_set_one
      in if unat scancode > set_one_size then Some 0
         else if unat scancode < set_one_size then Some (keyboard_scan_set_one ! unat scancode)
         else None)"

definition classic_keyboard_handle_interupt :: "'a idt_machine_scheme \<Rightarrow> 'a idt_machine_scheme option" where
  "classic_keyboard_handle_interupt k =
     (let k = kernel_page k;
          (scancode, k) = insb 0x60 k
      in if scancode AND 0x80 \<noteq> 0 then Some k
         else do {
           c \<leftarrow> classic_keyboard_scancode_to_char scancode;
           let k = (if c \<noteq> 0 then keyboard_push c k else k);
           Some (snd (task_page k))
         })"

definition classic_keyboard_init :: "'a idt_machine_scheme \<Rightarrow> int \<times> 'a idt_machine_scheme" where
  "classic_keyboard_init k =
     (let (_, k) = idt_register_interrupt_callback 0x21 Classic_keyboard_handle_interupt k
      in (0, outb 0x64 0xAE k))"

definition classic_init :: "'a idt_machine_scheme \<Rightarrow> u32" where
  "classic_init k = addr_classic_keyboard k"

text \<open>\<open>struct keyboard\<close>: the \<open>init\<close> pointer, a name of 20 bytes, the next keyboard. The call through \<open>init\<close>
  runs \<open>classic_keyboard_init\<close> for the one keyboard the program has.\<close>

definition kbd_init :: "mem \<Rightarrow> u32 \<Rightarrow> u32" where "kbd_init m kb = load32 m kb"

definition keyboard_insert :: "u32 \<Rightarrow> 'a idt_machine_scheme \<Rightarrow> (int \<times> 'a idt_machine_scheme) option" where
  "keyboard_insert kb k =
     (if kbd_init (mem k) kb = 0 then Some (- EINVARG, k)
      else let k = (if keyboard_list_head k = 0 then k\<lparr>keyboard_list_head := kb, keyboard_list_last := kb\<rparr>
                    else k\<lparr>mem := store32 (mem k) (keyboard_list_last k + 24) kb, keyboard_list_last := kb\<rparr>)
           in if kb = addr_classic_keyboard k then Some (classic_keyboard_init k) else None)"

definition keyboard_init :: "'a idt_machine_scheme \<Rightarrow> 'a idt_machine_scheme option" where
  "keyboard_init k = do { (_, k) \<leftarrow> keyboard_insert (classic_init k) k; Some k }"

section \<open>Interrupts\<close>

definition call_callback :: "interrupt_callback \<Rightarrow> u32 \<Rightarrow> 'a idt_machine_scheme \<Rightarrow> 'a idt_machine_scheme option" where
  "call_callback callback frame k = (case callback of
     No_callback \<Rightarrow> None | Classic_keyboard_handle_interupt \<Rightarrow> classic_keyboard_handle_interupt k)"

definition interrupt_handler :: "nat \<Rightarrow> u32 \<Rightarrow> 'a idt_machine_scheme \<Rightarrow> 'a idt_machine_scheme option" where
  "interrupt_handler interrupt frame k = do {
     let k = kernel_page k;
     let callback = interrupt_callbacks k ! interrupt;
     k \<leftarrow> (if callback \<noteq> No_callback
          then do { k \<leftarrow> task_current_save_state frame k; call_callback callback frame k }
          else Some k);
     let (_, k) = task_page k;
     Some (outb 0x20 0x20 k)
   }"

end
