(* ===== verification/Kernel.thy ===== *)
theory Kernel
  imports Gdt Idt
begin

text \<open>
  The boot sequence of \<^verbatim>\<open>src/kernel.c\<close>: \<open>kernel_main\<close> sets up the console, the segments, the heap, the
  file layer, the interrupts, the task state segment, paging, the system calls and the keyboard, loads
  the shell and leaves for its first task. The addresses of the statics and of the string literals are
  the linker's, fields of the state.
\<close>

section \<open>The code\<close>

record kernel_machine = idt_machine +
  addr_gdt_real :: u32
  addr_tss :: u32
  gdtr_limit :: u16
  gdtr_base :: u32
  task_register :: u16
  lit_shell :: u32
  lit_hello :: u32

definition gdt_load :: "u32 \<Rightarrow> u32 \<Rightarrow> 'a kernel_machine_scheme \<Rightarrow> 'a kernel_machine_scheme" where
  "gdt_load gdt sz k = k\<lparr>gdtr_limit := ucast sz, gdtr_base := gdt\<rparr>"

definition tss_load :: "u16 \<Rightarrow> 'a kernel_machine_scheme \<Rightarrow> 'a kernel_machine_scheme" where
  "tss_load tss_segment k = k\<lparr>task_register := tss_segment\<rparr>"

definition gdt_table :: "'a kernel_machine_scheme \<Rightarrow> gdt_structured list" where
  "gdt_table k =
     [\<lparr>gs_base = 0x00, gs_limit = 0x00, gs_type = 0x00\<rparr>,
      \<lparr>gs_base = 0x00, gs_limit = 0xFFFFFFFF, gs_type = 0x9A\<rparr>,
      \<lparr>gs_base = 0x00, gs_limit = 0xFFFFFFFF, gs_type = 0x92\<rparr>,
      \<lparr>gs_base = 0x00, gs_limit = 0xFFFFFFFF, gs_type = 0xF8\<rparr>,
      \<lparr>gs_base = 0x00, gs_limit = 0xFFFFFFFF, gs_type = 0xF2\<rparr>,
      \<lparr>gs_base = addr_tss k, gs_limit = 100, gs_type = 0xE9\<rparr>]"

text \<open>\<open>struct tss\<close>: \<open>esp0\<close> is its second and \<open>ss0\<close> its third field.\<close>

definition tss_esp0 :: "mem \<Rightarrow> u32 \<Rightarrow> u32" where "tss_esp0 m t = load32 m (t + 4)"
definition tss_ss0 :: "mem \<Rightarrow> u32 \<Rightarrow> u32" where "tss_ss0 m t = load32 m (t + 8)"

definition setup_gdt :: "'a kernel_machine_scheme \<Rightarrow> 'a kernel_machine_scheme option" where
  "setup_gdt k = do {
     let m = memset (mem k) (addr_gdt_real k) 0x00 48;
     m \<leftarrow> gdt_structured_to_gdt (addr_gdt_real k) (gdt_table k) m;
     Some (gdt_load (addr_gdt_real k) 48 (k\<lparr>mem := m\<rparr>))
   }"

definition setup_tss :: "'a kernel_machine_scheme \<Rightarrow> 'a kernel_machine_scheme" where
  "setup_tss k =
     (let m = memset (mem k) (addr_tss k) 0x00 100;
          m = store32 m (addr_tss k + 4) 0x600000;
          m = store32 m (addr_tss k + 8) (ucast KERNEL_DATA_SELECTOR)
      in tss_load 0x28 (k\<lparr>mem := m\<rparr>))"

definition setup_paging :: "'a kernel_machine_scheme \<Rightarrow> 'a kernel_machine_scheme option" where
  "setup_paging k = do {
     (chunk, k) \<leftarrow> paging_new_4gb (ucast (PAGING_IS_WRITEABLE OR PAGING_IS_PRESENT OR PAGING_ACCESS_FROM_ALL)) k;
     let k = k\<lparr>kernel_4gb_chunk := chunk\<rparr>;
     Some (enable_paging (paging_switch (kernel_4gb_chunk k) k))
   }"

text \<open>The two arguments are local variables: \<open>root\<close>, and behind it \<open>arg2\<close>.\<close>

definition start_arguments :: "'a kernel_machine_scheme \<Rightarrow> mem" where
  "start_arguments k =
     (let root = local_addr k Kernel_args; arg2 = root + 516;
          m = copy_out arg2 (chars ''arg2'' @ replicate 508 0) (mem k);
          m = store32 m (arg2 + 512) 0;
          m = copy_out root (chars ''arg1'' @ replicate 508 0) m
      in store32 m (root + 512) arg2)"

definition kernel_main :: "'a kernel_machine_scheme \<Rightarrow> 'a kernel_machine_scheme option" where
  "kernel_main k = do {
     let k = terminal_intialize k;
     k \<leftarrow> setup_gdt k;
     let k = kheap_init k;
     k \<leftarrow> fs_init k;
     k \<leftarrow> disk_search_and_init k;
     let k = idt_init k;
     let k = setup_tss k;
     k \<leftarrow> setup_paging k;
     k \<leftarrow> isr80h_register_commands k;
     k \<leftarrow> keyboard_init k;
     (res, proc, k) \<leftarrow> process_load_switch (lit_shell k) k;
     if res \<noteq> PEACHOS_ALL_OK then panic (chars ''Failed to load shell.elf'' @ [10]) k
     else do {
       let k = k\<lparr>mem := start_arguments k\<rparr>;
       (_, k) \<leftarrow> process_inject_arguments proc (local_addr k Kernel_args) k;
       task_run_first_ever_task k
     }
   }"

text \<open>A self test that nothing calls. The panics are \<open>None\<close>.\<close>

definition test_file :: "'a kernel_machine_scheme \<Rightarrow> 'a kernel_machine_scheme option" where
  "test_file k = do {
     (fd, k) \<leftarrow> fopen (lit_hello k) (lit_r k) k;
     if fd = 0 then Some k
     else do {
       let s = local_addr k File_stat_buf;
       (res, k) \<leftarrow> fstat fd s k;
       if res \<noteq> 0 then panic (chars ''ERR: fstat'') k
       else do {
         (buf, k) \<leftarrow> kzalloc (stat_file_size (mem k) s + 1) k;
         if buf = 0 then panic (chars ''ERR: allocating buf'') k
         else do {
           (res, k) \<leftarrow> fread buf (stat_file_size (mem k) s) 1 fd k;
           if res \<noteq> 1 then panic (chars ''ERR: fread'') k
           else do {
             k \<leftarrow> print_at buf k;
             (res, k) \<leftarrow> fclose fd k;
             if res \<noteq> 0 then panic (chars ''ERR: fclose'') k
             else Some (print ([10] @ chars ''file closed'' @ [10]) k)
           }
         }
       }
     }
   }"

end
