(* ===== verification/Ulib.thy ===== *)
theory Ulib
  imports Cstring "HOL-Library.Signed_Division"
begin

text \<open>
  The library user programs are linked with, \<^verbatim>\<open>programs/stdlib/src\<close>: the system call stubs of
  \<^verbatim>\<open>peachos.asm\<close>, \<open>strtok\<close>, number formatting, \<open>printf\<close>, reading a line and splitting a command.

  The kernel behind \<open>int 0x80\<close> is seen from the program's side here: the state records the calls made so
  far, and two functions give the value the kernel answers with and what it does to the program's
  memory, from that history. What a theorem needs of them is a hypothesis of the theorem. Statics and
  local arrays have addresses given by the state.
\<close>

section \<open>The program and its system calls\<close>

datatype u_local = Itoa_text | Scommand | Run_buf | Shell_buf | Start_args

record user_machine =
  umem :: mem
  calls :: "(u32 \<times> u32) list"
  answer :: "(u32 \<times> u32) list \<Rightarrow> u32"
  effect :: "(u32 \<times> u32) list \<Rightarrow> mem \<Rightarrow> mem"
  strtok_sp :: u32
  u_addr :: "u_local \<Rightarrow> u32"
  lit_blank :: u32

text \<open>The command number in \<open>eax\<close> and the argument on top of the stack.\<close>

definition int80 :: "u32 \<Rightarrow> u32 \<Rightarrow> user_machine \<Rightarrow> u32 \<times> user_machine" where
  "int80 eax arg u = (let cs = calls u @ [(eax, arg)]
     in (answer u cs, u\<lparr>umem := effect u cs (umem u), calls := cs\<rparr>))"

definition u_print :: "u32 \<Rightarrow> user_machine \<Rightarrow> user_machine" where
  "u_print message u = snd (int80 1 message u)"

text \<open>\<open>getkey\<close> has no argument; the 0 stands for it in the history.\<close>

definition peachos_getkey :: "user_machine \<Rightarrow> u32 \<times> user_machine" where
  "peachos_getkey u = int80 2 0 u"

definition peachos_putchar :: "u8 \<Rightarrow> user_machine \<Rightarrow> user_machine" where
  "peachos_putchar c u = snd (int80 3 (scast c) u)"

definition peachos_malloc :: "u32 \<Rightarrow> user_machine \<Rightarrow> u32 \<times> user_machine" where
  "peachos_malloc sz u = int80 4 sz u"

definition peachos_free :: "u32 \<Rightarrow> user_machine \<Rightarrow> user_machine" where
  "peachos_free ptr u = snd (int80 5 ptr u)"

definition peachos_process_load_start :: "u32 \<Rightarrow> user_machine \<Rightarrow> user_machine" where
  "peachos_process_load_start filename u = snd (int80 6 filename u)"

definition peachos_system :: "u32 \<Rightarrow> user_machine \<Rightarrow> u32 \<times> user_machine" where
  "peachos_system args u = int80 7 args u"

definition peachos_process_get_arguments :: "u32 \<Rightarrow> user_machine \<Rightarrow> user_machine" where
  "peachos_process_get_arguments arguments u = snd (int80 8 arguments u)"

section \<open>memory.c and string.c\<close>

text \<open>\<^verbatim>\<open>memory.c\<close> and all of \<^verbatim>\<open>string.c\<close> but \<open>strtok\<close> repeat the text of the kernel's files of the same
  name, so these are the kernel's routines.\<close>

definition u_memset where "u_memset = memset"
definition u_memcmp where "u_memcmp = memcmp"
definition u_memcpy where "u_memcpy = memcpy"
definition u_toLower where "u_toLower = toLower"
definition u_strlen where "u_strlen = strlen"
definition u_strnlen where "u_strnlen = strnlen"
definition u_strcpy where "u_strcpy = strcpy"
definition u_strncpy where "u_strncpy = strncpy"
definition u_istrncmp where "u_istrncmp = istrncmp"
definition u_strncmp where "u_strncmp = strncmp"
definition u_strnlen_terminator where "u_strnlen_terminator = strnlen_terminator"
definition u_isdigit where "u_isdigit = isdigit"
definition u_tonumericdigit where "u_tonumericdigit = tonumericdigit"

text \<open>Does the character equal one of the \<open>len\<close> delimiters?\<close>

fun delim_loop :: "mem \<Rightarrow> u32 \<Rightarrow> nat \<Rightarrow> u8 \<Rightarrow> bool" where
  "delim_loop m delimiters 0 c = False"
| "delim_loop m delimiters (Suc len) c = (c = m delimiters \<or> delim_loop m (delimiters + 1) len c)"

partial_function (option) skip_loop :: "mem \<Rightarrow> u32 \<Rightarrow> nat \<Rightarrow> u32 \<Rightarrow> u32 option" where
  "skip_loop m delimiters len p_start =
     (if delim_loop m delimiters len (m p_start) then skip_loop m delimiters len (p_start + 1) else Some p_start)"

partial_function (option) token_loop :: "mem \<Rightarrow> u32 \<Rightarrow> nat \<Rightarrow> u32 \<Rightarrow> (mem \<times> u32) option" where
  "token_loop m delimiters len sp =
     (if m sp = 0 then Some (m, sp)
      else if delim_loop m delimiters len (m sp) then Some (m(sp := 0), sp + 1)
      else token_loop m delimiters len (sp + 1))"

definition strtok :: "u32 \<Rightarrow> u32 \<Rightarrow> user_machine \<Rightarrow> (u32 \<times> user_machine) option" where
  "strtok str delimiters u = do {
     len \<leftarrow> u_strlen (umem u) delimiters;
     if str = 0 \<and> strtok_sp u = 0 then Some (0, u)
     else do {
       let sp = (if str \<noteq> 0 then str else strtok_sp u);
       p_start \<leftarrow> skip_loop (umem u) delimiters (unat len) sp;
       if umem u p_start = 0 then Some (0, u\<lparr>strtok_sp := 0\<rparr>)
       else do {
         (m, sp) \<leftarrow> token_loop (umem u) delimiters (unat len) p_start;
         Some (p_start, u\<lparr>umem := m, strtok_sp := sp\<rparr>)
       }
     }
   }"

section \<open>stdlib.c\<close>

text \<open>The value is kept at or below 0, so the smallest integer needs no special case.\<close>

function itoa_loop :: "u32 \<Rightarrow> int \<Rightarrow> int \<Rightarrow> mem \<Rightarrow> int \<times> mem" where
  "itoa_loop text i loc m =
     (if i = 0 then (loc, m)
      else itoa_loop text (i sdiv 10) (loc - 1) (m(text + word_of_int (loc - 1) := word_of_int (48 - i smod 10))))"
  by pat_completeness auto
termination
  by (relation "measure (\<lambda>(_, i, _, _). nat \<bar>i\<bar>)") (auto simp: signed_divide_int_def sgn_if)

definition itoa :: "u32 \<Rightarrow> user_machine \<Rightarrow> u32 \<times> user_machine" where
  "itoa i u =
     (let text = u_addr u Itoa_text;
          m = (umem u)(text + 11 := 0x00);
          neg = \<not> sint i \<ge> 0;
          i = (if sint i \<ge> 0 then - sint i else sint i);
          (loc, m) = itoa_loop text i 11 m;
          (loc, m) = (if loc = 11 then (loc - 1, m(text + word_of_int (loc - 1) := 48)) else (loc, m));
          (loc, m) = (if neg then (loc - 1, m(text + word_of_int (loc - 1) := 45)) else (loc, m))
      in (text + word_of_int loc, u\<lparr>umem := m\<rparr>))"

definition u_malloc :: "u32 \<Rightarrow> user_machine \<Rightarrow> u32 \<times> user_machine" where
  "u_malloc sz u = peachos_malloc sz u"

definition u_free :: "u32 \<Rightarrow> user_machine \<Rightarrow> user_machine" where
  "u_free ptr u = peachos_free ptr u"

section \<open>stdio.c\<close>

definition putchar :: "u32 \<Rightarrow> user_machine \<Rightarrow> int \<times> user_machine" where
  "putchar c u = (0, peachos_putchar (ucast c) u)"

text \<open>The variable arguments are a list; fetching one that was not passed is \<open>None\<close>. After \<open>%s\<close> the code
  steps over one character more than after \<open>%i\<close>.\<close>

partial_function (option) printf_loop :: "u32 \<Rightarrow> u32 list \<Rightarrow> user_machine \<Rightarrow> user_machine option" where
  "printf_loop p ap u =
     (if umem u p = 0 then Some u
      else if umem u p \<noteq> 37 then printf_loop (p + 1) ap (snd (putchar (scast (umem u p)) u))
      else let p = p + 1
        in if umem u p = 105
           then (case ap of [] \<Rightarrow> None
             | ival # ap \<Rightarrow> let (s, u) = itoa ival u in printf_loop (p + 1) ap (u_print s u))
           else if umem u p = 115
           then (case ap of [] \<Rightarrow> None
             | sval # ap \<Rightarrow> printf_loop (p + 1 + 1) ap (u_print sval u))
           else printf_loop (p + 1) ap (snd (putchar (scast (umem u p)) u)))"

definition printf :: "u32 \<Rightarrow> u32 list \<Rightarrow> user_machine \<Rightarrow> (int \<times> user_machine) option" where
  "printf fmt ap u = do { u \<leftarrow> printf_loop fmt ap u; Some (0, u) }"

section \<open>peachos.c\<close>

text \<open>\<open>struct command_argument\<close>: 512 characters and the next argument.\<close>

abbreviation (input) COMMAND_ARGUMENT_SIZE :: u32 where "COMMAND_ARGUMENT_SIZE \<equiv> 516"

partial_function (option) parse_loop :: "u32 \<Rightarrow> u32 \<Rightarrow> user_machine \<Rightarrow> user_machine option" where
  "parse_loop current token u =
     (if token = 0 then Some u
      else let (new_command, u) = peachos_malloc COMMAND_ARGUMENT_SIZE u
        in if new_command = 0 then Some u
           else let m = u_strncpy (umem u) new_command token 512;
                    m = store32 m (new_command + 512) 0;
                    m = store32 m (current + 512) new_command
                in do {
                  (token, u) \<leftarrow> strtok 0 (lit_blank u) (u\<lparr>umem := m\<rparr>);
                  parse_loop new_command token u
                })"

definition peachos_parse_command :: "u32 \<Rightarrow> u32 \<Rightarrow> user_machine \<Rightarrow> (u32 \<times> user_machine) option" where
  "peachos_parse_command command mx u =
     (if mx > 1024 then Some (0, u)
      else let scommand = u_addr u Scommand;
               u = u\<lparr>umem := u_strncpy (umem u) scommand command 1024\<rparr>
        in do {
          (token, u) \<leftarrow> strtok scommand (lit_blank u) u;
          if token = 0 then Some (0, u)
          else let (root_command, u) = peachos_malloc COMMAND_ARGUMENT_SIZE u
            in if root_command = 0 then Some (0, u)
               else let m = u_strncpy (umem u) root_command token 512;
                        m = store32 m (root_command + 512) 0
                    in do {
                      (token, u) \<leftarrow> strtok 0 (lit_blank u) (u\<lparr>umem := m\<rparr>);
                      u \<leftarrow> parse_loop root_command token u;
                      Some (root_command, u)
                    }
        })"

partial_function (option) peachos_getkey_block :: "user_machine \<Rightarrow> (u32 \<times> user_machine) option" where
  "peachos_getkey_block u =
     (let (val, u) = peachos_getkey u in if val = 0 then peachos_getkey_block u else Some (val, u))"

text \<open>\<open>i < max - 1\<close> compares an \<open>int\<close> with a \<open>size_t\<close>; \<open>i\<close> is never negative when it is evaluated.\<close>

partial_function (option) readline_loop ::
  "u32 \<Rightarrow> u32 \<Rightarrow> bool \<Rightarrow> u32 \<Rightarrow> user_machine \<Rightarrow> (u32 \<times> user_machine) option" where
  "readline_loop out mx output_while_typing i u =
     (if \<not> i < mx - 1 then Some (i, u)
      else do {
        (c, u) \<leftarrow> peachos_getkey_block u;
        if c = 13 then Some (i, u)
        else if c = 0x08 \<and> i = 0 then readline_loop out mx output_while_typing (i - 1 + 1) u
        else if c = 0x08
        then let u = (if output_while_typing then peachos_putchar (ucast c) u else u);
                 u = u\<lparr>umem := (umem u)(out + (i - 1) := 0x00)\<rparr>
             in readline_loop out mx output_while_typing (i - 1 - 1 + 1) u
        else let u = u\<lparr>umem := (umem u)(out + i := ucast c)\<rparr>;
                 u = (if output_while_typing then peachos_putchar (ucast c) u else u)
             in readline_loop out mx output_while_typing (i + 1) u
      })"

definition peachos_terminal_readline :: "u32 \<Rightarrow> u32 \<Rightarrow> bool \<Rightarrow> user_machine \<Rightarrow> user_machine option" where
  "peachos_terminal_readline out mx output_while_typing u = do {
     (i, u) \<leftarrow> readline_loop out mx output_while_typing 0 u;
     Some (u\<lparr>umem := (umem u)(out + i := 0x00)\<rparr>)
   }"

definition peachos_system_run :: "u32 \<Rightarrow> user_machine \<Rightarrow> (u32 \<times> user_machine) option" where
  "peachos_system_run command u = do {
     let buf = u_addr u Run_buf;
     let u = u\<lparr>umem := u_strncpy (umem u) buf command 1024\<rparr>;
     (root_cmd_arg, u) \<leftarrow> peachos_parse_command command 1024 u;
     if root_cmd_arg = 0 then Some (- 1, u) else Some (peachos_system root_cmd_arg u)
   }"

section \<open>start.c\<close>

definition c_start ::
  "(u32 \<Rightarrow> u32 \<Rightarrow> user_machine \<Rightarrow> (u32 \<times> user_machine) option) \<Rightarrow> user_machine \<Rightarrow> user_machine option" where
  "c_start main u = do {
     let args = u_addr u Start_args;
     let u = peachos_process_get_arguments args u;
     (res, u) \<leftarrow> main (load32 (umem u) args) (load32 (umem u) (args + 4)) u;
     Some u
   }"

end
