(* ===== verification/Programs.thy ===== *)
theory Programs
  imports Ulib
begin

text \<open>
  The two user programs: the shell, \<^verbatim>\<open>programs/shell/src/shell.c\<close>, and \<^verbatim>\<open>programs/blank/blank.c\<close>, which
  prints its arguments. Both end in a loop without exit, so neither \<open>main\<close> returns: the model gives one
  round of the shell's loop, and what \<open>blank\<close> does before its empty loop.
\<close>

section \<open>The shell\<close>

definition shell_round :: "u32 \<Rightarrow> user_machine \<Rightarrow> user_machine option" where
  "shell_round lit_prompt u = do {
     let u = u_print lit_prompt u;
     let buf = u_addr u Shell_buf;
     u \<leftarrow> peachos_terminal_readline buf 1024 True u;
     let (_, u) = putchar 10 u;
     (_, u) \<leftarrow> peachos_system_run buf u;
     Some u
   }"

fun shell_rounds :: "u32 \<Rightarrow> nat \<Rightarrow> user_machine \<Rightarrow> user_machine option" where
  "shell_rounds lit_prompt 0 u = Some u"
| "shell_rounds lit_prompt (Suc n) u = do { u \<leftarrow> shell_round lit_prompt u; shell_rounds lit_prompt n u }"

text \<open>The shell after \<open>n\<close> rounds.\<close>

definition shell_main :: "u32 \<Rightarrow> u32 \<Rightarrow> nat \<Rightarrow> user_machine \<Rightarrow> user_machine option" where
  "shell_main lit_banner lit_prompt n u = shell_rounds lit_prompt n (u_print lit_banner u)"

section \<open>blank\<close>

fun blank_loop :: "u32 \<Rightarrow> u32 \<Rightarrow> nat \<Rightarrow> user_machine \<Rightarrow> user_machine" where
  "blank_loop argv i 0 u = u"
| "blank_loop argv i (Suc n) u =
     (let u = u_print (load32 (umem u) (argv + 4 * i)) u;
          (_, u) = putchar 10 u
      in blank_loop argv (i + 1) n u)"

definition blank_main :: "u32 \<Rightarrow> u32 \<Rightarrow> u32 \<Rightarrow> user_machine \<Rightarrow> user_machine option" where
  "blank_main lit_fmt argc argv u = do {
     (_, u) \<leftarrow> printf lit_fmt [argc] u;
     Some (blank_loop argv 0 (nat (sint argc)) u)
   }"

end
