(* ===== verification/Itoa.thy ===== *)
theory Itoa
  imports Ulib
begin

text \<open>
  The number formatting of \<^verbatim>\<open>programs/stdlib/src/stdlib.c\<close>: what a decimal numeral is, and that
  \<open>itoa\<close> writes it.
\<close>

section \<open>Decimal numbers\<close>

fun digits :: "nat \<Rightarrow> u8 list" where
  "digits n = (if n < 10 then [of_nat (48 + n)] else digits (n div 10) @ [of_nat (48 + n mod 10)])"

declare digits.simps [simp del]

definition decimal :: "int \<Rightarrow> u8 list" where
  "decimal i = (if i < 0 then 45 # digits (nat (- i)) else digits (nat i))"

lemma digit_nonzero: "d < 10 \<Longrightarrow> (of_nat (48 + d) :: u8) \<noteq> 0"
  by (simp only: word_unat_eq_iff unat_of_nat take_bit_eq_mod) simp

lemma digits_nonzero: "0 \<notin> set (digits n)"
proof (induction n rule: digits.induct)
  case (1 n)
  then show ?case using digit_nonzero [of n] digit_nonzero [of "n mod 10"]
    by (subst digits.simps) (auto simp del: of_nat_add)
qed

lemma length_digits: "n < 10 ^ Suc k \<Longrightarrow> length (digits n) \<le> Suc k"
proof (induction k arbitrary: n)
  case 0
  then show ?case by (subst digits.simps) simp
next
  case (Suc k)
  show ?case
  proof (cases "n < 10")
    case True
    then show ?thesis by (subst digits.simps) simp
  next
    case False
    have "n div 10 < 10 ^ Suc k" using Suc.prems by (simp add: less_mult_imp_div_less)
    from Suc.IH [OF this] False show ?thesis by (subst digits.simps) simp
  qed
qed

lemma length_digits_pos: "0 < length (digits n)"
  by (subst digits.simps) simp

lemma bytes_at_snoc: "bytes_at m p (xs @ [c]) \<longleftrightarrow> bytes_at m p xs \<and> m (p + of_nat (length xs)) = c"
  by (induction xs arbitrary: p) (auto simp: add.assoc)

lemma bytes_at_agree:
  assumes "\<And>i. i < length xs \<Longrightarrow> m' (p + of_nat i) = m (p + of_nat i)"
  shows "bytes_at m' p xs = bytes_at m p xs"
  using assms
proof (induction xs arbitrary: p)
  case (Cons x xs)
  have "bytes_at m' (p + 1) xs = bytes_at m (p + 1) xs"
    using Cons.prems [of "Suc i" for i] by (intro Cons.IH) (simp add: add.assoc)
  moreover have "m' p = m p" using Cons.prems [of 0] by simp
  ultimately show ?case by simp
qed simp

section \<open>Formatting a number\<close>

lemma neg_smod: "(- int n) smod 10 = - int (n mod 10)"
  by (simp add: signed_modulo_int_def zmod_int sgn_if)

lemma neg_sdiv: "(- int n) sdiv 10 = - int (n div 10)"
  by (simp add: signed_divide_int_def zdiv_int sgn_if)

declare itoa_loop.simps [simp del]

text \<open>The twelve bytes of the buffer are different addresses.\<close>

lemma buf_inj: "i < 12 \<Longrightarrow> j < 12 \<Longrightarrow> (t :: u32) + of_nat i = t + of_nat j \<longleftrightarrow> i = j"
proof
  assume "i < 12" "j < 12" "t + of_nat i = t + of_nat j"
  then have "unat (of_nat i :: u32) = unat (of_nat j :: u32)" by simp
  with \<open>i < 12\<close> \<open>j < 12\<close> show "i = j" using unat_of_nat_u32 [of i] unat_of_nat_u32 [of j] by linarith
qed simp

lemma buf_far: "\<not> unat (a - t) < 12 \<Longrightarrow> j < 12 \<Longrightarrow> a \<noteq> (t :: u32) + of_nat j"
  using unat_of_nat_u32 [of j] by auto

lemma buf_in: "j < 12 \<Longrightarrow> unat ((t :: u32) + of_nat j - t) < 12"
  using unat_of_nat_u32 [of j] by simp

text \<open>The digits end up before position \<open>loc\<close>, and only there.\<close>

lemma itoa_loop_digits:
  assumes "0 < n" "length (digits n) \<le> l" "l \<le> 11"
  shows "\<exists>m'. itoa_loop text (- int n) (int l) m = (int (l - length (digits n)), m') \<and>
    bytes_at m' (text + of_nat (l - length (digits n))) (digits n) \<and>
    (\<forall>j. j < l - length (digits n) \<or> l \<le> j \<and> j < 12 \<longrightarrow> m' (text + of_nat j) = m (text + of_nat j)) \<and>
    (\<forall>a. \<not> unat (a - text) < 12 \<longrightarrow> m' a = m a)"
  using assms
proof (induction n arbitrary: l m rule: digits.induct)
  case (1 n)
  let ?c = "of_nat (48 + n mod 10) :: u8"
  let ?m = "m(text + of_nat (l - 1) := ?c)"
  have l: "0 < l" using 1(3) length_digits_pos [of n] by linarith
  have w: "word_of_int (48 - (- int n) smod 10) = ?c"
  proof -
    have "48 - (- int n) smod 10 = int (48 + n mod 10)" by (simp only: neg_smod)
    then show ?thesis by (simp only: of_int_of_nat_eq)
  qed
  have step: "itoa_loop text (- int n) (int l) m = itoa_loop text (- int (n div 10)) (int (l - 1)) ?m"
  proof -
    have "itoa_loop text (- int n) (int l) m = itoa_loop text ((- int n) sdiv 10) (int l - 1)
        (m(text + word_of_int (int l - 1) := word_of_int (48 - (- int n) smod 10)))"
      using 1(2) by (subst itoa_loop.simps, intro if_not_P) simp
    moreover have "int l - 1 = int (l - 1)" using l by simp
    ultimately show ?thesis unfolding w neg_sdiv by (simp only: of_int_of_nat_eq)
  qed
  have far: "\<not> unat (a - text) < 12 \<Longrightarrow> a \<noteq> text + of_nat (l - 1)" for a
    using 1(4) l by (intro buf_far; linarith)
  show ?case
  proof (cases "n < 10")
    case True
    then have d: "digits n = [?c]" by (subst digits.simps) simp
    have "itoa_loop text (- int n) (int l) m = (int (l - 1), ?m)"
      using True by (simp add: step) (subst itoa_loop.simps, simp)
    moreover have "?m (text + of_nat j) = m (text + of_nat j)" if "j < l - 1 \<or> l \<le> j \<and> j < 12" for j
    proof (rule fun_upd_other)
      have "j \<noteq> l - 1" "j < 12" using that l 1(4) by auto
      then show "text + of_nat j \<noteq> text + of_nat (l - 1)" using buf_inj [of j "l - 1" "text"] 1(4) by simp
    qed
    moreover have "?m a = m a" if "\<not> unat (a - text) < 12" for a using far [OF that] by (rule fun_upd_other)
    moreover have "bytes_at ?m (text + of_nat (l - 1)) [?c]" by simp
    ultimately show ?thesis unfolding d length_Cons list.size(3) One_nat_def [symmetric] by (intro exI [of _ ?m] conjI) auto
  next
    case False
    then have d: "digits n = digits (n div 10) @ [?c]" by (subst digits.simps) simp
    have len: "length (digits n) = Suc (length (digits (n div 10)))" unfolding d by simp
    have pre: "0 < n div 10" "length (digits (n div 10)) \<le> l - 1" "l - 1 \<le> 11" using False 1(3,4) len by simp_all
    from 1(1) [OF False pre, of ?m] obtain m' where
      m': "itoa_loop text (- int (n div 10)) (int (l - 1)) ?m = (int (l - 1 - length (digits (n div 10))), m')"
        "bytes_at m' (text + of_nat (l - 1 - length (digits (n div 10)))) (digits (n div 10))"
      and same: "\<And>j. j < l - 1 - length (digits (n div 10)) \<or> l - 1 \<le> j \<and> j < 12 \<Longrightarrow> m' (text + of_nat j) = ?m (text + of_nat j)"
      and out: "\<And>a. \<not> unat (a - text) < 12 \<Longrightarrow> m' a = ?m a" by blast
    have e: "l - 1 - length (digits (n div 10)) = l - length (digits n)" using len by simp
    have at: "text + of_nat (l - length (digits n)) + of_nat (length (digits (n div 10))) = text + of_nat (l - 1)"
    proof -
      have "l - length (digits n) + length (digits (n div 10)) = l - 1" using 1(3) len by linarith
      then show ?thesis by (metis add.assoc of_nat_add)
    qed
    have "l - 1 \<le> l - 1 \<and> l - 1 < 12" using 1(4) by linarith
    from same [OF disjI2 [OF this]] have "m' (text + of_nat (l - 1)) = ?c" by (simp only: fun_upd_same)
    then have "bytes_at m' (text + of_nat (l - length (digits n))) (digits (n div 10) @ [?c])"
      unfolding bytes_at_snoc at using m'(2) unfolding e by blast
    then have "bytes_at m' (text + of_nat (l - length (digits n))) (digits n)" by (simp only: d [symmetric])
    moreover have "m' (text + of_nat j) = m (text + of_nat j)" if "j < l - length (digits n) \<or> l \<le> j \<and> j < 12" for j
    proof -
      have "j \<noteq> l - 1" "j < 12" using that l 1(4) length_digits_pos [of n] by (elim disjE; linarith)+
      moreover have "m' (text + of_nat j) = ?m (text + of_nat j)" using that e l by (intro same) auto
      ultimately show ?thesis using buf_inj [of j "l - 1" "text"] 1(4) by simp
    qed
    moreover have "m' a = m a" if "\<not> unat (a - text) < 12" for a using out [OF that] far [OF that] by simp
    ultimately show ?thesis using m'(1) step e by auto
  qed
qed

text \<open>After the loop and the test for 0 the digits of the magnitude stand before the terminator.\<close>

lemma itoa_magnitude:
  fixes i :: u32 and t :: u32
  assumes "n = nat \<bar>sint i\<bar>"
  shows "length (digits n) \<le> 10 \<and>
    (\<exists>m1. (case itoa_loop t (- int n) 11 (m(t + 11 := 0)) of (loc, m) \<Rightarrow>
        if loc = 11 then (loc - 1, m(t + word_of_int (loc - 1) := 48)) else (loc, m)) =
        (int (11 - length (digits n)), m1) \<and>
      c_string m1 (t + of_nat (11 - length (digits n))) (digits n) \<and>
      (\<forall>a. \<not> unat (a - t) < 12 \<longrightarrow> m1 a = m a))"
proof -
  let ?m = "m(t + 11 := 0)" and ?ds = "digits n"
  let ?l = "11 - length ?ds"
  have "n \<le> 2147483648" using sint_lt [of i] sint_ge [of i] assms by auto
  then have len: "length ?ds \<le> 10" using length_digits [of n 9] by simp
  have l2: "?l < 11" using length_digits_pos [of n] by linarith
  have far: "?m a = m a" if "\<not> unat (a - t) < 12" for a using buf_far [OF that, of 11] by simp
  obtain m1 where m1: "(case itoa_loop t (- int n) 11 ?m of (loc, m) \<Rightarrow>
        if loc = 11 then (loc - 1, m(t + word_of_int (loc - 1) := 48)) else (loc, m)) = (int ?l, m1)"
      "bytes_at m1 (t + of_nat ?l) ?ds" "m1 (t + of_nat 11) = 0" "\<forall>a. \<not> unat (a - t) < 12 \<longrightarrow> m1 a = m a"
  proof (cases "n = 0")
    case True
    then have "?ds = [48]" by (subst digits.simps) simp
    moreover have "itoa_loop t (- int n) 11 ?m = (11, ?m)" using True by (subst itoa_loop.simps) simp
    moreover have "(?m(t + 10 := 48)) a = m a" if "\<not> unat (a - t) < 12" for a
      using buf_far [OF that, of 10] far [OF that] by simp
    ultimately show ?thesis by (intro that [of "?m(t + 10 := 48)"]) simp_all
  next
    case False
    then obtain m' where "itoa_loop t (- int n) (int 11) ?m = (int ?l, m')" "bytes_at m' (t + of_nat ?l) ?ds"
        "m' (t + of_nat 11) = ?m (t + of_nat 11)" "\<forall>a. \<not> unat (a - t) < 12 \<longrightarrow> m' a = ?m a"
      using itoa_loop_digits [of n 11 t ?m] len by fastforce
    moreover have "int ?l \<noteq> 11" using l2 by linarith
    ultimately show ?thesis using far by (intro that [of m']) simp_all
  qed
  have "?l + length ?ds = 11" using len by simp
  then have "m1 (t + of_nat ?l + of_nat (length ?ds)) = 0" using m1(3) by (metis add.assoc of_nat_add)
  then have "c_string m1 (t + of_nat ?l) ?ds"
    unfolding c_string_def bytes_at_snoc using m1(2) digits_nonzero by blast
  with m1(1,4) len show ?thesis by blast
qed

lemma itoa_decimal:
  "\<exists>p m. itoa i u = (p, u\<lparr>umem := m\<rparr>) \<and> unat (p - u_addr u Itoa_text) < 12 \<and> c_string m p (decimal (sint i)) \<and>
     (\<forall>a. \<not> unat (a - u_addr u Itoa_text) < 12 \<longrightarrow> m a = umem u a)"
proof -
  let ?t = "u_addr u Itoa_text" and ?n = "nat \<bar>sint i\<bar>"
  let ?ds = "digits ?n"
  let ?l = "11 - length ?ds"
  have i': "(if sint i \<ge> 0 then - sint i else sint i) = - int ?n" by auto
  obtain l0 m0 where loop: "itoa_loop ?t (- int ?n) 11 ((umem u)(?t + 11 := 0)) = (l0, m0)" by fastforce
  obtain m1 where len: "length ?ds \<le> 10" and m1: "(if l0 = 11 then (l0 - 1, m0(?t + word_of_int (l0 - 1) := 48)) else (l0, m0)) = (int ?l, m1)"
      and cs: "c_string m1 (?t + of_nat ?l) ?ds" and out: "\<And>a. \<not> unat (a - ?t) < 12 \<Longrightarrow> m1 a = umem u a"
    using itoa_magnitude [of ?n i ?t "umem u", unfolded loop prod.case] by blast
  have l: "1 \<le> ?l" "?l < 11" using len length_digits_pos [of ?n] by linarith+
  show ?thesis
  proof (cases "sint i \<ge> 0")
    case True
    then have "itoa i u = (?t + of_nat ?l, u\<lparr>umem := m1\<rparr>)"
      unfolding itoa_def Let_def i' loop prod.case m1 by (simp add: of_nat_diff)
    moreover have "unat (?t + of_nat ?l - ?t) < 12" using l by (intro buf_in; linarith)
    moreover have "decimal (sint i) = ?ds" using True by (simp add: decimal_def)
    ultimately show ?thesis using cs out by auto
  next
    case False
    let ?m2 = "m1(?t + of_nat (?l - 1) := 45)"
    have "(of_nat (Suc (?l - 1)) :: u32) = of_nat (?l - 1) + 1" by simp
    moreover have "Suc (?l - 1) = ?l" using l by linarith
    ultimately have s: "?t + of_nat (?l - 1) + 1 = ?t + of_nat ?l" by (simp only: add.assoc)
    have wi: "word_of_int (int ?l - 1) = (of_nat (?l - 1) :: u32)" using l by (simp add: of_nat_diff)
    have "c_string ?m2 (?t + of_nat ?l) ?ds"
    proof (rule c_string_cong [OF cs])
      fix j
      assume "j \<le> length ?ds"
      then have "?l + j < 12" "?l - 1 < 12" "?l + j \<noteq> ?l - 1" using l len by linarith+
      then have "?t + of_nat (?l + j) \<noteq> ?t + of_nat (?l - 1)" using buf_inj by blast
      then show "?m2 (?t + of_nat ?l + of_nat j) = m1 (?t + of_nat ?l + of_nat j)"
        unfolding add.assoc of_nat_add [symmetric] by (rule fun_upd_other)
    qed
    then have "c_string ?m2 (?t + of_nat (?l - 1)) (45 # ?ds)" by (simp only: c_string_Cons s) simp
    moreover have "decimal (sint i) = 45 # ?ds" using False by (simp add: decimal_def)
    moreover have "itoa i u = (?t + of_nat (?l - 1), u\<lparr>umem := ?m2\<rparr>)"
      using False wi unfolding itoa_def Let_def i' loop prod.case m1 by simp
    moreover have "unat (?t + of_nat (?l - 1) - ?t) < 12" using l by (intro buf_in; linarith)
    moreover have "?m2 a = umem u a" if "\<not> unat (a - ?t) < 12" for a
      using buf_far [OF that, of "?l - 1"] l out [OF that] by (simp del: of_nat_diff)
    ultimately show ?thesis by (intro exI [of _ "?t + of_nat (?l - 1)"] exI [of _ ?m2]) auto
  qed
qed

section \<open>Correctness\<close>

text \<open>C34. \<open>itoa\<close> writes the decimal numeral of every 32-bit integer, the smallest included, and stays
  inside its twelve bytes.\<close>

theorem itoa_correct:
  "\<exists>p m. itoa i u = (p, u\<lparr>umem := m\<rparr>) \<and> unat (p - u_addr u Itoa_text) < 12 \<and> c_string m p (decimal (sint i)) \<and>
     (\<forall>a. \<not> unat (a - u_addr u Itoa_text) < 12 \<longrightarrow> m a = umem u a)"
  by (rule itoa_decimal)

text \<open>A fresh program prints the smallest integer, whose negation does not exist, next to other data.\<close>

definition user_blank :: user_machine where
  "user_blank = \<lparr>umem = (\<lambda>_. 7), calls = [], answer = (\<lambda>_. 0), effect = (\<lambda>_ m. m),
     strtok_sp = 0, u_addr = (\<lambda>_. 0x500000), lit_blank = 0\<rparr>"

lemma itoa_correct_witness:
  "\<exists>p m. itoa 0x80000000 user_blank = (p, user_blank\<lparr>umem := m\<rparr>) \<and>
     c_string m p [45, 50, 49, 52, 55, 52, 56, 51, 54, 52, 56] \<and> m 0x50000C = 7"
proof -
  have "decimal (sint (0x80000000 :: u32)) = [45, 50, 49, 52, 55, 52, 56, 51, 54, 52, 56]"
    by (simp add: decimal_def digits.simps)
  with itoa_correct [of "0x80000000" user_blank] obtain p m
    where i: "itoa 0x80000000 user_blank = (p, user_blank\<lparr>umem := m\<rparr>)" "c_string m p [45, 50, 49, 52, 55, 52, 56, 51, 54, 52, 56]"
      and o: "\<forall>a. \<not> unat (a - u_addr user_blank Itoa_text) < 12 \<longrightarrow> m a = umem user_blank a" by auto
  from o [rule_format, of "0x50000C"] have "m 0x50000C = 7" by (simp add: user_blank_def)
  with i show ?thesis by blast
qed

end
