(* ===== verification/Readline.thy ===== *)
theory Readline
  imports Itoa
begin

text \<open>
  Reading a line from the keyboard, \<open>peachos_terminal_readline\<close> of \<^verbatim>\<open>programs/stdlib/src/peachos.c\<close>: the
  loop over the buffer is line editing, key by key.
\<close>

section \<open>Reading a line\<close>

text \<open>The keys the kernel delivers, one for each \<open>getkey\<close>, 0 while none is waiting; neither
  \<open>getkey\<close> nor \<open>putchar\<close> touches the memory of the program.\<close>

definition getkeys :: "(u32 \<times> u32) list \<Rightarrow> nat" where
  "getkeys cs = length (filter (\<lambda>c. fst c = 2) cs)"

definition typed :: "user_machine \<Rightarrow> (nat \<Rightarrow> u32) \<Rightarrow> bool" where
  "typed u s \<longleftrightarrow> (\<forall>cs. answer u (cs @ [(2, 0)]) = s (getkeys cs)) \<and>
     (\<forall>cs c a m. c = 2 \<or> c = 3 \<longrightarrow> effect u (cs @ [(c, a)]) m = m)"

text \<open>What line editing means: Enter ends the line, backspace takes the last character away, any other
  key adds one, and a full line ends by itself. \<open>None\<close>: the keys do not end the line.\<close>

fun edit :: "nat \<Rightarrow> u8 list \<Rightarrow> u32 list \<Rightarrow> u8 list option" where
  "edit cap line keys = (if length line \<ge> cap then Some line
     else case keys of [] \<Rightarrow> None
       | c # keys \<Rightarrow> if c = 13 then Some line
           else if c = 8 then edit cap (butlast line) keys
           else edit cap (line @ [ucast c]) keys)"

declare edit.simps [simp del]

definition pressed :: "(nat \<Rightarrow> u32) \<Rightarrow> nat \<Rightarrow> nat \<Rightarrow> u32 list" where
  "pressed s n N = filter (\<lambda>c. c \<noteq> 0) (map s [n..<N])"

definition same_kernel :: "user_machine \<Rightarrow> user_machine \<Rightarrow> bool" where
  "same_kernel u u' \<longleftrightarrow> answer u' = answer u \<and> effect u' = effect u"

lemma typed_same: "same_kernel u u' \<Longrightarrow> typed u s \<Longrightarrow> typed u' s"
  by (simp add: same_kernel_def typed_def)

lemma same_kernel_trans: "same_kernel u u' \<Longrightarrow> same_kernel u' u'' \<Longrightarrow> same_kernel u u''"
  by (simp add: same_kernel_def)

lemma getkey_step:
  assumes "typed u s"
  shows "peachos_getkey u = (s (getkeys (calls u)), u\<lparr>calls := calls u @ [(2, 0)]\<rparr>)"
  using assms by (simp add: peachos_getkey_def int80_def typed_def Let_def)

lemma putchar_step:
  assumes "typed u s"
  shows "\<exists>l. peachos_putchar c u = u\<lparr>calls := l\<rparr> \<and> getkeys l = getkeys (calls u)"
  using assms
  by (intro exI [of _ "calls u @ [(3, scast c)]"]) (simp add: peachos_putchar_def int80_def typed_def Let_def getkeys_def)

lemma getkeys_snoc [simp]: "getkeys (l @ [(2, a)]) = Suc (getkeys l)"
  by (simp add: getkeys_def)

lemma getkey_block:
  assumes "typed u s" "pressed s (getkeys (calls u)) N = c # ks"
  shows "\<exists>l. peachos_getkey_block u = Some (c, u\<lparr>calls := l\<rparr>) \<and> getkeys (calls u) < getkeys l \<and> getkeys l \<le> N \<and>
    pressed s (getkeys l) N = ks"
  using assms
proof (induction "N - getkeys (calls u)" arbitrary: u)
  case 0
  then show ?case by (simp add: pressed_def)
next
  case (Suc d)
  let ?n = "getkeys (calls u)" and ?u = "u\<lparr>calls := calls u @ [(2, 0)]\<rparr>"
  have n: "?n < N" using Suc.hyps(2) by linarith
  then have p: "pressed s ?n N = (if s ?n \<noteq> 0 then [s ?n] else []) @ pressed s (Suc ?n) N"
    by (simp add: pressed_def upt_conv_Cons)
  show ?case
  proof (cases "s ?n = 0")
    case True
    have "typed ?u s" using Suc.prems(1) by (simp add: typed_def)
    moreover have "pressed s (getkeys (calls ?u)) N = c # ks" using True p Suc.prems(2) by simp
    moreover have "d = N - getkeys (calls ?u)" using Suc.hyps(2) by simp
    ultimately obtain l where "peachos_getkey_block ?u = Some (c, ?u\<lparr>calls := l\<rparr>)" "getkeys (calls ?u) < getkeys l"
        "getkeys l \<le> N" "pressed s (getkeys l) N = ks"
      using Suc.hyps(1) [of ?u] by blast
    then show ?thesis
      using True getkey_step [OF Suc.prems(1)]
      by (intro exI [of _ l]) (subst peachos_getkey_block.simps, simp)
  next
    case False
    with p Suc.prems(2) n show ?thesis
      using getkey_step [OF Suc.prems(1)]
      by (intro exI [of _ "calls u @ [(2, 0)]"]) (subst peachos_getkey_block.simps, simp)
  qed
qed

lemma bytes_at_out:
  assumes "bytes_at m p xs" "length xs \<le> n" "n < 4294967296"
  shows "bytes_at (m(p + of_nat n := c)) p xs"
proof -
  have "(m(p + of_nat n := c)) (p + of_nat i) = m (p + of_nat i)" if "i < length xs" for i
  proof (rule fun_upd_other)
    show "p + of_nat i \<noteq> p + of_nat n"
    proof
      assume "p + of_nat i = p + of_nat n"
      then have "unat (of_nat i :: u32) = unat (of_nat n :: u32)" by simp
      with that assms(2,3) show False using unat_of_nat_u32 [of i] unat_of_nat_u32 [of n] by linarith
    qed
  qed
  from bytes_at_agree [of xs _ p m, OF this] assms(1) show ?thesis by (simp del: fun_upd_apply)
qed

lemma bytes_at_add: "bytes_at m p line \<Longrightarrow> length line < 4294967296 \<Longrightarrow>
    bytes_at (m(p + of_nat (length line) := c)) p (line @ [c])"
  unfolding bytes_at_snoc using bytes_at_out [of m p line "length line" c] by simp

lemma bytes_at_butlast:
  assumes "bytes_at m p line" "line \<noteq> []" "length line < 4294967296"
  shows "bytes_at (m(p + (of_nat (length line) - 1) := c)) p (butlast line)"
proof -
  from assms(2) obtain xs x where l: "line = xs @ [x]" by (cases line rule: rev_cases) auto
  then have "of_nat (length line) - 1 = (of_nat (length xs) :: u32)" by simp
  with l assms show ?thesis using bytes_at_out [of m p xs "length xs" c] by (simp add: bytes_at_snoc)
qed

lemma calls_umem: "u\<lparr>calls := l, umem := m\<rparr> = u\<lparr>umem := m, calls := l\<rparr>"
  by simp

text \<open>The loop keeps the line typed so far in the buffer and follows the editor key by key.\<close>

lemma readline_loop_edit:
  assumes "typed u s" "edit (unat (mx - 1)) line (pressed s (getkeys (calls u)) N) = Some res"
    and "bytes_at (umem u) out line" "length line \<le> unat (mx - 1)"
  shows "\<exists>u'. readline_loop out mx echo (of_nat (length line)) u = Some (of_nat (length res), u') \<and> same_kernel u u' \<and>
    bytes_at (umem u') out res \<and> length res \<le> unat (mx - 1) \<and>
    (\<forall>a. unat (mx - 1) \<le> unat (a - out) \<longrightarrow> umem u' a = umem u a)"
  using assms
proof (induction "N - getkeys (calls u)" arbitrary: u line rule: less_induct)
  case less
  let ?cap = "unat (mx - 1)"
  have cap: "length line < 4294967296" using less.prems(4) unat_u32_lt [of "mx - 1"] by linarith
  then have i: "unat (of_nat (length line) :: u32) = length line" by (rule unat_of_nat_u32)
  show ?case
  proof (cases "length line < ?cap")
    case False
    with less.prems show ?thesis
      by (intro exI [of _ u]) (subst readline_loop.simps, auto simp: edit.simps same_kernel_def word_less_nat_alt i)
  next
    case True
    then have lt: "of_nat (length line) < mx - 1" by (simp add: word_less_nat_alt i)
    from True less.prems(2) obtain c ks where ks: "pressed s (getkeys (calls u)) N = c # ks"
      by (subst (asm) edit.simps) (auto split: list.splits)
    then obtain l where blk: "peachos_getkey_block u = Some (c, u\<lparr>calls := l\<rparr>)"
        and l: "getkeys (calls u) < getkeys l" "getkeys l \<le> N" "pressed s (getkeys l) N = ks"
      using getkey_block [OF less.prems(1) ks] by blast
    have ty: "typed (u\<lparr>calls := l\<rparr>) s" using less.prems(1) by (simp add: typed_def)
    then have put: "\<exists>l'. (if echo then peachos_putchar d u1 else u1) = u1\<lparr>calls := l'\<rparr> \<and> getkeys l' = getkeys l"
      if "same_kernel u u1" "calls u1 = l" for u1 d
      using putchar_step [OF typed_same [OF that(1) less.prems(1)], of d] that(2) by (cases echo) (auto intro!: exI [of _ l])
    have ed: "edit ?cap line (c # ks) = Some res" using less.prems(2) ks by simp
    have rec: ?thesis if m: "bytes_at m out line'" "length line' \<le> ?cap" "edit ?cap line' ks = Some res"
        and l': "getkeys l' = getkeys l"
        and st: "readline_loop out mx echo (of_nat (length line)) u =
          readline_loop out mx echo (of_nat (length line')) (u\<lparr>umem := m, calls := l'\<rparr>)"
        and fr: "\<forall>a. ?cap \<le> unat (a - out) \<longrightarrow> m a = umem u a" for m line' l'
    proof -
      let ?u = "u\<lparr>umem := m, calls := l'\<rparr>"
      have "N - getkeys (calls ?u) < N - getkeys (calls u)" using l l' by simp
      moreover have "typed ?u s" using less.prems(1) by (simp add: typed_def)
      moreover have "pressed s (getkeys (calls ?u)) N = ks" using l l' by simp
      ultimately obtain u' where u': "readline_loop out mx echo (of_nat (length line')) ?u = Some (of_nat (length res), u')"
          "same_kernel ?u u'" "bytes_at (umem u') out res" "length res \<le> ?cap"
          "\<forall>a. ?cap \<le> unat (a - out) \<longrightarrow> umem u' a = umem ?u a"
        using less.hyps [of ?u line'] m by auto
      with st fr show ?thesis by (intro exI [of _ u']) (simp add: same_kernel_def)
    qed
    consider "c = 13" | "c = 8" "line = []" | "c = 8" "line \<noteq> []" | "c \<noteq> 13" "c \<noteq> 8" by blast
    then show ?thesis
    proof cases
      case 1
      with ed True less.prems(3) have "readline_loop out mx echo (of_nat (length line)) u = Some (of_nat (length line), u\<lparr>calls := l\<rparr>)" "res = line"
        using blk lt by (subst readline_loop.simps, simp, simp add: edit.simps)
      with less.prems(3) True show ?thesis by (auto simp: same_kernel_def)
    next
      case 2
      then have "readline_loop out mx echo (of_nat (length line)) u = readline_loop out mx echo (of_nat (length line)) (u\<lparr>umem := umem u, calls := l\<rparr>)"
        using blk lt by (subst readline_loop.simps) simp
      moreover have "edit ?cap line ks = Some res" using ed 2 True by (subst (asm) edit.simps) simp
      ultimately show ?thesis using less.prems(3,4) by (intro rec [of "umem u" line l]) auto
    next
      case 3
      let ?u1 = "u\<lparr>calls := l\<rparr>"
      from put [of ?u1 8] obtain l' where l': "(if echo then peachos_putchar 8 ?u1 else ?u1) = ?u1\<lparr>calls := l'\<rparr>"
        "getkeys l' = getkeys l" by (auto simp: same_kernel_def)
      show ?thesis
      proof (rule rec [of "(umem u)(out + (of_nat (length line) - 1) := 0)" "butlast line" l'])
        show "bytes_at ((umem u)(out + (of_nat (length line) - 1) := 0)) out (butlast line)"
          using less.prems(3) 3(2) cap by (rule bytes_at_butlast)
        show "edit ?cap (butlast line) ks = Some res" using ed 3 True by (subst (asm) edit.simps) simp
        have "of_nat (length (butlast line)) = (of_nat (length line) - 1 :: u32)" using 3(2) by (simp add: of_nat_diff Suc_leI)
        moreover have "(of_nat (length line) :: u32) \<noteq> 0" using 3(2) i by (auto simp: word_unat_eq_iff)
        ultimately show "readline_loop out mx echo (of_nat (length line)) u = readline_loop out mx echo (of_nat (length (butlast line)))
            (u\<lparr>umem := (umem u)(out + (of_nat (length line) - 1) := 0), calls := l'\<rparr>)"
          using 3(1) blk lt l'(1) arg_cong [OF l'(1), of calls]
          by (cases echo; subst readline_loop.simps; simp add: Let_def calls_umem)
        show "\<forall>a. ?cap \<le> unat (a - out) \<longrightarrow> ((umem u)(out + (of_nat (length line) - 1) := 0)) a = umem u a"
        proof (intro allI impI fun_upd_other)
          fix a
          assume "?cap \<le> unat (a - out)"
          moreover have "unat (of_nat (length line) - 1 :: u32) = length line - 1"
            using 3(2) i by (simp add: unat_sub word_le_nat_alt Suc_leI)
          ultimately show "a \<noteq> out + (of_nat (length line) - 1)" using True by auto
        qed
      qed (use True l' in auto)
    next
      case 4
      let ?m = "(umem u)(out + of_nat (length line) := ucast c)"
      let ?u1 = "u\<lparr>umem := ?m, calls := l\<rparr>"
      from put [of ?u1 "ucast c"] obtain l' where l': "(if echo then peachos_putchar (ucast c) ?u1 else ?u1) = ?u1\<lparr>calls := l'\<rparr>"
        "getkeys l' = getkeys l" by (auto simp: same_kernel_def)
      show ?thesis
      proof (rule rec [of ?m "line @ [ucast c]" l'])
        show "bytes_at ?m out (line @ [ucast c])" using less.prems(3) cap by (rule bytes_at_add)
        show "edit ?cap (line @ [ucast c]) ks = Some res" using ed 4 True by (subst (asm) edit.simps) simp
        have "of_nat (length (line @ [ucast c :: u8])) = (of_nat (length line) + 1 :: u32)" by simp
        then show "readline_loop out mx echo (of_nat (length line)) u =
            readline_loop out mx echo (of_nat (length (line @ [ucast c]))) (u\<lparr>umem := ?m, calls := l'\<rparr>)"
          using 4 blk lt l'(1) arg_cong [OF l'(1), of calls]
          by (cases echo; subst readline_loop.simps; simp add: Let_def calls_umem add.commute [of "1 :: u32"])
        show "\<forall>a. ?cap \<le> unat (a - out) \<longrightarrow> ?m a = umem u a" using True i by auto
      qed (use True l' in auto)
    qed
  qed
qed

section \<open>Correctness\<close>

lemma readline_edit:
  assumes "typed u s" "edit (unat mx - 1) [] (pressed s (getkeys (calls u)) N) = Some line" "0 < mx"
  shows "\<exists>u'. peachos_terminal_readline out mx echo u = Some u' \<and> same_kernel u u' \<and>
    bytes_at (umem u') out (line @ [0]) \<and> length line < unat mx \<and>
    (\<forall>a. unat mx \<le> unat (a - out) \<longrightarrow> umem u' a = umem u a)"
proof -
  have cap: "unat (mx - 1) = unat mx - 1" "0 < unat mx"
    using assms(3) by (simp_all add: unat_sub word_le_nat_alt word_less_nat_alt Suc_leI)
  from readline_loop_edit [of u s mx "[]" N line out echo] assms(1,2) cap
  obtain u' where u': "readline_loop out mx echo 0 u = Some (of_nat (length line), u')" "same_kernel u u'"
      "bytes_at (umem u') out line" "length line \<le> unat mx - 1"
      "\<forall>a. unat mx - 1 \<le> unat (a - out) \<longrightarrow> umem u' a = umem u a"
    by auto
  have l: "length line < unat mx" "length line < 4294967296" using u'(4) cap(2) unat_u32_lt [of mx] by linarith+
  let ?u = "u'\<lparr>umem := (umem u')(out + of_nat (length line) := 0)\<rparr>"
  have "peachos_terminal_readline out mx echo u = Some ?u" using u'(1) by (simp add: peachos_terminal_readline_def)
  moreover have "bytes_at (umem ?u) out (line @ [0])" using bytes_at_add [OF u'(3) l(2)] by simp
  moreover have "umem ?u a = umem u a" if "unat mx \<le> unat (a - out)" for a
  proof -
    have "a \<noteq> out + of_nat (length line)" using that l unat_of_nat_u32 [OF l(2)] by auto
    with u'(5) that show ?thesis by simp
  qed
  ultimately show ?thesis using u'(2) l(1) by (intro exI [of _ ?u]) (simp add: same_kernel_def)
qed

text \<open>C21. Reading a line is line editing: for whatever keys are pressed, with any waiting between them, the
  buffer ends up holding exactly the line an editor with Enter and backspace makes of them, terminated,
  within its size; and the call returns as soon as the keys have ended the line.\<close>

theorem readline_is_editing:
  assumes "typed u s" "edit (unat mx - 1) [] (pressed s (getkeys (calls u)) N) = Some line" "0 < mx"
  shows "\<exists>u'. peachos_terminal_readline out mx echo u = Some u' \<and> same_kernel u u' \<and>
    bytes_at (umem u') out (line @ [0]) \<and> length line < unat mx \<and>
    (\<forall>a. unat mx \<le> unat (a - out) \<longrightarrow> umem u' a = umem u a)"
  using assms by (rule readline_edit)

text \<open>Somebody types \<open>h\<close>, \<open>x\<close>, backspace, \<open>i\<close>, Enter, with a pause in between.\<close>

definition keys_hi :: "nat \<Rightarrow> u32" where
  "keys_hi n = (if n < 7 then [104, 0, 120, 8, 105, 0, 13] ! n else 0)"

definition user_hi :: user_machine where
  "user_hi = user_blank\<lparr>answer := (\<lambda>cs. keys_hi (getkeys (butlast cs)))\<rparr>"

theorem readline_is_editing_witness:
  "\<exists>u'. peachos_terminal_readline 0x600000 16 True user_hi = Some u' \<and> bytes_at (umem u') 0x600000 [104, 105, 0]"
proof -
  have "typed user_hi keys_hi" by (simp add: typed_def user_hi_def user_blank_def)
  moreover have "pressed keys_hi (getkeys (calls user_hi)) 7 = [104, 120, 8, 105, 13]"
  proof -
    have "[0..<7] = [0, 1, 2, 3, 4, 5, 6 :: nat]" by (simp add: upt_rec)
    then show ?thesis by (simp add: pressed_def user_hi_def user_blank_def getkeys_def keys_hi_def)
  qed
  then have "edit (unat (16 :: u32) - 1) [] (pressed keys_hi (getkeys (calls user_hi)) 7) = Some [104, 105]"
    by (simp add: edit.simps)
  ultimately show ?thesis using readline_is_editing [of user_hi keys_hi 16 7 "[104, 105]" "0x600000" True] by auto
qed

end
