(* ===== verification/Words.thy ===== *)
theory Words
  imports Itoa
begin

text \<open>
  Splitting a string into words: \<open>strtok\<close> of \<^verbatim>\<open>programs/stdlib/src/string.c\<close>, called first with the string
  and then with a null pointer, as \<open>peachos_parse_command\<close> does.
\<close>

section \<open>The words of a string\<close>

function split_words :: "u8 set \<Rightarrow> u8 list \<Rightarrow> u8 list list" where
  "split_words D xs = (let w = dropWhile (\<lambda>c. c \<in> D) xs in
     if w = [] then [] else takeWhile (\<lambda>c. c \<notin> D) w # split_words D (drop (Suc (length (takeWhile (\<lambda>c. c \<notin> D) w))) w))"
  by pat_completeness auto
termination
proof (relation "measure (\<lambda>(_, xs). length xs)")
  fix D and xs w :: "u8 list"
  assume w: "w = dropWhile (\<lambda>c. c \<in> D) xs" "w \<noteq> []"
  have "length w \<le> length xs" unfolding w(1) by (rule length_dropWhile_le)
  moreover have "0 < length w" using w(2) by simp
  ultimately show "((D, drop (Suc (length (takeWhile (\<lambda>c. c \<notin> D) w))) w), D, xs) \<in> measure (\<lambda>(_, xs). length xs)"
    unfolding in_measure prod.case length_drop by linarith
qed simp

declare split_words.simps [simp del]

section \<open>The loops\<close>

lemma delim_loop_eq: "bytes_at m q ds \<Longrightarrow> delim_loop m q (length ds) c \<longleftrightarrow> c \<in> set ds"
  by (induction ds arbitrary: q) auto

lemma c_string_bytes: "c_string m q ds \<Longrightarrow> bytes_at m q ds \<and> 0 \<notin> set ds"
  by (simp add: c_string_def bytes_at_append)

lemma skip_loop_eq:
  assumes "c_string m q ds"
  shows "c_string m p xs \<Longrightarrow> skip_loop m q (length ds) p = Some (p + of_nat (length (takeWhile (\<lambda>c. c \<in> set ds) xs)))"
proof (induction xs arbitrary: p)
  case Nil
  then show ?case using c_string_bytes [OF assms] by (subst skip_loop.simps) (simp add: delim_loop_eq)
next
  case (Cons x xs)
  then show ?case using c_string_bytes [OF assms]
    by (subst skip_loop.simps) (simp add: delim_loop_eq c_string_Cons add.assoc)
qed

lemma token_loop_eq:
  assumes "c_string m q ds"
  shows "c_string m p xs \<Longrightarrow> token_loop m q (length ds) p =
    (let t = length (takeWhile (\<lambda>c. c \<notin> set ds) xs) in
     Some (if t < length xs then (m(p + of_nat t := 0), p + of_nat (Suc t)) else (m, p + of_nat t)))"
proof (induction xs arbitrary: p)
  case Nil
  then show ?case by (subst token_loop.simps) simp
next
  case (Cons x xs)
  then show ?case using c_string_bytes [OF assms]
    by (subst token_loop.simps) (simp add: delim_loop_eq c_string_Cons Let_def add.assoc add.left_commute)
qed

section \<open>One call\<close>

lemma strtok_start: "str \<noteq> 0 \<Longrightarrow> strtok str q u = strtok 0 q (u\<lparr>strtok_sp := str\<rparr>)"
  by (cases u) (simp add: strtok_def cong: if_cong)

lemma strtok_eq:
  assumes d: "c_string (umem u) q ds" "length ds < 4294967296" and s: "c_string (umem u) p xs" "strtok_sp u = p" "p \<noteq> 0"
  defines "n \<equiv> length (takeWhile (\<lambda>c. c \<in> set ds) xs)" and "w \<equiv> dropWhile (\<lambda>c. c \<in> set ds) xs"
  defines "t \<equiv> length (takeWhile (\<lambda>c. c \<notin> set ds) w)"
  shows "strtok 0 q u =
    Some (if w = [] then (0, u\<lparr>strtok_sp := 0\<rparr>)
      else if t < length w then (p + of_nat n, u\<lparr>umem := (umem u)(p + of_nat (n + t) := 0), strtok_sp := p + of_nat (n + Suc t)\<rparr>)
      else (p + of_nat n, u\<lparr>strtok_sp := p + of_nat (n + t)\<rparr>))"
proof -
  have len: "u_strlen (umem u) q = Some (of_nat (length ds))" using d(1) by (simp add: u_strlen_def strlen_c_string)
  have ul: "unat (of_nat (length ds) :: u32) = length ds" using d(2) by (rule unat_of_nat_u32)
  have sk: "skip_loop (umem u) q (length ds) p = Some (p + of_nat n)" using skip_loop_eq [OF d(1) s(1)] by (simp add: n_def)
  have w: "w = drop n xs" by (simp add: w_def n_def dropWhile_eq_drop)
  have "n \<le> length xs" by (simp add: n_def length_takeWhile_le)
  with s(1) have ws: "c_string (umem u) (p + of_nat n) w" unfolding w by (rule c_string_drop)
  then have hd: "umem u (p + of_nat n) = 0 \<longleftrightarrow> w = []" by (cases w) (auto simp: c_string_Cons)
  have tk: "token_loop (umem u) q (length ds) (p + of_nat n) =
      Some (if t < length w then ((umem u)(p + of_nat n + of_nat t := 0), p + of_nat n + of_nat (Suc t)) else (umem u, p + of_nat n + of_nat t))"
    using token_loop_eq [OF d(1) ws] by (simp add: t_def Let_def)
  show ?thesis
    using s(2,3) by (simp add: strtok_def len ul sk hd tk add.assoc)
qed

section \<open>All calls\<close>

text \<open>The pointers that a call with \<open>str\<close> and calls with a null pointer after it return, up to the first
  null; at most \<open>n\<close> calls.\<close>

fun strtok_calls :: "nat \<Rightarrow> u32 \<Rightarrow> u32 \<Rightarrow> user_machine \<Rightarrow> (u32 list \<times> user_machine) option" where
  "strtok_calls 0 str q u = Some ([], u)"
| "strtok_calls (Suc n) str q u = do {
     (t, u) \<leftarrow> strtok str q u;
     if t = 0 then Some ([], u)
     else do { (ts, u) \<leftarrow> strtok_calls n 0 q u; Some (t # ts, u) }
   }"

lemma unat_plus: "unat (p :: u32) + n < 4294967296 \<Longrightarrow> unat (p + of_nat n) = unat p + n"
proof -
  assume a: "unat p + n < 4294967296"
  then have "unat (of_nat n :: u32) = n" by (intro unat_of_nat_u32) simp
  with a show ?thesis by (intro unat_add_small [THEN trans]) simp_all
qed

lemma apart_drop:
  assumes "apart p (Suc n) q k" "i \<le> n"
  shows "apart (p + of_nat i) (Suc (n - i)) q k"
proof -
  have "p + of_nat i + of_nat j \<noteq> q + of_nat l" if "j < Suc (n - i)" "l < k" for j l
  proof -
    have "i + j < Suc n" using that(1) assms(2) by linarith
    with assms(1) that(2) have "p + of_nat (i + j) \<noteq> q + of_nat l" unfolding apart_def by blast
    then show ?thesis by (simp add: add.assoc)
  qed
  then show ?thesis by (simp add: apart_def)
qed

text \<open>A string that lies apart from the delimiters, below the end of the address space.\<close>

definition splittable :: "user_machine \<Rightarrow> u32 \<Rightarrow> u8 list \<Rightarrow> u32 \<Rightarrow> u8 list \<Rightarrow> bool" where
  "splittable u p xs q ds \<longleftrightarrow> c_string (umem u) q ds \<and> length ds < 4294967296 \<and> c_string (umem u) p xs \<and> p \<noteq> 0 \<and>
     unat p + length xs < 4294967296 \<and> apart p (Suc (length xs)) q (Suc (length ds))"

text \<open>A terminator in the middle of a string cuts it.\<close>

lemma cut_string:
  assumes "c_string m p w" "t < length w" "\<And>j. j < t \<Longrightarrow> p + of_nat j \<noteq> p + of_nat t"
  shows "c_string (m(p + of_nat t := 0)) p (take t w)"
proof -
  have "(m(p + of_nat t := 0)) (p + of_nat j) = take t w ! j" if "j < t" for j
    using assms(3) [OF that] c_string_bytes [OF assms(1)] that assms(2) by (simp add: bytes_at_nth)
  moreover have "0 \<notin> set (take t w)" using c_string_bytes [OF assms(1)] by (meson in_set_takeD)
  ultimately show ?thesis using assms(2) by (simp add: c_string_def bytes_at_append) (simp add: bytes_at_nth)
qed

text \<open>What is left to split after one word.\<close>

lemma one_word:
  assumes ok: "splittable u p xs q ds" and sp: "strtok_sp u = p"
  defines "n \<equiv> length (takeWhile (\<lambda>c. c \<in> set ds) xs)" and "w \<equiv> dropWhile (\<lambda>c. c \<in> set ds) xs"
  defines "t \<equiv> length (takeWhile (\<lambda>c. c \<notin> set ds) w)"
  assumes w: "w \<noteq> []"
  obtains u' where "strtok 0 q u = Some (p + of_nat n, u')" "p + of_nat n \<noteq> 0"
    "c_string (umem u') (p + of_nat n) (takeWhile (\<lambda>c. c \<notin> set ds) w)"
    "strtok_sp u' = p + of_nat (n + min (Suc t) (length w))"
    "splittable u' (p + of_nat (n + min (Suc t) (length w))) (drop (Suc t) w) q ds"
    "u' = u\<lparr>umem := umem u', strtok_sp := strtok_sp u'\<rparr>" "n + length w = length xs" "t \<le> length w"
    "\<forall>a. \<not> in_range a p (length xs) \<longrightarrow> umem u' a = umem u a"
proof -
  have s: "c_string (umem u) q ds" "length ds < 4294967296" "c_string (umem u) p xs" "p \<noteq> 0"
    "unat p + length xs < 4294967296" "apart p (Suc (length xs)) q (Suc (length ds))" using ok by (simp_all add: splittable_def)
  have wd: "w = drop n xs" by (simp add: w_def n_def dropWhile_eq_drop)
  have "n \<le> length xs" by (simp add: n_def length_takeWhile_le)
  then have len: "n + length w = length xs" by (simp add: wd)
  have t: "t \<le> length w" by (simp add: t_def length_takeWhile_le)
  have ws: "c_string (umem u) (p + of_nat n) w" unfolding wd using s(3) \<open>n \<le> length xs\<close> by (rule c_string_drop)
  have tw: "takeWhile (\<lambda>c. c \<notin> set ds) w = take t w" unfolding t_def by (rule takeWhile_eq_take)
  let ?m = "(umem u)(p + of_nat (n + t) := 0)"
  have un: "unat (p + of_nat i) = unat p + i" if "i \<le> length xs" for i using that s(5) by (intro unat_plus) linarith
  have inj: "p + of_nat i \<noteq> p + of_nat j" if "i \<le> length xs" "j \<le> length xs" "i \<noteq> j" for i j
  proof
    assume "p + of_nat i = p + of_nat j"
    then have "unat (p + of_nat i) = unat (p + of_nat j)" by (rule arg_cong)
    then show False unfolding un [OF that(1)] un [OF that(2)] using that(3) by simp
  qed
  define u' where "u' = (if t < length w then u\<lparr>umem := ?m, strtok_sp := p + of_nat (n + Suc t)\<rparr> else u\<lparr>strtok_sp := p + of_nat (n + t)\<rparr>)"
  have st: "strtok 0 q u = Some (p + of_nat n, u')"
    using strtok_eq [OF s(1-3) sp s(4), folded w_def, folded t_def n_def] w by (simp add: u'_def)
  let ?i = "n + min (Suc t) (length w)"
  have i: "?i \<le> length xs" using len by simp
  have m': "umem u' a = (if t < length w \<and> a = p + of_nat (n + t) then 0 else umem u a)" for a by (simp add: u'_def)
  have sp': "strtok_sp u' = p + of_nat ?i" using t by (simp add: u'_def min_def)
  have tok: "c_string (umem u') (p + of_nat n) (take t w)"
  proof (cases "t < length w")
    case False
    then show ?thesis using ws t by (simp add: u'_def)
  next
    case True
    then have c: "umem u' = (umem u)(p + of_nat n + of_nat t := 0)" by (simp add: u'_def add.assoc)
    show ?thesis unfolding c
    proof (rule cut_string [OF ws True])
      show "p + of_nat n + of_nat j \<noteq> p + of_nat n + of_nat t" if "j < t" for j
        using inj [of "n + j" "n + t"] that True len by (simp add: add.assoc)
    qed
  qed
  have rest: "c_string (umem u') (p + of_nat ?i) (drop (Suc t) w)"
  proof (cases "t < length w")
    case False
    then show ?thesis using c_string_drop [OF ws, of "length w"] t by (simp add: u'_def add.assoc)
  next
    case True
    then have "c_string (umem u) (p + of_nat n + of_nat (Suc t)) (drop (Suc t) w)" by (intro c_string_drop [OF ws]) simp
    then have "c_string (umem u) (p + of_nat ?i) (drop (Suc t) w)" using True by (simp add: min_def ac_simps)
    then show ?thesis
    proof (rule c_string_cong)
      fix j
      assume "j \<le> length (drop (Suc t) w)"
      then have "p + of_nat (?i + j) \<noteq> p + of_nat (n + t)" using True len by (intro inj) (simp_all add: min_def)
      then show "umem u' (p + of_nat ?i + of_nat j) = umem u (p + of_nat ?i + of_nat j)"
        unfolding add.assoc of_nat_add [symmetric] by (simp only: m') simp
    qed
  qed
  have nz: "p + of_nat j \<noteq> 0" if "j \<le> length xs" for j
    using un [OF that] s(4) by (auto simp: unat_eq_0 [symmetric])
  have "c_string (umem u') q ds"
  proof (rule c_string_cong [OF s(1)])
    fix j
    assume "j \<le> length ds"
    then have "p + of_nat (n + t) \<noteq> q + of_nat j" 
    proof -
      have "n + t < Suc (length xs)" "j < Suc (length ds)" using len t \<open>j \<le> length ds\<close> by linarith+
      with s(6) show ?thesis unfolding apart_def by blast
    qed
    then show "umem u' (q + of_nat j) = umem u (q + of_nat j)" using m' [of "q + of_nat j"] by auto
  qed
  moreover have "length (drop (Suc t) w) = length xs - ?i" using len t by simp
  moreover have "unat (p + of_nat ?i) + (length xs - ?i) < 4294967296" using un [OF i] s(5) i by simp
  ultimately have "splittable u' (p + of_nat ?i) (drop (Suc t) w) q ds"
    using s(2) rest i apart_drop [OF s(6) i] nz [OF i] unfolding splittable_def by simp
  moreover have "umem u' a = umem u a" if "\<not> in_range a p (length xs)" for a
  proof -
    have "in_range (p + of_nat (n + t)) p (length xs)" if "t < length w"
      using un [of "n + t"] len that by (simp add: in_range_def)
    with that show ?thesis by (auto simp: m')
  qed
  moreover have "p + of_nat n \<noteq> 0" using nz \<open>n \<le> length xs\<close> by blast
  moreover have "u' = u\<lparr>umem := umem u', strtok_sp := strtok_sp u'\<rparr>" by (cases u) (simp add: u'_def)
  ultimately show ?thesis using that st tok sp' len t tw by simp
qed

lemma strtok_calls_words:
  assumes "splittable u p xs q ds" "strtok_sp u = p" "length (split_words (set ds) xs) < k"
  shows "\<exists>ts u'. strtok_calls k 0 q u = Some (ts, u') \<and> list_all2 (c_string (umem u')) ts (split_words (set ds) xs) \<and>
    u' = u\<lparr>umem := umem u', strtok_sp := 0\<rparr> \<and> (\<forall>a. \<not> in_range a p (length xs) \<longrightarrow> umem u' a = umem u a)"
  using assms
proof (induction "length xs" arbitrary: xs p u k rule: less_induct)
  case less
  define w where "w = dropWhile (\<lambda>c. c \<in> set ds) xs"
  obtain k' where k: "k = Suc k'" using less.prems(3) by (cases k) auto
  show ?case
  proof (cases "w = []")
    case True
    then have "split_words (set ds) xs = []" by (subst split_words.simps) (simp add: w_def)
    moreover have "strtok 0 q u = Some (0, u\<lparr>strtok_sp := 0\<rparr>)"
      using strtok_eq [of u q ds p xs] less.prems True by (simp add: splittable_def w_def)
    ultimately show ?thesis unfolding k by simp
  next
    case False
    define t where "t = length (takeWhile (\<lambda>c. c \<notin> set ds) w)"
    define n where "n = length (takeWhile (\<lambda>c. c \<in> set ds) xs)"
    let ?i = "n + min (Suc t) (length w)"
    from one_word [OF less.prems(1,2) False [unfolded w_def], folded w_def, folded t_def n_def] obtain u1
      where u1: "strtok 0 q u = Some (p + of_nat n, u1)" "p + of_nat n \<noteq> 0"
        "c_string (umem u1) (p + of_nat n) (takeWhile (\<lambda>c. c \<notin> set ds) w)"
        "strtok_sp u1 = p + of_nat ?i" "splittable u1 (p + of_nat ?i) (drop (Suc t) w) q ds"
        "u1 = u\<lparr>umem := umem u1, strtok_sp := strtok_sp u1\<rparr>" "n + length w = length xs" "t \<le> length w"
        "\<forall>a. \<not> in_range a p (length xs) \<longrightarrow> umem u1 a = umem u a" by blast
    have sw: "split_words (set ds) xs = takeWhile (\<lambda>c. c \<notin> set ds) w # split_words (set ds) (drop (Suc t) w)"
      using False by (subst split_words.simps) (simp add: w_def t_def Let_def)
    have "0 < length w" using False by simp
    then have l: "length (drop (Suc t) w) < length xs" using u1(7) unfolding length_drop by linarith
    have k': "length (split_words (set ds) (drop (Suc t) w)) < k'" using less.prems(3) sw k by simp
    from less.hyps [OF l u1(5,4) k'] obtain ts u' where r: "strtok_calls k' 0 q u1 = Some (ts, u')"
      "list_all2 (c_string (umem u')) ts (split_words (set ds) (drop (Suc t) w))" "u' = u1\<lparr>umem := umem u', strtok_sp := 0\<rparr>"
      "\<forall>a. \<not> in_range a (p + of_nat ?i) (length (drop (Suc t) w)) \<longrightarrow> umem u' a = umem u1 a" by blast
    have pb: "unat p + length xs < 4294967296" using less.prems(1) by (simp add: splittable_def)
    then have un: "unat (p + of_nat j) = unat p + j" if "j \<le> length xs" for j using that by (intro unat_plus) linarith
    have ui: "unat (p + of_nat ?i) = unat p + ?i" using u1(7) by (intro un) simp
    have "umem u' a = umem u a" if "\<not> in_range a p (length xs)" for a
    proof -
      have "\<not> in_range a (p + of_nat ?i) (length (drop (Suc t) w))"
        using that u1(7,8) unfolding in_range_def ui by (auto simp: min_def)
      with r(4) u1(9) that show ?thesis by simp
    qed
    moreover have "c_string (umem u') (p + of_nat n) (takeWhile (\<lambda>c. c \<notin> set ds) w)"
    proof (rule c_string_cong [OF u1(3)])
      fix j
      assume j: "j \<le> length (takeWhile (\<lambda>c. c \<notin> set ds) w)"
      then have "n + j \<le> length xs" using u1(7,8) by (simp add: t_def)
      from un [OF this] have "\<not> in_range (p + of_nat (n + j)) (p + of_nat ?i) (length (drop (Suc t) w))"
        using j u1(8) unfolding in_range_def ui by (auto simp: t_def min_def)
      with r(4) show "umem u' (p + of_nat n + of_nat j) = umem u1 (p + of_nat n + of_nat j)" by (simp add: add.assoc)
    qed
    moreover have "u' = u\<lparr>umem := umem u', strtok_sp := 0\<rparr>"
      by (subst r(3), subst u1(6)) (cases u, simp)
    moreover have "strtok_calls k 0 q u = Some ((p + of_nat n) # ts, u')" using u1(1,2) r(1) by (simp add: k)
    ultimately show ?thesis using r(2) by (auto simp: sw)
  qed
qed

text \<open>C20. Called with a string and then with a null pointer until it returns one, \<open>strtok\<close> returns the
  words of the string in order, each cut off by a terminator in place, and none after the last; runs of
  delimiters count as one, at both ends as none. Nothing is written outside the string, and the saved
  position is null again at the end, so that another call with a null pointer returns null as well.\<close>

theorem strtok_splits:
  assumes "splittable u str xs q ds" "length (split_words (set ds) xs) < k"
  shows "\<exists>ts u'. strtok_calls k str q u = Some (ts, u') \<and> list_all2 (c_string (umem u')) ts (split_words (set ds) xs) \<and>
    u' = u\<lparr>umem := umem u', strtok_sp := 0\<rparr> \<and> (\<forall>a. \<not> in_range a str (length xs) \<longrightarrow> umem u' a = umem u a)"
proof -
  let ?u = "u\<lparr>strtok_sp := str\<rparr>"
  obtain k' where k: "k = Suc k'" using assms(2) by (cases k) auto
  have "str \<noteq> 0" using assms(1) by (simp add: splittable_def)
  then have e: "strtok_calls k str q u = strtok_calls k 0 q ?u" by (simp add: k strtok_start)
  have "splittable ?u str xs q ds" using assms(1) by (simp add: splittable_def)
  from strtok_calls_words [OF this _ assms(2)] obtain ts u' where
    "strtok_calls k 0 q ?u = Some (ts, u')" "list_all2 (c_string (umem u')) ts (split_words (set ds) xs)"
    "u' = ?u\<lparr>umem := umem u', strtok_sp := 0\<rparr>" "\<forall>a. \<not> in_range a str (length xs) \<longrightarrow> umem u' a = umem u a" by auto
  moreover from this(3) have "u' = u\<lparr>umem := umem u', strtok_sp := 0\<rparr>" by (cases u) (metis user_machine.update_convs(1,5))
  ultimately show ?thesis unfolding e by blast
qed

text \<open>The words of \<open>'' a  bc ''\<close> at a blank.\<close>

lemma strtok_splits_witness:
  "\<exists>ts u'. strtok_calls 9 0x1000 0x2000 (user_blank\<lparr>umem := (\<lambda>_. 0)(0x1000 := 32, 0x1001 := 97, 0x1002 := 32, 0x1003 := 32,
      0x1004 := 98, 0x1005 := 99, 0x1006 := 32, 0x2000 := 32)\<rparr>) = Some (ts, u') \<and>
    list_all2 (c_string (umem u')) ts [[97], [98, 99]] \<and> strtok_sp u' = 0"
proof -
  let ?u = "user_blank\<lparr>umem := (\<lambda>_. 0)(0x1000 := 32, 0x1001 := 97, 0x1002 := 32, 0x1003 := 32,
      0x1004 := 98, 0x1005 := 99, 0x1006 := 32, 0x2000 := 32)\<rparr>"
  have w: "split_words (set [32]) [32, 97, 32, 32, 98, 99, 32] = [[97], [98, 99]]"
    by (simp add: split_words.simps)
  have "apart 0x1000 (Suc (length [32, 97, 32, 32, 98, 99, 32 :: u8])) 0x2000 (Suc (length [32 :: u8]))"
    unfolding apart_def
  proof (intro allI impI)
    fix i j :: nat
    assume "i < Suc (length [32, 97, 32, 32, 98, 99, 32 :: u8])" "j < Suc (length [32 :: u8])"
    then have "i < 8" "j < 2" by simp_all
    then have "unat (0x1000 + of_nat i :: u32) = 0x1000 + i" "unat (0x2000 + of_nat j :: u32) = 0x2000 + j"
      by (subst unat_plus; simp)+
    with \<open>i < 8\<close> show "0x1000 + of_nat i \<noteq> (0x2000 + of_nat j :: u32)" by auto
  qed
  then have "splittable ?u 0x1000 [32, 97, 32, 32, 98, 99, 32] 0x2000 [32]"
    by (simp add: splittable_def c_string_Cons)
  from strtok_splits [OF this, of 9] w obtain ts u'
    where r: "strtok_calls 9 0x1000 0x2000 ?u = Some (ts, u')" "list_all2 (c_string (umem u')) ts [[97], [98, 99]]"
      "u' = ?u\<lparr>umem := umem u', strtok_sp := 0\<rparr>" by auto
  from arg_cong [OF r(3), of strtok_sp] have "strtok_sp u' = 0" by simp
  with r(1,2) show ?thesis by blast
qed

end
