(* ===== verification/Tasklist.thy ===== *)
theory Tasklist
  imports Process
begin

text \<open>
  The doubly linked list of tasks of \<^verbatim>\<open>src/task/task.c\<close> as a list of addresses: what linking, unlinking and
  stepping to the next task mean on it. The invariant \<open>task_list\<close> ties the head, the tail, the current
  task and the links in memory together.
\<close>

section \<open>The list in memory\<close>

text \<open>\<open>seg m p ts n\<close>: the tasks \<open>ts\<close> are linked in this order, behind \<open>p\<close> and before \<open>n\<close>.\<close>

fun seg :: "mem \<Rightarrow> u32 \<Rightarrow> u32 list \<Rightarrow> u32 \<Rightarrow> bool" where
  "seg m p [] n = True"
| "seg m p (t # ts) n = (task_prev m t = p \<and> task_next m t = (if ts = [] then n else hd ts) \<and> seg m t ts n)"

text \<open>\<open>linked p ts n k\<close>: the list of the kernel has the tasks \<open>ts\<close>, where \<open>p\<close> is the link of the first one to its
  predecessor and \<open>n\<close> that of the last one to its successor. Both are 0 in a well-formed list, \<open>task_list\<close>.\<close>

definition linked :: "u32 \<Rightarrow> u32 list \<Rightarrow> u32 \<Rightarrow> 'a task_machine_scheme \<Rightarrow> bool" where
  "linked p ts n k \<longleftrightarrow> distinct ts \<and> 0 \<notin> set ts \<and> (\<forall>t \<in> set ts. page_al t) \<and> seg (mem k) p ts n \<and>
     task_head k = (if ts = [] then 0 else hd ts) \<and> task_tail k = (if ts = [] then 0 else last ts) \<and>
     (if ts = [] then current_task k = 0 else current_task k \<in> set ts)"

definition task_list :: "u32 list \<Rightarrow> 'a task_machine_scheme \<Rightarrow> bool" where
  "task_list ts k \<longleftrightarrow> distinct ts \<and> 0 \<notin> set ts \<and> (\<forall>t \<in> set ts. page_al t) \<and> seg (mem k) 0 ts 0 \<and>
     task_head k = (if ts = [] then 0 else hd ts) \<and> task_tail k = (if ts = [] then 0 else last ts) \<and>
     (if ts = [] then current_task k = 0 else current_task k \<in> set ts)"

lemma task_list_linked: "task_list ts k = linked 0 ts 0 k"
  by (simp add: task_list_def linked_def)

lemma seg_append:
  "seg m p (xs @ ys) n \<longleftrightarrow> seg m p xs (if ys = [] then n else hd ys) \<and> seg m (if xs = [] then p else last xs) ys n"
  by (induction xs arbitrary: p) auto

lemma seg_cong:
  "(\<And>t. t \<in> set ts \<Longrightarrow> task_next m' t = task_next m t \<and> task_prev m' t = task_prev m t) \<Longrightarrow>
   seg m' p ts n = seg m p ts n"
  by (induction ts arbitrary: p) auto

text \<open>The two links are different entries of the block of a task.\<close>

lemma link_store:
  assumes "page_al t"
  shows "task_next (store32 m (t + 56) v) t = v" "task_prev (store32 m (t + 60) v) t = v"
    "task_prev (store32 m (t + 56) v) t = task_prev m t" "task_next (store32 m (t + 60) v) t = task_next m t"
  using store_entry_other [OF assms assms, of 14 15 m v] store_entry_other [OF assms assms, of 15 14 m v]
  by (simp_all add: task_next_def task_prev_def)

lemma link_store_other:
  assumes "page_al t" "page_al u" "t \<noteq> u"
  shows "task_next (store32 m (t + 56) v) u = task_next m u" "task_prev (store32 m (t + 60) v) u = task_prev m u"
    "task_prev (store32 m (t + 56) v) u = task_prev m u" "task_next (store32 m (t + 60) v) u = task_next m u"
  using store_entry_other [OF assms(1,2), of 14 15 m v] store_entry_other [OF assms(1,2), of 15 14 m v]
    store_entry_other [OF assms(1,2), of 14 14 m v] store_entry_other [OF assms(1,2), of 15 15 m v] assms(3)
  by (simp_all add: task_next_def task_prev_def)

lemma seg_store_next: "page_al t \<Longrightarrow> t \<notin> set xs \<Longrightarrow> \<forall>u \<in> set xs. page_al u \<Longrightarrow> seg (store32 m (t + 56) v) p xs n = seg m p xs n"
  by (intro seg_cong conjI link_store_other) auto

lemma seg_store_prev: "page_al t \<Longrightarrow> t \<notin> set xs \<Longrightarrow> \<forall>u \<in> set xs. page_al u \<Longrightarrow> seg (store32 m (t + 60) v) p xs n = seg m p xs n"
  by (intro seg_cong conjI link_store_other) auto

lemma seg_set_next:
  assumes "seg m p (xs @ [t]) n" "\<forall>u \<in> set (xs @ [t]). page_al u" "distinct (xs @ [t])"
  shows "seg (store32 m (t + 56) v) p (xs @ [t]) v"
  using assms by (simp add: seg_append seg_store_next link_store)

lemma seg_set_prev:
  assumes "seg m p (t # xs) n" "\<forall>u \<in> set (t # xs). page_al u" "distinct (t # xs)"
  shows "seg (store32 m (t + 60) v) v (t # xs) n"
  using assms by (simp add: seg_store_prev link_store)

section \<open>Linking\<close>

lemma task_link_linked:
  assumes "linked p ts n k" "page_al t" "t \<noteq> 0" "t \<notin> set ts"
  shows "linked (if ts = [] then task_prev (mem k) t else p) (ts @ [t]) (task_next (mem k) t) (task_link t k)"
proof (cases "ts = []")
  case True
  with assms show ?thesis by (simp add: linked_def task_link_def)
next
  case False
  then obtain xs l where ts: "ts = xs @ [l]" by (cases ts rule: rev_cases) auto
  have "hd ts \<in> set ts" using False by simp
  then have k: "task_head k \<noteq> 0" "task_tail k = l" "seg (mem k) p (xs @ [l]) n" "\<forall>u \<in> set (xs @ [l]). page_al u" "distinct (xs @ [l])"
    using assms(1) False ts by (auto simp: linked_def)
  let ?m = "store32 (mem k) (l + 56) t"
  have "seg ?m p (xs @ [l]) t" using k(3-5) by (rule seg_set_next)
  then have "seg (store32 ?m (t + 60) l) p (xs @ [l]) t"
    using assms(2,4) k(4) ts by (subst seg_store_prev) auto
  moreover have "seg (store32 ?m (t + 60) l) l [t] (task_next (mem k) t)"
    using assms(2,4) k(4) ts by (auto simp: link_store link_store_other)
  ultimately have "seg (store32 ?m (t + 60) l) p ((xs @ [l]) @ [t]) (task_next (mem k) t)"
    by (simp add: seg_append [of _ _ "xs @ [l]"] del: append_assoc)
  with assms k ts show ?thesis by (auto simp: linked_def task_link_def hd_append)
qed

lemma task_link_list:
  assumes "task_list ts k" "page_al t" "t \<noteq> 0" "t \<notin> set ts" "task_next (mem k) t = 0" "ts = [] \<Longrightarrow> task_prev (mem k) t = 0"
  shows "task_list (ts @ [t]) (task_link t k)"
  using task_link_linked [OF assms(1) [unfolded task_list_linked] assms(2-4)] assms(5,6)
  by (cases "ts = []") (simp_all add: task_list_linked)

section \<open>Unlinking\<close>

lemma seg_unlink:
  assumes "seg m p (xs @ t # ys) n" "xs = [] \<Longrightarrow> p = 0" "ys = [] \<Longrightarrow> n = 0" "distinct (xs @ t # ys)" "\<forall>u \<in> set (xs @ t # ys). page_al u" "0 \<notin> set (xs @ t # ys)"
  defines "m1 \<equiv> (if task_prev m t \<noteq> 0 then store32 m (task_prev m t + 56) (task_next m t) else m)"
  defines "m2 \<equiv> (if task_next m1 t \<noteq> 0 then store32 m1 (task_next m1 t + 60) (task_prev m1 t) else m1)"
  shows "seg m2 p (xs @ ys) n" "task_next m2 t = (if ys = [] then 0 else hd ys)" "task_prev m2 t = (if xs = [] then 0 else last xs)"
proof -
  have t: "task_prev m t = (if xs = [] then 0 else last xs)" "task_next m t = (if ys = [] then 0 else hd ys)"
    using assms(1-3) by (auto simp: seg_append)
  have xs: "seg m p xs t" and ys: "seg m t ys n" using assms(1) by (simp_all add: seg_append)
  have m1: "seg m1 p xs (if ys = [] then n else hd ys) \<and> seg m1 t ys n \<and> task_next m1 t = task_next m t \<and> task_prev m1 t = task_prev m t"
  proof (cases xs rule: rev_cases)
    case Nil
    then show ?thesis using t ys assms(2) by (simp add: m1_def)
  next
    case (snoc as a)
    then have m1': "m1 = store32 m (a + 56) (if ys = [] then n else hd ys)" using t assms(3,6) by (auto simp: m1_def)
    have "seg m1 p xs (if ys = [] then n else hd ys)"
      unfolding m1' snoc using xs assms(4,5) snoc by (intro seg_set_next) auto
    then show ?thesis using ys assms(4,5) snoc unfolding m1' by (auto simp: seg_store_next link_store_other)
  qed
  show "seg m2 p (xs @ ys) n" "task_next m2 t = (if ys = [] then 0 else hd ys)" "task_prev m2 t = (if xs = [] then 0 else last xs)"
  proof -
    have "seg m2 p (xs @ ys) n \<and> task_next m2 t = (if ys = [] then 0 else hd ys) \<and> task_prev m2 t = (if xs = [] then 0 else last xs)"
    proof (cases ys)
      case Nil
      then show ?thesis using m1 t assms(3) by (simp add: m2_def)
    next
      case (Cons b bs)
      then have m2': "m2 = store32 m1 (b + 60) (if xs = [] then 0 else last xs)" using m1 t assms(6) by (auto simp: m2_def)
      have "seg m2 (if xs = [] then 0 else last xs) (b # bs) n"
        unfolding m2' using m1 Cons assms(4,5) by (intro seg_set_prev [of m1 t]) auto
      moreover have "seg m2 p xs b" using m1 Cons assms(4,5) unfolding m2' by (subst seg_store_prev) auto
      ultimately show ?thesis using m1 t Cons assms(2,4,5) unfolding m2' by (auto simp: seg_append link_store_other)
    qed
    then show "seg m2 p (xs @ ys) n" "task_next m2 t = (if ys = [] then 0 else hd ys)" "task_prev m2 t = (if xs = [] then 0 else last xs)"
      by simp_all
  qed
qed

text \<open>Removing a task at an end of the list writes through the link that ends it, unless that is 0.\<close>

lemma task_list_remove_linked:
  assumes "linked p (xs @ t # ys) n k" "xs = [] \<Longrightarrow> p = 0" "ys = [] \<Longrightarrow> n = 0"
  shows "linked p (xs @ ys) n (task_list_remove t k) \<and>
    current_task (task_list_remove t k) =
      (if t \<noteq> current_task k then current_task k else if ys \<noteq> [] then hd ys else if xs \<noteq> [] then hd xs else 0)"
proof -
  define m1 where "m1 = (if task_prev (mem k) t \<noteq> 0 then store32 (mem k) (task_prev (mem k) t + 56) (task_next (mem k) t) else mem k)"
  define m2 where "m2 = (if task_next m1 t \<noteq> 0 then store32 m1 (task_next m1 t + 60) (task_prev m1 t) else m1)"
  have h: "seg (mem k) p (xs @ t # ys) n" "distinct (xs @ t # ys)" "\<forall>u \<in> set (xs @ t # ys). page_al u" "0 \<notin> set (xs @ t # ys)"
      "task_head k = hd (xs @ t # ys)" "task_tail k = last (xs @ t # ys)" "current_task k \<in> set (xs @ t # ys)"
    using assms(1) by (simp_all add: linked_def)
  note u = seg_unlink [OF h(1) assms(2,3) h(2-4), folded m1_def, folded m2_def]
  have hd: "t = task_head k \<longleftrightarrow> xs = []" using h(2,5) by (cases xs) auto
  have tl: "t = task_tail k \<longleftrightarrow> ys = []" using h(2,6) by (cases ys rule: rev_cases) auto
  have hx: "task_head k = hd xs" if "xs \<noteq> []" using that h(5) by simp
  have ly: "task_tail k = last ys" if "ys \<noteq> []" using that h(6) by simp
  have ne: "hd ys \<noteq> 0" if "ys \<noteq> []" using that h(4) by (cases ys) auto
  have k1: "(if task_prev (mem k) t \<noteq> 0
      then k\<lparr>mem := store32 (mem k) (task_prev (mem k) t + 56) (task_next (mem k) t)\<rparr> else k) = k\<lparr>mem := m1\<rparr>"
    by (simp add: m1_def)
  let ?k1 = "k\<lparr>mem := m1\<rparr>"
  have k2: "(if task_next (mem ?k1) t \<noteq> 0
      then ?k1\<lparr>mem := store32 (mem ?k1) (task_next (mem ?k1) t + 60) (task_prev (mem ?k1) t)\<rparr> else ?k1) = k\<lparr>mem := m2\<rparr>"
    by (simp add: m2_def)
  have "mem (task_list_remove t k) = m2 \<and>
      task_head (task_list_remove t k) = (if xs = [] then if ys = [] then 0 else hd ys else hd xs) \<and>
      task_tail (task_list_remove t k) = (if ys = [] then if xs = [] then 0 else last xs else last ys) \<and>
      current_task (task_list_remove t k) =
        (if t \<noteq> current_task k then current_task k else if ys \<noteq> [] then hd ys else if xs \<noteq> [] then hd xs else 0)"
    unfolding task_list_remove_def Let_def k1 k2
    using u(2,3) ne hd tl hx ly by (cases "xs = []"; cases "ys = []") (auto simp: task_get_next_def)
  then show ?thesis using u h by (auto simp: linked_def)
qed

lemma task_list_remove_list:
  assumes "task_list (xs @ t # ys) k"
  shows "task_list (xs @ ys) (task_list_remove t k) \<and>
    current_task (task_list_remove t k) =
      (if t \<noteq> current_task k then current_task k else if ys \<noteq> [] then hd ys else if xs \<noteq> [] then hd xs else 0)"
  using task_list_remove_linked [OF assms [unfolded task_list_linked]] by (simp add: task_list_linked)

section \<open>A new task\<close>

lemma same_rest_task:
  fixes k k' :: "'a task_machine_scheme"
  assumes "same_rest k k'"
  shows "task_head k' = task_head k" "task_tail k' = task_tail k" "current_task k' = current_task k"
proof -
  have e: "k'\<lparr>kernel_heap := kernel_heap k, mem := mem k\<rparr> = k" using assms by (simp add: same_rest_def)
  show "task_head k' = task_head k" "task_tail k' = task_tail k" "current_task k' = current_task k"
    using arg_cong [OF e, of task_head] arg_cong [OF e, of task_tail] arg_cong [OF e, of current_task] by simp_all
qed

text \<open>Where a process starts: at the entry point of its ELF file, or at the load address of a binary.\<close>

definition start_address :: "mem \<Rightarrow> u32 \<Rightarrow> u32" where
  "start_address m proc = (if proc_filetype m proc = PROCESS_FILE_TYPE_ELF
     then e_entry m (elf_header m (proc_elf_file m proc)) else PEACHOS_PROGRAM_VIRTUAL_ADDRESS)"

definition start_bytes :: "mem \<Rightarrow> u32 \<Rightarrow> u32 set" where
  "start_bytes m proc = {proc + 110} \<union> (\<lambda>j. proc + 8308 + of_nat j) ` {..<4} \<union>
     (\<lambda>j. proc_elf_file m proc + 112 + of_nat j) ` {..<4} \<union>
     (\<lambda>j. elf_header m (proc_elf_file m proc) + 24 + of_nat j) ` {..<4}"

lemma start_cong:
  assumes "\<And>a. a \<in> start_bytes m proc \<Longrightarrow> m' a = m a"
  shows "start_address m' proc = start_address m proc" "start_bytes m' proc = start_bytes m proc"
proof -
  have ld: "load32 m' a = load32 m a" if "\<And>j. j < 4 \<Longrightarrow> a + of_nat j \<in> start_bytes m proc" for a
    using assms that [of 0] that [of 1] that [of 2] that [of 3] by (intro load32_cong) simp_all
  have 1: "proc_filetype m' proc = proc_filetype m proc" using assms by (simp add: proc_filetype_def start_bytes_def)
  have 2: "proc_elf_file m' proc = proc_elf_file m proc"
    unfolding proc_elf_file_def by (rule ld) (auto simp: start_bytes_def)
  have 3: "elf_header m' (proc_elf_file m proc) = elf_header m (proc_elf_file m proc)"
    unfolding elf_header_def elf_memory_def by (rule ld) (auto simp: start_bytes_def)
  have 4: "e_entry m' (elf_header m (proc_elf_file m proc)) = e_entry m (elf_header m (proc_elf_file m proc))"
    unfolding e_entry_def by (rule ld) (auto simp: start_bytes_def)
  show "start_address m' proc = start_address m proc" "start_bytes m' proc = start_bytes m proc"
    using 1 2 3 4 by (simp_all add: start_address_def start_bytes_def)
qed

text \<open>What \<open>task_init\<close> writes into the block of the task once it has the page directory.\<close>

definition init_stores :: "u32 \<Rightarrow> u32 \<Rightarrow> u32 \<Rightarrow> u32 \<Rightarrow> mem \<Rightarrow> mem" where
  "init_stores task chunk start proc m =
     (let m = store32 (store32 m task chunk) (task + 32) PEACHOS_PROGRAM_VIRTUAL_ADDRESS;
          m = store32 m (task + 32) start;
          m = store32 m (task + 48) USER_DATA_SEGMENT;
          m = store32 m (task + 36) USER_CODE_SEGMENT;
          m = store32 m (task + 44) PEACHOS_PROGRAM_VIRTUAL_STACK_ADDRESS_START
      in store32 m (task + 52) proc)"

lemma store32_twice: "store32 (store32 m a v) a w = store32 m a w"
  by (simp add: store32_def fun_upd_twist)

lemma init_stores_entries:
  assumes "page_al t"
  shows "load32 (init_stores t c s proc m) t = c" "load32 (init_stores t c s proc m) (t + 32) = s"
    "load32 (init_stores t c s proc m) (t + 36) = 0x1B" "load32 (init_stores t c s proc m) (t + 44) = 0x3FF000"
    "load32 (init_stores t c s proc m) (t + 48) = 0x23" "task_process (init_stores t c s proc m) t = proc"
    "task_next (init_stores t c s proc m) t = task_next m t" "task_prev (init_stores t c s proc m) t = task_prev m t"
    "\<not> in_range a t 4096 \<Longrightarrow> init_stores t c s proc m a = m a"
proof -
  have o: "load32 (store32 m (t + 4 * of_nat i) x) (t + 4 * of_nat j) = load32 m (t + 4 * of_nat j)"
    if "i < 1024" "j < 1024" "i \<noteq> j" for m i j x
    using store_entry_other [OF assms assms that(1,2)] that(3) by blast
  note o' = o [of 0 8] o [of 8 0] o [of 12 0] o [of 9 0] o [of 11 0] o [of 13 0] o [of 12 8] o [of 9 8] o [of 11 8] o [of 13 8]
    o [of 11 9] o [of 13 9] o [of 13 11] o [of 9 12] o [of 11 12] o [of 13 12]
    o [of 0 14] o [of 8 14] o [of 12 14] o [of 9 14] o [of 11 14] o [of 13 14]
    o [of 0 15] o [of 8 15] o [of 12 15] o [of 9 15] o [of 11 15] o [of 13 15]
  show "load32 (init_stores t c s proc m) t = c" "load32 (init_stores t c s proc m) (t + 32) = s"
    "load32 (init_stores t c s proc m) (t + 36) = 0x1B" "load32 (init_stores t c s proc m) (t + 44) = 0x3FF000"
    "load32 (init_stores t c s proc m) (t + 48) = 0x23" "task_process (init_stores t c s proc m) t = proc"
    "task_next (init_stores t c s proc m) t = task_next m t" "task_prev (init_stores t c s proc m) t = task_prev m t"
    using o' by (simp_all add: init_stores_def Let_def task_process_def task_next_def task_prev_def)
  have f: "store32 m (t + 4 * of_nat i) x a = m a" if "i < 1024" "\<not> in_range a t 4096" for m i x
    using store_entry_frame [OF assms] that by blast
  show "init_stores t c s proc m a = m a" if "\<not> in_range a t 4096"
    using f [of 0] f [of 8] f [of 9] f [of 11] f [of 12] f [of 13] that by (simp add: init_stores_def Let_def)
qed

lemma task_init_eq:
  assumes "paging_new_4gb 5 (k\<lparr>mem := memset (mem k) t 0 4\<rparr>) = Some (c, k')" "c \<noteq> 0"
  shows "task_init t proc k = Some (0, k'\<lparr>mem := init_stores t c
    (start_address (store32 (store32 (mem k') t c) (t + 32) 0x400000) proc) proc (mem k')\<rparr>)"
proof -
  have "ucast (PAGING_IS_PRESENT OR PAGING_ACCESS_FROM_ALL) = (5 :: u8)"
    by (simp add: PAGING_IS_PRESENT_def PAGING_ACCESS_FROM_ALL_def)
  moreover have "t + 4 + 28 = t + 32" "t + 4 + 32 = t + 36" "t + 4 + 40 = t + 44" "t + 4 + 44 = t + 48" by simp_all
  ultimately show ?thesis
    using assms unfolding task_init_def task_registers_def Let_def init_stores_def start_address_def
    by (simp only: bind.bind_lunit prod.case Option.bind.simps) (simp add: store32_twice)
qed

text \<open>A change outside the pages of a chunk leaves the chunk alone.\<close>

lemma owned_cong:
  assumes "chunk_ok m c" "\<And>p a. p \<in> set (owned_pages m c) \<Longrightarrow> in_range a p 4096 \<Longrightarrow> m' a = m a"
  shows "load32 m' c = load32 m c" "owned_pages m' c = owned_pages m c" "chunk_ok m' c"
    "page_al v \<Longrightarrow> paging_get m' (load32 m c) v = paging_get m (load32 m c) v"
proof -
  let ?d = "load32 m c"
  have al: "page_al c" "page_al ?d" using assms(1) by (simp_all add: chunk_ok_def tables_ok_def)
  have "load32 m' (c + 4 * of_nat 0) = load32 m (c + 4 * of_nat 0)"
    using al by (intro page_load_cong assms(2)) (simp_all add: owned_pages_def)
  then show d: "load32 m' c = load32 m c" by simp
  have t: "table_at m' ?d i = table_at m ?d i" if "i < 1024" for i
  proof -
    have "load32 m' (?d + 4 * of_nat i) = load32 m (?d + 4 * of_nat i)"
      using al that by (intro page_load_cong assms(2)) (simp_all add: owned_pages_def)
    then show ?thesis by (simp add: table_at_def)
  qed
  then show "owned_pages m' c = owned_pages m c" by (simp add: owned_pages_def d)
  have "inj_on (table_at m' ?d) {..<1024} = inj_on (table_at m ?d) {..<1024}" using t by (intro inj_on_cong) simp
  then show "chunk_ok m' c" using assms(1) t by (simp add: chunk_ok_def tables_ok_def d)
  have "load32 m' (table_at m ?d (dix v) + 4 * of_nat (tix v)) = load32 m (table_at m ?d (dix v) + 4 * of_nat (tix v))"
    using dix_less [of v] tix_less [of v] by (intro page_load_cong assms(2)) (simp_all add: owned_pages_def)
  then show "paging_get m' ?d v = paging_get m ?d v" if "page_al v"
    using that t [OF dix_less [of v]] by (simp add: paging_get_eq)
qed

text \<open>Bytes that were kept lie outside everything allocated since.\<close>

lemma fresh_not_kept:
  assumes "kwf k'" "kgeom k' = kgeom k" "\<And>q j. klive k q = Some j \<Longrightarrow> klive k' q = Some j"
    and "klive k p = None" "klive k' p = Some i" "kept k a"
  shows "\<not> in_range a p (4096 * i)"
proof
  assume r: "in_range a p (4096 * i)"
  have "in_range a (fst (kgeom k)) (4096 * snd (kgeom k))"
    using live_in_area [OF assms(1,5) r] assms(2) by simp
  with assms(6) obtain q j where q: "klive k q = Some j" "in_range a q (4096 * j)" by (auto simp: kept_def)
  with assms(4) have "q \<noteq> p" by auto
  with kalloc.live_disjoint [OF assms(1,5) assms(3) [OF q(1)]] r q(2) show False by auto
qed

text \<open>Making a task, up to the list: the block of the task and a fresh page directory.\<close>

lemma task_init_ok:
  fixes k :: "'a task_machine_scheme"
  assumes wf: "kwf k" and room: "1026 \<le> kroom k" and t: "klive k t = Some 1"
    and start: "\<And>a. a \<in> start_bytes (mem k) proc \<Longrightarrow> kept k a \<and> \<not> in_range a t 4096"
    and z: "memset (mem k) t 0 4 = mem k"
  shows "\<exists>c k'. task_init t proc k = Some (0, k'\<lparr>mem := init_stores t c (start_address (mem k) proc) proc (mem k')\<rparr>) \<and>
    owns_chunk k' c \<and> klive k c = None \<and> same_rest k k' \<and>
    (\<forall>v. page_al v \<longrightarrow> paging_get (mem k') (load32 (mem k') c) v = v OR 5) \<and>
    (\<forall>q. klive k q = Some 1 \<longrightarrow> q \<notin> set (owned_pages (mem k') c)) \<and>
    (\<forall>a. kept k a \<longrightarrow> mem k' a = mem k a)"
proof -
  have k: "k\<lparr>mem := memset (mem k) t 0 4\<rparr> = k" unfolding z by simp
  obtain c k' where c: "paging_new_4gb 5 k = Some (c, k')" "owns_chunk k' c"
      "\<forall>v. page_al v \<longrightarrow> paging_get (mem k') (load32 (mem k') c) v = v OR ucast (5 :: u8)"
      "\<forall>p \<in> set (owned_pages (mem k') c). klive k p = None"
      "klive k' = (\<lambda>p. if p \<in> set (owned_pages (mem k') c) then Some 1 else klive k p)" "kgeom k' = kgeom k" "same_rest k k'"
      "\<forall>a. (\<forall>p \<in> set (owned_pages (mem k') c). \<not> in_range a p 4096) \<longrightarrow> mem k' a = mem k a"
    using paging_new_4gb_correct' [OF wf room, of 5] by blast
  have wf': "kwf k'" and cin: "c \<in> set (owned_pages (mem k') c)" using c(2) by (simp_all add: owns_chunk_def owned_pages_def)
  have c0: "c \<noteq> 0" using kalloc.live_region [OF wf', of c 1] c(5) cin by simp
  have mono: "klive k q = Some j \<Longrightarrow> klive k' q = Some j" for q j using c(4,5) by auto
  have kept': "mem k' a = mem k a" if "kept k a" for a
  proof -
    have "\<not> in_range a p 4096" if p: "p \<in> set (owned_pages (mem k') c)" for p
    proof -
      have "klive k p = None" "klive k' p = Some 1" using c(4,5) p by simp_all
      from fresh_not_kept [OF wf' c(6) mono this \<open>kept k a\<close>] show ?thesis by simp
    qed
    with c(8) show ?thesis by blast
  qed
  have al: "page_al t" using kalloc.live_region [OF wf t] by (simp add: page_al_def)
  have "start_address (store32 (store32 (mem k') t c) (t + 32) 0x400000) proc = start_address (mem k) proc"
  proof (rule start_cong)
    fix a
    assume "a \<in> start_bytes (mem k) proc"
    with start have a: "kept k a" "\<not> in_range a t 4096" by blast+
    then show "store32 (store32 (mem k') t c) (t + 32) 0x400000 a = mem k a"
      using store_entry_frame [OF al, of 0 a] store_entry_frame [OF al, of 8 a] kept' by simp
  qed
  with task_init_eq [of k t c k' proc] c(1) c0 k
  have "task_init t proc k = Some (0, k'\<lparr>mem := init_stores t c (start_address (mem k) proc) proc (mem k')\<rparr>)" by simp
  moreover have "klive k c = None" using c(4) cin by blast
  moreover have "\<forall>q. klive k q = Some 1 \<longrightarrow> q \<notin> set (owned_pages (mem k') c)" using c(4) by auto
  ultimately show ?thesis using c(2,3,7) kept' by (intro exI [of _ c] exI [of _ k']) simp
qed

lemma task_link_mem:
  assumes "page_al t" "t \<noteq> 0" "task_head k = 0 \<or> page_al (task_tail k) \<and> task_tail k \<noteq> t"
  shows "i < 15 \<Longrightarrow> load32 (mem (task_link t k)) (t + 4 * of_nat i) = load32 (mem k) (t + 4 * of_nat i)"
    and "\<not> in_range a t 4096 \<Longrightarrow> task_head k = 0 \<or> \<not> in_range a (task_tail k) 4096 \<Longrightarrow> mem (task_link t k) a = mem k a"
    and "kernel_heap (task_link t k) = kernel_heap k" "task_tail (task_link t k) = t"
    and "task_head (task_link t k) = (if task_head k = 0 then t else task_head k)"
proof -
  show "load32 (mem (task_link t k)) (t + 4 * of_nat i) = load32 (mem k) (t + 4 * of_nat i)" if "i < 15"
    using store_entry_other [of "task_tail k" t 14 i "mem k" t] that assms
      store_entry_other [OF assms(1) assms(1), of 15 i "store32 (mem k) (task_tail k + 4 * of_nat 14) t" "task_tail k"]
    by (auto simp: task_link_def)
  show "mem (task_link t k) a = mem k a" if "\<not> in_range a t 4096" "task_head k = 0 \<or> \<not> in_range a (task_tail k) 4096"
    using store_entry_frame [of "task_tail k" 14 a "mem k" t] assms that
      store_entry_frame [OF assms(1), of 15 a "store32 (mem k) (task_tail k + 4 * of_nat 14) t" "task_tail k"]
    by (auto simp: task_link_def)
qed (simp_all add: task_link_def)

lemma task_new_ok:
  fixes k :: "'a task_machine_scheme"
  assumes wf: "kwf k" and room: "1027 \<le> kroom k"
    and start: "\<And>a. a \<in> start_bytes (mem k) proc \<Longrightarrow> kept k a"
    and tail: "task_head k = 0 \<or> klive k (task_tail k) = Some 1"
  shows "\<exists>t k'. task_new proc k = Some (t, k') \<and> t \<noteq> 0 \<and> page_al t \<and> klive k t = None \<and>
    owns_chunk k' (task_page_directory (mem k') t) \<and>
    (\<forall>v. page_al v \<longrightarrow> paging_get (mem k') (directory_entry (mem k') (task_page_directory (mem k') t)) v = v OR 5) \<and>
    load32 (mem k') (task_registers t + 28) = start_address (mem k) proc \<and>
    load32 (mem k') (task_registers t + 32) = 0x1B \<and> load32 (mem k') (task_registers t + 44) = 0x23 \<and>
    reg_esp (mem k') (task_registers t) = 0x3FF000 \<and> task_process (mem k') t = proc \<and>
    task_next (mem k') t = task_next (mem k) t \<and> task_tail k' = t \<and>
    task_head k' = (if task_head k = 0 then t else task_head k) \<and>
    (task_list ts k \<and> (\<forall>u \<in> set ts. klive k u = Some 1) \<longrightarrow>
       (task_list (ts @ [t]) k' \<longleftrightarrow> task_next (mem k) t = 0 \<and> (ts = [] \<longrightarrow> task_prev (mem k) t = 0)))"
proof -
  have "0 < kroom k" using room by simp
  moreover have "0 < unat (4 :: u32)" "unat (4 :: u32) \<le> 4096" by simp_all
  ultimately obtain t k1 where t: "kzalloc 4 k = Some (t, k1)" "t \<noteq> 0" "page_al t" "kwf k1" "Suc (kroom k1) = kroom k"
      "klive k t = None" "klive k1 = (klive k)(t \<mapsto> 1)" "kgeom k1 = kgeom k" "same_rest k k1"
      "\<And>a. in_range a t (unat (4 :: u32)) \<Longrightarrow> mem k1 a = 0"
      "\<And>a. kept k a \<Longrightarrow> mem k1 a = mem k a \<and> kept k1 a \<and> \<not> in_range a t 4096"
    using kzalloc_small [OF wf, of 4] by blast
  have m1: "mem k1 = (\<lambda>a. if unat (a - t) < 4 then 0 else mem k a)" using kzalloc_mem [OF t(1,2)] by simp
  then have z: "memset (mem k1) t 0 4 = mem k1" by (auto simp: memset_eq)
  have ag: "\<And>a. a \<in> start_bytes (mem k) proc \<Longrightarrow> mem k1 a = mem k a" using t(11) [OF start] by blast
  have sb: "start_address (mem k1) proc = start_address (mem k) proc" "start_bytes (mem k1) proc = start_bytes (mem k) proc"
    using start_cong [of "mem k" proc "mem k1", OF ag] by blast+
  have lt: "klive k1 t = Some 1" and r1: "1026 \<le> kroom k1" using t(5,7) room by simp_all
  have nk: "\<And>a. a \<in> start_bytes (mem k1) proc \<Longrightarrow> kept k1 a \<and> \<not> in_range a t 4096"
    using start t(11) unfolding sb by blast
  from task_init_ok [OF t(4) r1 lt, of proc, OF nk z] obtain c k2
    where i: "task_init t proc k1 = Some (0, k2\<lparr>mem := init_stores t c (start_address (mem k) proc) proc (mem k2)\<rparr>)"
      and c: "owns_chunk k2 c" "same_rest k1 k2"
        "\<forall>v. page_al v \<longrightarrow> paging_get (mem k2) (load32 (mem k2) c) v = v OR 5"
        "\<forall>q. klive k1 q = Some 1 \<longrightarrow> q \<notin> set (owned_pages (mem k2) c)"
        "\<forall>a. kept k1 a \<longrightarrow> mem k2 a = mem k1 a"
    unfolding sb by blast
  let ?k3 = "k2\<lparr>mem := init_stores t c (start_address (mem k) proc) proc (mem k2)\<rparr>"
  let ?k4 = "task_link t ?k3"
  have new: "task_new proc k = Some (t, ?k4)" using t(1,2) i by (simp add: task_new_def status_simps)
  have hd: "task_head ?k3 = task_head k" "task_tail ?k3 = task_tail k"
    using same_rest_task [OF t(9)] same_rest_task [OF c(2)] by simp_all
  have tl: "task_head ?k3 = 0 \<or> page_al (task_tail ?k3) \<and> task_tail ?k3 \<noteq> t"
    using tail kalloc.live_region [OF wf, of "task_tail k" 1] t(6) unfolding hd by (auto simp: page_al_def)
  note link = task_link_mem [OF t(3,2) tl]
  note st = init_stores_entries [OF t(3), where c = c and s = "start_address (mem k) proc" and proc = proc and m = "mem k2"]
  have same: "mem ?k4 a = mem k2 a" if p: "p \<in> set (owned_pages (mem k2) c)" "in_range a p 4096" for p a
  proof -
    have alp: "page_al p" using c(1) p(1) kalloc.live_region [of k2 p 1] by (auto simp: owns_chunk_def page_al_def)
    have "p \<noteq> t" using c(4) lt p(1) by auto
    then have nt: "\<not> in_range a t 4096" using pages_disjoint [OF t(3) alp _ p(2)] by blast
    have "task_head ?k3 = 0 \<or> \<not> in_range a (task_tail ?k3) 4096"
    proof (cases "task_head ?k3 = 0")
      case False
      then have l: "klive k (task_tail k) = Some 1" "page_al (task_tail k)" using tail tl unfolding hd by auto
      then have "klive k1 (task_tail k) = Some 1" using t(6,7) by auto
      then have "p \<noteq> task_tail k" using c(4) p(1) by auto
      then show ?thesis using pages_disjoint [OF l(2) alp _ p(2)] unfolding hd by blast
    qed simp
    from link(2) [OF nt this] st(9) [OF nt] show ?thesis by simp
  qed
  have e: "load32 (mem ?k4) (t + 4 * of_nat i) = load32 (mem ?k3) (t + 4 * of_nat i)" if "i < 15" for i
    using link(1) [OF that] .
  have pd: "task_page_directory (mem ?k4) t = c" using e [of 0] st(1) by (simp add: task_page_directory_def)
  have link3: "task_next (mem ?k3) t = task_next (mem k) t" "task_prev (mem ?k3) t = task_prev (mem k) t"
  proof -
    have "load32 (mem k2) (t + 4 * of_nat i) = load32 (mem k1) (t + 4 * of_nat i)" if "i < 1024" for i
      using page_load_cong [of t "mem k2" "mem k1" i] c(5) kept_live [OF lt] t(3) that by simp
    from this [of 14] this [of 15] st(7,8) show "task_next (mem ?k3) t = task_next (mem k) t" "task_prev (mem ?k3) t = task_prev (mem k) t"
      unfolding m1 task_next_def task_prev_def load32_def by (simp_all add: add.assoc)
  qed
  have chain: "task_list (ts @ [t]) ?k4"
    if tl: "task_list ts k" "\<forall>u \<in> set ts. klive k u = Some 1" and z: "task_next (mem k) t = 0" "ts = [] \<longrightarrow> task_prev (mem k) t = 0"
  proof (rule task_link_list)
    have "task_next (mem ?k3) u = task_next (mem k) u \<and> task_prev (mem ?k3) u = task_prev (mem k) u" if "u \<in> set ts" for u
    proof -
      have u: "klive k u = Some 1" "page_al u" using that tl by (auto simp: task_list_def)
      have "mem ?k3 a = mem k a" if "in_range a u 4096" for a
        using kept_live [OF u(1), of a] that t(11) [of a] c(5) st(9) [of a] by simp
      from page_load_cong [OF this u(2), where j = 14] page_load_cong [OF this u(2), where j = 15]
      show ?thesis by (simp add: task_next_def task_prev_def)
    qed
    then show "task_list ts ?k3"
      using tl(1) hd same_rest_task(3) [OF t(9)] same_rest_task(3) [OF c(2)] seg_cong [of ts "mem ?k3" "mem k" 0 0]
      by (simp add: task_list_def)
    show "t \<notin> set ts" using tl(2) t(6) by auto
  qed (use t(2,3) link3 z in simp_all)
  have unchain: "task_next (mem k) t = 0 \<and> (ts = [] \<longrightarrow> task_prev (mem k) t = 0)"
    if tl: "task_list ts k" "task_list (ts @ [t]) ?k4"
  proof -
    have "task_next (mem ?k4) t = 0" using tl(2) by (auto simp: task_list_def seg_append)
    moreover have "task_prev (mem ?k4) t = task_prev (mem ?k3) t" "task_prev (mem ?k4) t = 0" if "ts = []"
      using tl that hd by (simp_all add: task_list_def task_link_def)
    ultimately show ?thesis using e [of 14] link3 by (simp add: task_next_def)
  qed
  have joins: "task_list ts k \<and> (\<forall>u \<in> set ts. klive k u = Some 1) \<longrightarrow>
      (task_list (ts @ [t]) ?k4 \<longleftrightarrow> task_next (mem k) t = 0 \<and> (ts = [] \<longrightarrow> task_prev (mem k) t = 0))"
    using chain unchain by blast
  have "chunk_ok (mem k2) c" using c(1) by (simp add: owns_chunk_def)
  note oc = owned_cong [OF this, of "mem ?k4", OF same]
  have "owns_chunk ?k4 c" using c(1) oc link(3) by (simp add: owns_chunk_def kwf_def klive_def)
  moreover have "\<forall>v. page_al v \<longrightarrow> paging_get (mem ?k4) (directory_entry (mem ?k4) c) v = v OR 5"
    using oc(1,4) c(3) by (simp add: directory_entry_def)
  moreover have "task_next (mem ?k4) t = task_next (mem k) t"
    using e [of 14] link3(1) by (simp add: task_next_def)
  ultimately show ?thesis
    using joins new t(2,3,6) pd e [of 8] e [of 9] e [of 11] e [of 12] e [of 13] st(2-6) link(4,5) hd
    by (intro exI [of _ t] exI [of _ ?k4]) (simp add: task_registers_def reg_esp_def task_process_def add.assoc)
qed

section \<open>Every reachable list of tasks\<close>

lemma task_switch_eqs [frame_simps]:
  "mem (snd (task_switch t k)) = mem k" "task_head (snd (task_switch t k)) = task_head k"
  "task_tail (snd (task_switch t k)) = task_tail k" "current_task (snd (task_switch t k)) = t"
  by (simp_all add: task_switch_def paging_switch_def paging_load_directory_def Let_def)

lemma linked_switch: "linked p ts n k \<Longrightarrow> t \<in> set ts \<Longrightarrow> linked p ts n (snd (task_switch t k))"
  by (auto simp: linked_def frame_simps)

text \<open>The states the operations on the list reach: \<open>ts\<close> is the list of the tasks linked and not yet removed, in
  the order of their creation. A task is linked with whatever its block holds in the places of its links: nothing
  clears them. \<open>p\<close> and \<open>n\<close> keep what the blocks of the first and of the last task held, and a task is removed from
  an end of the list only where that is 0. Everything else the kernel does leaves the links and the three pointers
  alone.\<close>

inductive reaches :: "u32 \<Rightarrow> u32 list \<Rightarrow> u32 \<Rightarrow> 'a task_machine_scheme \<Rightarrow> bool" where
  boot: "task_head k = 0 \<Longrightarrow> task_tail k = 0 \<Longrightarrow> current_task k = 0 \<Longrightarrow> reaches 0 [] 0 k"
| link: "reaches p ts n k \<Longrightarrow> page_al t \<Longrightarrow> t \<noteq> 0 \<Longrightarrow> t \<notin> set ts \<Longrightarrow>
    reaches (if ts = [] then task_prev (mem k) t else p) (ts @ [t]) (task_next (mem k) t) (task_link t k)"
| remove: "reaches p (xs @ t # ys) n k \<Longrightarrow> (xs = [] \<Longrightarrow> p = 0) \<Longrightarrow> (ys = [] \<Longrightarrow> n = 0) \<Longrightarrow>
    reaches p (xs @ ys) n (task_list_remove t k)"
| switch: "reaches p ts n k \<Longrightarrow> t \<in> set ts \<Longrightarrow> reaches p ts n (snd (task_switch t k))"
| other: "reaches p ts n k \<Longrightarrow> \<forall>t \<in> set ts. task_next (mem k') t = task_next (mem k) t \<and> task_prev (mem k') t = task_prev (mem k) t \<Longrightarrow>
    task_head k' = task_head k \<Longrightarrow> task_tail k' = task_tail k \<Longrightarrow> current_task k' = current_task k \<Longrightarrow> reaches p ts n k'"

lemma reaches_linked: "reaches p ts n k \<Longrightarrow> linked p ts n k"
proof (induction rule: reaches.induct)
  case (boot k)
  then show ?case by (simp add: linked_def)
next
  case (link p ts n k t)
  then show ?case by (intro task_link_linked) simp_all
next
  case (remove p xs t ys n k)
  then show ?case using task_list_remove_linked by blast
next
  case (switch p ts n k t)
  then show ?case by (intro linked_switch)
next
  case (other p ts n k k')
  then show ?case using seg_cong [of ts "mem k'" "mem k"] by (auto simp: linked_def)
qed

lemma reaches_list: "reaches 0 ts 0 k \<Longrightarrow> task_list ts k"
  using reaches_linked [of 0 ts 0 k] by (simp add: task_list_linked)

text \<open>C7. Whatever tasks were linked, switched to and removed since boot, in any order, with anything in the blocks
  of the tasks when they were linked: the tasks that remain are chained in creation order by \<open>next\<close> and \<open>prev\<close>,
  head and tail point to its ends (0 if there is none), and the current task is one of them; a removed task is
  never current, its successor is, or the head when it was last. The two links that lead out of the list need not be
  0: they are what the blocks of the first and the last task held when they were linked (their allocation does not clear
  them); no task has been removed from an end where that is not 0, since its removal writes through the link.\<close>

theorem task_list_invariant:
  assumes "reaches p ts n k"
  shows "distinct ts \<and> seg (mem k) p ts n \<and> task_head k = (if ts = [] then 0 else hd ts) \<and>
    task_tail k = (if ts = [] then 0 else last ts) \<and>
    (if ts = [] then task_current k = 0 else task_current k \<in> set ts) \<and>
    (\<forall>xs t ys. ts = xs @ t # ys \<longrightarrow> (xs = [] \<longrightarrow> p = 0) \<longrightarrow> (ys = [] \<longrightarrow> n = 0) \<longrightarrow> task_current (task_list_remove t k) =
       (if t \<noteq> task_current k then task_current k else if ys \<noteq> [] then hd ys else if xs \<noteq> [] then hd xs else 0))"
proof -
  have l: "linked p ts n k" using assms by (rule reaches_linked)
  have "task_current (task_list_remove t k) =
      (if t \<noteq> task_current k then task_current k else if ys \<noteq> [] then hd ys else if xs \<noteq> [] then hd xs else 0)"
    if "ts = xs @ t # ys" "xs = [] \<longrightarrow> p = 0" "ys = [] \<longrightarrow> n = 0" for xs t ys
    using task_list_remove_linked [OF l [unfolded that(1)]] that(2,3) by (simp add: task_current_def)
  with l show ?thesis unfolding linked_def task_current_def by blast
qed

text \<open>Three tasks are made, in blocks that hold other things, and the second is removed.\<close>

definition three_tasks :: proc_machine where
  "three_tasks = task_link 0x3000 (task_link 0x2000 (task_link 0x1000 (sample_machine (\<lambda>_. 255))))"

lemma al3: "page_al 0x1000" "page_al 0x2000" "page_al 0x3000"
  by (simp_all add: page_al_def)

lemma three_tasks_reached: "reaches 0xFFFFFFFF [0x1000, 0x2000, 0x3000] 0xFFFFFFFF three_tasks"
proof -
  let ?k = "sample_machine (\<lambda>_. 255)"
  let ?k1 = "task_link 0x1000 ?k"
  let ?k2 = "task_link 0x2000 ?k1"
  have 0: "reaches 0 [] 0 ?k" by (rule reaches.boot) (simp_all add: sample_machine_def)
  have n: "task_prev (mem ?k) 0x1000 = 0xFFFFFFFF" "task_next (mem ?k) 0x1000 = 0xFFFFFFFF" "task_next (mem ?k1) 0x2000 = 0xFFFFFFFF"
    "task_next (mem ?k2) 0x3000 = 0xFFFFFFFF"
    by (simp_all add: task_next_def task_prev_def load32_def store32_def sample_machine_def task_link_def)
  have 1: "reaches 0xFFFFFFFF [0x1000] 0xFFFFFFFF ?k1" using reaches.link [OF 0 al3(1)] by (simp add: n)
  have 2: "reaches 0xFFFFFFFF [0x1000, 0x2000] 0xFFFFFFFF ?k2" using reaches.link [OF 1 al3(2)] by (simp add: n)
  show ?thesis using reaches.link [OF 2 al3(3)] by (simp add: n three_tasks_def)
qed

theorem task_list_invariant_witness:
  "task_current three_tasks \<in> {0x1000, 0x2000, 0x3000} \<and> task_tail (task_list_remove 0x2000 three_tasks) = 0x3000 \<and>
   seg (mem (task_list_remove 0x2000 three_tasks)) 0xFFFFFFFF [0x1000, 0x3000] 0xFFFFFFFF"
proof -
  have "reaches 0xFFFFFFFF ([0x1000] @ [0x3000]) 0xFFFFFFFF (task_list_remove 0x2000 three_tasks)"
    by (rule reaches.remove) (simp_all add: three_tasks_reached)
  from task_list_invariant [OF three_tasks_reached] task_list_invariant [OF this] show ?thesis by simp
qed

section \<open>Making and interrupting a task\<close>

text \<open>C18. \<open>task_new\<close> makes a task that starts at the entry point of its process, in user segments, with
  the user stack, in a fresh address space that maps every page to itself for user code. It joins the
  end of the list exactly if the first words that the heap block held at the offsets of \<open>next\<close> (and of
  \<open>prev\<close>, for the first task) happened to be zero: \<open>sizeof(task)\<close> clears only the first four bytes.\<close>

theorem task_new_correct:
  fixes k :: "'a task_machine_scheme"
  assumes "kwf k" "1027 \<le> kroom k" "\<forall>a \<in> start_bytes (mem k) proc. kept k a"
    and "reaches 0 ts 0 k" "\<forall>u \<in> set ts. klive k u = Some 1"
  shows "\<exists>t k'. task_new proc k = Some (t, k') \<and> t \<noteq> 0 \<and> t \<notin> set ts \<and>
    (\<forall>v. page_al v \<longrightarrow> paging_get (mem k') (directory_entry (mem k') (task_page_directory (mem k') t)) v = v OR 5) \<and>
    load32 (mem k') (task_registers t + 28) = start_address (mem k) proc \<and>
    load32 (mem k') (task_registers t + 32) = 0x1B \<and> load32 (mem k') (task_registers t + 44) = 0x23 \<and>
    reg_esp (mem k') (task_registers t) = 0x3FF000 \<and> task_process (mem k') t = proc \<and>
    task_next (mem k') t = task_next (mem k) t \<and>
    (task_list (ts @ [t]) k' \<longleftrightarrow> task_next (mem k) t = 0 \<and> (ts = [] \<longrightarrow> task_prev (mem k) t = 0))"
proof -
  have ts: "task_list ts k" using assms(4) by (rule reaches_list)
  have "task_head k = 0 \<or> klive k (task_tail k) = Some 1"
    using ts assms(5) by (cases "ts = []") (auto simp: task_list_def)
  moreover have "\<And>a. a \<in> start_bytes (mem k) proc \<Longrightarrow> kept k a" using assms(3) by blast
  ultimately obtain t k' where "task_new proc k = Some (t, k')" "klive k t = None"
    and t: "t \<noteq> 0 \<and>
    (\<forall>v. page_al v \<longrightarrow> paging_get (mem k') (directory_entry (mem k') (task_page_directory (mem k') t)) v = v OR 5) \<and>
    load32 (mem k') (task_registers t + 28) = start_address (mem k) proc \<and>
    load32 (mem k') (task_registers t + 32) = 0x1B \<and> load32 (mem k') (task_registers t + 44) = 0x23 \<and>
    reg_esp (mem k') (task_registers t) = 0x3FF000 \<and> task_process (mem k') t = proc \<and>
    task_next (mem k') t = task_next (mem k) t \<and>
    (task_list ts k \<and> (\<forall>u \<in> set ts. klive k u = Some 1) \<longrightarrow>
       (task_list (ts @ [t]) k' \<longleftrightarrow> task_next (mem k) t = 0 \<and> (ts = [] \<longrightarrow> task_prev (mem k) t = 0)))"
    using task_new_ok [OF assms(1,2), of proc ts] by blast
  moreover have "t \<notin> set ts" using assms(5) \<open>klive k t = None\<close> by auto
  ultimately show ?thesis using ts assms(5) by blast
qed

text \<open>The first process of a machine whose memory is not blank: the successor of the new task is what
  the memory held.\<close>

lemma sample_start: "\<forall>a \<in> start_bytes (mem (sample_machine (\<lambda>_. 255))) 0x8000. kept (sample_machine (\<lambda>_. 255)) a"
proof -
  have e: "elf_header (\<lambda>_. 255) a = 4294967295" "proc_elf_file (\<lambda>_. 255) a = 4294967295" for a
    by (simp_all add: elf_header_def elf_memory_def proc_elf_file_def load32_def)
  have small: "unat (a + of_nat j) < 16777216" if "unat a < 65536" "j < 4" for a :: u32 and j
  proof -
    have "unat (of_nat j :: u32) = j" using that(2) by (intro unat_of_nat_u32) simp
    with that have "unat (a + of_nat j) = unat a + j" by (intro unat_add_small [THEN trans]) simp_all
    with that show ?thesis by simp
  qed
  have "unat a < 16777216" if "a \<in> start_bytes (\<lambda>_. 255) 0x8000" for a
    using that small [of 41076] small [of 4294967407] small [of 4294967319] by (auto simp: start_bytes_def e)
  then show ?thesis using booted_kept by (simp add: sample_machine_def kept_def kgeom_def klive_def)
qed

lemma sample_machine_fresh: "kwf (sample_machine m)" "kroom (sample_machine m) = 25600" "reaches 0 [] 0 (sample_machine m)"
  using booted_machine by (auto simp: kwf_def kroom_def sample_machine_def intro: reaches.boot)

lemma task_new_correct_witness:
  "\<exists>t k'. task_new 0x8000 (sample_machine (\<lambda>_. 255)) = Some (t, k') \<and> task_next (mem k') t = 0xFFFFFFFF \<and> \<not> task_list [t] k'"
proof -
  let ?k = "sample_machine (\<lambda>_. 255)"
  have "1027 \<le> kroom ?k" "\<forall>u \<in> set []. klive ?k u = Some 1" by (simp_all add: sample_machine_fresh)
  from task_new_correct [OF sample_machine_fresh(1) this(1) sample_start sample_machine_fresh(3) this(2)] obtain t k'
    where t: "task_new 0x8000 ?k = Some (t, k')" "task_next (mem k') t = task_next (mem ?k) t"
      "task_list ([] @ [t]) k' \<longleftrightarrow> task_next (mem ?k) t = 0 \<and> ([] = [] \<longrightarrow> task_prev (mem ?k) t = 0)" by metis
  moreover have "task_next (mem ?k) t = 0xFFFFFFFF" by (simp add: sample_machine_def task_next_def load32_def)
  ultimately show ?thesis by simp
qed

text \<open>Saving the registers is a sequence of copies from the frame to entries of the block.\<close>

definition copy_entry :: "u32 \<Rightarrow> u32 \<Rightarrow> mem \<Rightarrow> nat \<times> nat \<Rightarrow> mem" where
  "copy_entry t frame m = (\<lambda>(i, off). store32 m (t + 4 * of_nat i) (load32 m (frame + of_nat off)))"

lemma save_as_copies:
  "task_save_state t frame m = foldl (copy_entry t frame) m
     [(8, 32), (9, 36), (10, 40), (11, 44), (12, 48), (7, 28), (3, 8), (4, 16), (6, 24), (1, 0), (5, 20), (2, 4)]"
  by (simp add: task_save_state_def task_registers_def copy_entry_def Let_def add.assoc)

lemma copies:
  assumes "page_al t" "\<forall>j < 52. \<not> in_range (frame + of_nat j) t 4096"
  shows "\<forall>(i, off) \<in> set xs. i < 1024 \<and> off + 4 \<le> 52 \<Longrightarrow> distinct (map fst xs) \<Longrightarrow>
    (\<forall>(i, off) \<in> set xs. load32 (foldl (copy_entry t frame) m xs) (t + 4 * of_nat i) = load32 m (frame + of_nat off)) \<and>
    (\<forall>j < 1024. j \<notin> fst ` set xs \<longrightarrow> load32 (foldl (copy_entry t frame) m xs) (t + 4 * of_nat j) = load32 m (t + 4 * of_nat j)) \<and>
    (\<forall>a. \<not> in_range a t 4096 \<longrightarrow> foldl (copy_entry t frame) m xs a = m a)"
proof (induction xs arbitrary: m)
  case (Cons x xs)
  obtain i off where x: "x = (i, off)" by (cases x)
  let ?m = "copy_entry t frame m x"
  have i: "i < 1024" "off + 4 \<le> 52" using Cons.prems(1) x by auto
  have f: "?m a = m a" if "\<not> in_range a t 4096" for a
    using store_entry_frame [OF assms(1) i(1) that] x by (simp add: copy_entry_def)
  have fr: "load32 ?m (frame + of_nat o') = load32 m (frame + of_nat o')" if "o' + 4 \<le> 52" for o'
  proof -
    have "?m (frame + of_nat (o' + n)) = m (frame + of_nat (o' + n))" if "n < 4" for n
    proof (rule f)
      have "o' + n < 52" using \<open>o' + 4 \<le> 52\<close> that by linarith
      with assms(2) show "\<not> in_range (frame + of_nat (o' + n)) t 4096" by blast
    qed
    from this [of 0] this [of 1] this [of 2] this [of 3] show ?thesis
      by (intro load32_cong) (simp_all add: ac_simps)
  qed
  have o: "load32 ?m (t + 4 * of_nat j) = (if j = i then load32 m (frame + of_nat off) else load32 m (t + 4 * of_nat j))"
    if "j < 1024" for j
    using store_entry_other [OF assms(1) assms(1) i(1) that, of m] x by (auto simp: copy_entry_def)
  have i': "i \<notin> fst ` set xs" using Cons.prems(2) x by simp
  from Cons.prems have p: "\<forall>(i, off) \<in> set xs. i < 1024 \<and> off + 4 \<le> 52" "distinct (map fst xs)" by auto
  note IH = Cons.IH [OF p, of ?m]
  have "load32 (foldl (copy_entry t frame) ?m xs) (t + 4 * of_nat i) = load32 m (frame + of_nat off)"
    using IH i' i(1) o [OF i(1)] by simp
  moreover have "load32 (foldl (copy_entry t frame) ?m xs) (t + 4 * of_nat a) = load32 m (frame + of_nat b)" if "(a, b) \<in> set xs" for a b
  proof -
    have "load32 (foldl (copy_entry t frame) ?m xs) (t + 4 * of_nat a) = load32 ?m (frame + of_nat b)" using IH that by auto
    with fr [of b] that p(1) show ?thesis by auto
  qed
  ultimately show ?case using IH f o x by auto
qed simp

lemma save_state_facts:
  assumes "page_al t" "\<forall>j < 52. \<not> in_range (frame + of_nat j) t 4096"
  shows "(\<forall>i < 12. load32 (task_save_state t frame m) (task_registers t + 4 * of_nat i) =
      load32 m (frame + of_nat ([0, 4, 8, 16, 20, 24, 28, 32, 36, 40, 44, 48] ! i))) \<and>
    task_page_directory (task_save_state t frame m) t = task_page_directory m t \<and>
    task_process (task_save_state t frame m) t = task_process m t \<and>
    task_next (task_save_state t frame m) t = task_next m t \<and> task_prev (task_save_state t frame m) t = task_prev m t \<and>
    (\<forall>a. \<not> in_range a t 4096 \<longrightarrow> task_save_state t frame m a = m a)"
proof -
  let ?xs = "[(8, 32), (9, 36), (10, 40), (11, 44), (12, 48), (7, 28), (3, 8), (4, 16), (6, 24), (1, 0), (5, 20), (2, 4)] :: (nat \<times> nat) list"
  and ?o = "[0, 4, 8, 16, 20, 24, 28, 32, 36, 40, 44, 48] :: nat list"
  have "\<forall>(i, off) \<in> set ?xs. i < 1024 \<and> off + 4 \<le> 52" "distinct (map fst ?xs)" by simp_all
  note c = copies [OF assms this, of m, folded save_as_copies]
  have "\<forall>i \<in> set [0..<12]. (Suc i, ?o ! i) \<in> set ?xs" by code_simp
  then have r: "load32 (task_save_state t frame m) (task_registers t + 4 * of_nat i) = load32 m (frame + of_nat (?o ! i))" if "i < 12" for i
    using conjunct1 [OF c] that by (fastforce simp: task_registers_def add.assoc)
  have "load32 (task_save_state t frame m) (t + 4 * of_nat j) = load32 m (t + 4 * of_nat j)" if "j \<in> {0, 13, 14, 15}" for j
  proof -
    have "j < 1024" "j \<notin> fst ` set ?xs" using that by auto
    with c show ?thesis by blast
  qed
  from this [of 0] this [of 13] this [of 14] this [of 15] r c show ?thesis
    by (simp add: task_page_directory_def task_process_def task_next_def task_prev_def)
qed

text \<open>When a task is interrupted its twelve registers are filled from the frame the processor and
  the handler pushed, each from its own slot; the directory, the process and the links of the task and
  all memory outside its block stay as they are.\<close>

theorem task_save_state_correct:
  assumes "page_al t" "\<forall>j < 52. \<not> in_range (frame + of_nat j) t 4096"
  shows "(\<forall>i < 12. load32 (task_save_state t frame m) (task_registers t + 4 * of_nat i) =
      load32 m (frame + of_nat ([0, 4, 8, 16, 20, 24, 28, 32, 36, 40, 44, 48] ! i))) \<and>
    task_page_directory (task_save_state t frame m) t = task_page_directory m t \<and>
    task_process (task_save_state t frame m) t = task_process m t \<and>
    task_next (task_save_state t frame m) t = task_next m t \<and> task_prev (task_save_state t frame m) t = task_prev m t \<and>
    (\<forall>a. \<not> in_range a t 4096 \<longrightarrow> task_save_state t frame m a = m a)"
  using assms by (rule save_state_facts)

lemma task_save_state_correct_witness:
  "load32 (task_save_state 0x1000 0x9000 (store32 (\<lambda>_. 0) 0x901C 0x2A)) (task_registers 0x1000 + 4 * of_nat 6) = 0x2A"
proof -
  have "\<not> in_range (0x9000 + of_nat j) 0x1000 4096" if "j < 52" for j
  proof -
    have "unat (0x9000 + of_nat j :: u32) = 0x9000 + j"
      using unat_of_nat_u32 [of j] that by (intro unat_add_small [THEN trans]) simp_all
    then show ?thesis by (simp add: in_range_def)
  qed
  then have "\<forall>j < 52. \<not> in_range (0x9000 + of_nat j) 0x1000 4096" by blast
  then have "\<forall>i < 12. load32 (task_save_state 0x1000 0x9000 (store32 (\<lambda>_. 0) 0x901C 0x2A)) (task_registers 0x1000 + 4 * of_nat i) =
      load32 (store32 (\<lambda>_. 0) 0x901C 0x2A) (0x9000 + of_nat ([0, 4, 8, 16, 20, 24, 28, 32, 36, 40, 44, 48] ! i))"
    using task_save_state_correct [where t = "0x1000" and frame = "0x9000" and m = "store32 (\<lambda>_. 0) 0x901C 0x2A"] by (simp add: page_al_def)
  from this [rule_format, of 6] show ?thesis by simp
qed

end
