(* ===== verification/Dispatch.thy ===== *)
theory Dispatch
  imports Idt Tasklist
begin

text \<open>
  How interrupts reach their handlers: the gates \<open>idt_init\<close> of \<^verbatim>\<open>src/idt/idt.c\<close> installs, as the processor
  reads them, the table of system calls, and the way of a key press from the scan code to the buffer of
  the current process.
\<close>

section \<open>Gates\<close>

text \<open>The address a gate leads to.\<close>

definition gate_target :: "idt_desc \<Rightarrow> u32" where
  "gate_target d = push_bit 16 (ucast (offset_2 d)) OR ucast (offset_1 d)"

definition gate_for :: "u32 \<Rightarrow> idt_desc" where
  "gate_for addr = \<lparr>offset_1 = ucast (addr AND 0x0000ffff), selector = 0x08, zero_byte = 0, type_attr = 0xEE,
     offset_2 = ucast (drop_bit 16 addr)\<rparr>"

lemma gate_target_for: "gate_target (gate_for addr) = addr"
proof -
  have e: "addr AND 0x0000ffff = take_bit 16 addr" by (simp add: take_bit_eq_mask mask_eq_exp_minus_1)
  have "push_bit 16 (ucast (ucast (drop_bit 16 addr) :: u16)) OR ucast (ucast (take_bit 16 addr) :: u16) = addr"
    (is "?w = _")
  proof (rule bit_word_eqI)
    show "bit ?w n = bit addr n" if "n < LENGTH(32)" for n
      using that by (cases "n < 16") (auto simp: bit_simps)
  qed
  then show ?thesis unfolding gate_target_def gate_for_def idt_desc.select_convs e .
qed

lemma idt_set_gate: "idt_set n addr k = k\<lparr>idt_descriptors := (idt_descriptors k)[n := gate_for addr]\<rparr>"
  by (simp add: idt_set_def gate_for_def)

lemma gates_filled:
  "n \<le> length (idt_descriptors k) \<Longrightarrow>
   fold (\<lambda>i k. idt_set i (interrupt_pointer_table k ! i) k) [0..<n] k =
     k\<lparr>idt_descriptors := map (\<lambda>i. gate_for (interrupt_pointer_table k ! i)) [0..<n] @ drop n (idt_descriptors k)\<rparr>"
proof (induction n)
  case (Suc n)
  have d: "drop n (idt_descriptors k) = (idt_descriptors k ! n) # drop (Suc n) (idt_descriptors k)"
    using Suc.prems by (intro Cons_nth_drop_Suc [symmetric]) simp
  show ?case
    using Suc by (simp add: idt_set_gate list_update_append d)
qed simp

lemma idt_init_eq:
  assumes "length (idt_descriptors k) = 512"
  shows "idt_init k = k\<lparr>idt_descriptors := (map (\<lambda>i. gate_for (interrupt_pointer_table k ! i)) [0..<512])
      [0 := gate_for (addr_idt_zero k), 0x80 := gate_for (addr_isr80h_wrapper k)],
    idtr_limit := 8 * 512 - 1, idtr_base := addr_idt_descriptors k, idt_loaded := True\<rparr>"
proof -
  let ?d = "(idt_descriptors k)[0 := (idt_descriptors k ! 0)\<lparr>offset_1 := 0, selector := 0\<rparr>]"
  let ?k = "k\<lparr>idt_descriptors := ?d, idtr_limit := 8 * 512 - 1, idtr_base := addr_idt_descriptors k\<rparr>"
  have f: "fold (\<lambda>i k. idt_set i (interrupt_pointer_table k ! i) k) [0..<512] ?k =
      ?k\<lparr>idt_descriptors := map (\<lambda>i. gate_for (interrupt_pointer_table k ! i)) [0..<512]\<rparr>"
    using gates_filled [of 512 ?k] assms by (simp del: upt_conv_Cons)
  let ?F = "fold (\<lambda>i k. idt_set i (interrupt_pointer_table k ! i) k) [0..<512] ?k"
  have "idt_init k = (idt_set 0x80 (addr_isr80h_wrapper (idt_set 0 (addr_idt_zero ?F) ?F))
      (idt_set 0 (addr_idt_zero ?F) ?F))\<lparr>idt_loaded := True\<rparr>"
    by (simp add: idt_init_def Let_def)
  then show ?thesis unfolding f by (simp add: idt_set_gate Let_def)
qed

text \<open>C36. After \<open>idt_init\<close> the processor takes interrupt \<open>i\<close> to entry \<open>i\<close> of the table of stubs, except a
  division by zero and the system call at \<open>0x80\<close>, which have their own entry points; every gate selects
  the kernel's code segment and can be called from user code, the limit covers exactly the 512 gates, and
  the table register is loaded.\<close>

theorem idt_init_correct:
  assumes "length (idt_descriptors k) = 512"
  shows "(\<forall>i < 512. gate_target (idt_descriptors (idt_init k) ! i) =
        (if i = 0 then addr_idt_zero k else if i = 0x80 then addr_isr80h_wrapper k else interrupt_pointer_table k ! i) \<and>
      selector (idt_descriptors (idt_init k) ! i) = 0x08 \<and> type_attr (idt_descriptors (idt_init k) ! i) = 0xEE) \<and>
    length (idt_descriptors (idt_init k)) = 512 \<and> unat (idtr_limit (idt_init k)) + 1 = 8 * 512 \<and>
    idtr_base (idt_init k) = addr_idt_descriptors k \<and> idt_loaded (idt_init k)"
  using idt_init_eq [OF assms] gate_target_for assms by (auto simp: nth_list_update gate_for_def)

text \<open>A machine before the tables are set up, on top of the sample machine.\<close>

definition sample_idt :: "mem \<Rightarrow> idt_machine" where
  "sample_idt m = \<lparr>video_mem = (\<lambda>_. 0), terminal_row = 0, terminal_col = 0,
     kernel_heap = kernel_heap (kheap_init machine4), mem = m, current_directory = 0, cr3 = 0, cr0 = 0,
     io_log = [], dev_b = (\<lambda>_ _. 8), dev_w = (\<lambda>_ _. 0), addr_disk = 0x8000, addr_fat16_fs = 0x8100,
     local_addr = (\<lambda>_. 0x1FF000), filesystems = replicate 12 0, file_descriptors = replicate 512 0,
     current_task = 0, task_tail = 0, task_head = 0, kernel_4gb_chunk = 0, data_segments = 0x10,
     returned_to = None, mmu = (\<lambda>_ _ a. a), current_process = 0, processes = replicate 16 0, lit_r = 0,
     idt_descriptors = replicate 512 \<lparr>offset_1 = 0, selector = 0, zero_byte = 0, type_attr = 0, offset_2 = 0\<rparr>,
     idtr_limit = 0, idtr_base = 0, idt_loaded = False, interrupt_callbacks = replicate 512 No_callback,
     isr80h_commands = replicate 1024 No_command, interrupt_pointer_table = map of_nat [0..<512],
     addr_idt_descriptors = 0xA000, addr_idt_zero = 0x104000, addr_isr80h_wrapper = 0x104567,
     keyboard_list_head = 0, keyboard_list_last = 0, addr_classic_keyboard = 0xB000\<rparr>"

lemma idt_init_correct_witness:
  "gate_target (idt_descriptors (idt_init (sample_idt (\<lambda>_. 0))) ! 0x80) = 0x104567"
proof -
  have "length (idt_descriptors (sample_idt (\<lambda>_. 0))) = 512" by (simp add: sample_idt_def)
  from conjunct1 [OF idt_init_correct [OF this], rule_format, of "0x80"] show ?thesis by (simp add: sample_idt_def)
qed

section \<open>System calls\<close>

definition system_calls :: "isr80h_command list" where
  "system_calls = [Command0_sum, Command1_print, Command2_getkey, Command3_putchar, Command4_malloc, Command5_free,
     Command6_process_load_start, Command7_invoke_system_command, Command8_get_program_arguments]"

text \<open>Registering at the end of those registered so far.\<close>

definition with_commands :: "isr80h_command list \<Rightarrow> 'a idt_machine_scheme \<Rightarrow> 'a idt_machine_scheme" where
  "with_commands cs k = k\<lparr>isr80h_commands := cs @ replicate (1024 - length cs) No_command\<rparr>"

lemma register_next:
  assumes "length cs < 1024" "n = int (length cs)"
  shows "isr80h_register_command n c (with_commands cs k) = Some (with_commands (cs @ [c]) k)"
proof -
  have "replicate (1024 - length cs) No_command = No_command # replicate (1024 - length (cs @ [c])) No_command"
    using assms(1) by (simp add: Suc_diff_Suc [symmetric] del: replicate_Suc) (simp add: replicate_Suc)
  with assms show ?thesis by (simp add: isr80h_register_command_def with_commands_def)
qed

lemma register_all:
  "isr80h_register_commands (with_commands [] k) = Some (with_commands system_calls k)"
  by (simp add: isr80h_register_commands_def register_next system_calls_def)

text \<open>C35. From an empty table the kernel registers its nine system calls under the numbers 0 to 8, and
  doing it twice panics. After that a call of one of these numbers runs the command of that number; any
  other number, negative or beyond the table, gives 0 and changes nothing.\<close>

theorem isr80h_dispatch:
  fixes k :: "'a idt_machine_scheme"
  assumes "isr80h_commands k = replicate 1024 No_command"
  shows "\<exists>k'. isr80h_register_commands k = Some k' \<and> k' = k\<lparr>isr80h_commands := isr80h_commands k'\<rparr> \<and>
    isr80h_register_commands k' = None \<and>
    (\<forall>command frame (k2 :: 'a idt_machine_scheme). isr80h_commands k2 = isr80h_commands k' \<longrightarrow>
       isr80h_handle_command command frame k2 =
         (if 0 \<le> command \<and> command < 9 then call_command (system_calls ! nat command) frame k2 else Some (Some 0, k2)))"
proof -
  have k: "with_commands [] k = k" using assms by (simp add: with_commands_def)
  have r: "isr80h_register_commands k = Some (with_commands system_calls k)" using register_all [of k] by (simp add: k)
  have c: "isr80h_commands (with_commands system_calls k) = system_calls @ replicate 1015 No_command"
    by (simp add: with_commands_def system_calls_def)
  have n: "system_calls ! i \<noteq> No_command" if "i < 9" for i
    using that by (auto simp: system_calls_def nth_Cons' less_Suc_eq numeral_eq_Suc)
  have "isr80h_register_commands (with_commands system_calls k) = None"
    unfolding isr80h_register_commands_def isr80h_register_command_def c
    by (simp add: system_calls_def panic_def Let_def)
  moreover have "isr80h_handle_command command frame k2 =
      (if 0 \<le> command \<and> command < 9 then call_command (system_calls ! nat command) frame k2 else Some (Some 0, k2))"
    if e: "isr80h_commands k2 = isr80h_commands (with_commands system_calls k)" for command frame and k2 :: "'a idt_machine_scheme"
  proof -
    have l: "length system_calls = 9" by (simp add: system_calls_def)
    have "isr80h_commands k2 ! nat command = (if command < 9 then system_calls ! nat command else No_command)"
      if "0 \<le> command" "command < 1024"
      using that unfolding e c by (auto simp: nth_append l)
    with n [of "nat command"] show ?thesis by (auto simp: isr80h_handle_command_def)
  qed
  moreover have "with_commands system_calls k = k\<lparr>isr80h_commands := isr80h_commands (with_commands system_calls k)\<rparr>"
    by (simp add: with_commands_def)
  ultimately show ?thesis using r by blast
qed

lemma isr80h_dispatch_witness:
  "\<exists>k'. isr80h_register_commands (sample_idt (\<lambda>_. 0)) = Some k' \<and> isr80h_handle_command 9 0x9000 k' = Some (Some 0, k')"
proof -
  have "isr80h_commands (sample_idt (\<lambda>_. 0)) = replicate 1024 No_command" by (simp add: sample_idt_def)
  from isr80h_dispatch [OF this] obtain k' where k': "isr80h_register_commands (sample_idt (\<lambda>_. 0)) = Some k'"
    "\<forall>command frame (k2 :: idt_machine). isr80h_commands k2 = isr80h_commands k' \<longrightarrow> isr80h_handle_command command frame k2 =
      (if 0 \<le> command \<and> command < 9 then call_command (system_calls ! nat command) frame k2 else Some (Some 0, k2))" by blast
  from k'(2) [rule_format, of k' 9 "0x9000"] k'(1) show ?thesis by simp
qed

section \<open>A key press\<close>

text \<open>What the scan code table makes of a code: nothing for a released key or one that types nothing,
  \<open>None\<close> for the one code that is read from past the end of the table.\<close>

definition typed_char :: "u8 \<Rightarrow> u8 option" where
  "typed_char s = (if s AND 0x80 \<noteq> 0 then Some 0 else classic_keyboard_scancode_to_char s)"

lemma kb_ring_cong:
  assumes "\<And>a. unat (a - p) < 12432 \<Longrightarrow> m' a = m a"
  shows "kb_ring m' p q = kb_ring m p q"
proof -
  have "load32 m' (p + of_nat off) = load32 m (p + of_nat off)" if "off + 4 \<le> 12432" for off
  proof (rule load32_eqI)
    fix j :: nat
    assume "j < 4"
    with that have "off + j < 12432" by linarith
    then have "unat (p + of_nat off + of_nat j - p) < 12432"
      using unat_of_nat_u32 [of "off + j"] by (simp add: add.assoc)
    then show "m' (p + of_nat off + of_nat j) = m (p + of_nat off + of_nat j)" by (rule assms)
  qed
  from this [of 12416] this [of 12420] have "kb_tail m' p = kb_tail m p" "kb_head m' p = kb_head m p"
    by (simp_all add: kb_tail_def kb_head_def)
  moreover have "m' (kb_slot p x) = m (kb_slot p x)" for x
    using mod_less_divisor [of 4096 "unat x"] by (intro assms) (simp add: kb_slot_offset)
  ultimately show ?thesis by (simp add: kb_ring_def)
qed

lemma kb_holds_cong:
  "mem k' = mem k \<Longrightarrow> current_process k' = current_process k \<Longrightarrow> current_task k' = current_task k \<Longrightarrow> kb_holds q k' = kb_holds q k"
  by (simp add: kb_holds_def process_current_def task_current_def)

lemma kb_holds_save:
  assumes "kb_holds q k" "page_al (current_task k)" "\<forall>j < 52. \<not> in_range (frame + of_nat j) (current_task k) 4096"
    and "\<forall>a. unat (a - current_process k) < 12432 \<longrightarrow> \<not> in_range a (current_task k) 4096"
  shows "kb_holds q (k\<lparr>mem := task_save_state (current_task k) frame (mem k)\<rparr>)"
proof -
  note f = save_state_facts [OF assms(2,3), of "mem k"]
  have "kb_ring (task_save_state (current_task k) frame (mem k)) (current_process k) q = kb_ring (mem k) (current_process k) q"
    using f assms(4) by (intro kb_ring_cong) blast
  with assms(1) f show ?thesis by (simp add: kb_holds_def Let_def process_current_def task_current_def)
qed

lemma keyboard_handler_eq:
  "classic_keyboard_handle_interupt k =
     (let k = kernel_page k; s = dev_b k (io_log k) 0x60; k = k\<lparr>io_log := io_log k @ [Insb 0x60]\<rparr> in
      if s AND 0x80 \<noteq> 0 then Some k
      else case classic_keyboard_scancode_to_char s of None \<Rightarrow> None
        | Some c \<Rightarrow> Some (snd (task_page (keyboard_push c k))))"
  by (auto simp: classic_keyboard_handle_interupt_def insb_def Let_def keyboard_push_def split: Option.bind_splits option.splits)

lemma paging_frames [frame_simps]:
  "mem (kernel_page k) = mem k" "current_process (kernel_page k) = current_process k" "current_task (kernel_page k) = current_task k"
  "io_log (kernel_page k) = io_log k" "dev_b (kernel_page k) = dev_b k" "interrupt_callbacks (kernel_page k1) = interrupt_callbacks k1"
  "mem (snd (task_page k)) = mem k" "current_process (snd (task_page k)) = current_process k"
  "current_task (snd (task_page k)) = current_task k" "io_log (snd (task_page k)) = io_log k"
  by (simp_all add: kernel_page_def kernel_registers_def task_page_def user_registers_def task_switch_def paging_switch_def
      paging_load_directory_def Let_def)

lemma push_log [frame_simps]: "io_log (keyboard_push c k) = io_log k"
  by (simp add: keyboard_push_def Let_def)

lemma scan_table_length: "length keyboard_scan_set_one = 82"
  by (simp add: keyboard_scan_set_one_def chars_def)

lemma scancode_None: "classic_keyboard_scancode_to_char s = None \<longleftrightarrow> s = 82"
proof -
  have "unat s = 82 \<longleftrightarrow> s = 82" by (simp add: word_unat_eq_iff)
  then show ?thesis by (auto simp: classic_keyboard_scancode_to_char_def Let_def scan_table_length)
qed

lemma key_pushed:
  assumes "kb_holds q k" "length q < 4096"
  shows "kb_holds (if c = 0 then q else q @ [c]) (keyboard_push c k)"
  using assms keyboard_push_holds [OF assms(1) _ assms(2), of c] by (simp add: keyboard_push_def)

text \<open>Back in the task after the handler.\<close>

lemma back_in_task:
  assumes "kb_holds q k"
  shows "kb_holds q (outb port v (snd (task_page k))) \<and> io_log (outb port v (snd (task_page k))) = io_log k @ [Outb port v] \<and>
    cr3 (outb port v (snd (task_page k))) = directory_entry (mem k) (task_page_directory (mem k) (current_task k)) \<and>
    mem (outb port v (snd (task_page k))) = mem k \<and> current_task (outb port v (snd (task_page k))) = current_task k"
proof -
  have "kb_holds q (outb port v (snd (task_page k)))" using assms by (subst kb_holds_cong) (simp_all add: outb_def frame_simps)
  then show ?thesis by (simp add: outb_def frame_simps)
    (simp add: task_page_def user_registers_def task_switch_def paging_switch_def paging_load_directory_def Let_def)
qed

text \<open>C15. A key that is pressed reaches the program. The interrupt of the keyboard saves the interrupted
  task, appends the character of the scan code to what waits in the buffer of its process, acknowledges
  the interrupt and goes back to the task's address space; releasing a key, or pressing one that types
  nothing, adds nothing. But scan code 82, the insert key, is looked up behind the table.\<close>

theorem key_press:
  fixes k :: "'a idt_machine_scheme"
  assumes "kb_holds q k" "length q < 4096" "interrupt_callbacks k ! 0x21 = Classic_keyboard_handle_interupt"
    and "page_al (current_task k)" "\<forall>j < 52. \<not> in_range (frame + of_nat j) (current_task k) 4096"
    and "\<forall>a. unat (a - current_process k) < 12432 \<longrightarrow> \<not> in_range a (current_task k) 4096"
  shows "case typed_char (dev_b k (io_log k) 0x60) of
      None \<Rightarrow> dev_b k (io_log k) 0x60 = 82 \<and> interrupt_handler 0x21 frame k = None
    | Some c \<Rightarrow> \<exists>k'. interrupt_handler 0x21 frame k = Some k' \<and> kb_holds (if c = 0 then q else q @ [c]) k' \<and>
        io_log k' = io_log k @ [Insb 0x60, Outb 0x20 0x20] \<and>
        cr3 k' = directory_entry (mem k') (task_page_directory (mem k') (current_task k'))"
proof -
  let ?k0 = "kernel_page k" and ?s = "dev_b k (io_log k) 0x60"
  have "kb_holds q ?k0" using assms(1) by (subst kb_holds_cong) (simp_all add: frame_simps)
  then have "kb_holds q (?k0\<lparr>mem := task_save_state (current_task ?k0) frame (mem ?k0)\<rparr>)" (is "kb_holds q ?k1")
    using assms(4-6) by (intro kb_holds_save) (simp_all add: frame_simps)
  let ?k2 = "(kernel_page ?k1)\<lparr>io_log := io_log k @ [Insb 0x60]\<rparr>"
  have log: "dev_b (kernel_page ?k1) = dev_b k" "io_log (kernel_page ?k1) = io_log k"
    by (simp_all add: frame_simps)
  have k2: "kb_holds q ?k2" using \<open>kb_holds q ?k1\<close> by (subst kb_holds_cong) (simp_all add: frame_simps)
  have ct: "current_task k \<noteq> 0" using assms(1) by (simp add: kb_holds_def Let_def task_current_def)
  have "interrupt_handler 0x21 frame k = do {
      k \<leftarrow> classic_keyboard_handle_interupt ?k1; Some (outb 0x20 0x20 (snd (task_page k))) }"
    using assms(3) ct by (simp add: interrupt_handler_def Let_def frame_simps task_current_save_state_def call_callback_def
        case_prod_unfold)
  then have h: "interrupt_handler 0x21 frame k =
      (if ?s AND 0x80 \<noteq> 0 then Some (outb 0x20 0x20 (snd (task_page ?k2)))
       else case classic_keyboard_scancode_to_char ?s of None \<Rightarrow> None
         | Some c \<Rightarrow> Some (outb 0x20 0x20 (snd (task_page (snd (task_page (keyboard_push c ?k2)))))))"
    unfolding keyboard_handler_eq Let_def log by (auto split: option.splits)
  show ?thesis
  proof (cases "?s AND 0x80 \<noteq> 0")
    case True
    then show ?thesis using h back_in_task [OF k2, of "0x20" "0x20"] by (simp add: typed_char_def)
  next
    case False
    then show ?thesis
    proof (cases "classic_keyboard_scancode_to_char ?s")
      case None
      then have "?s = 82" by (simp add: scancode_None)
      with None False h show ?thesis by (simp add: typed_char_def)
    next
      case (Some c)
      let ?k3 = "snd (task_page (keyboard_push c ?k2))"
      have "kb_holds (if c = 0 then q else q @ [c]) ?k3"
        using key_pushed [OF k2 assms(2), of c] by (subst kb_holds_cong) (simp_all add: frame_simps)
      note b = back_in_task [OF this, of "0x20" "0x20"]
      have "io_log ?k3 = io_log k @ [Insb 0x60]" by (simp add: frame_simps)
      with b Some False h show ?thesis by (simp add: typed_char_def)
    qed
  qed
qed

text \<open>The process and the task of the keyboard's example; every scan code read is 8, the key 7.\<close>

definition typing_idt :: idt_machine where
  "typing_idt = (sample_idt (store32 (\<lambda>_. 0) 0x9034 0x20000))\<lparr>current_process := 0x20000, current_task := 0x9000,
     interrupt_callbacks := (replicate 512 No_callback)[0x21 := Classic_keyboard_handle_interupt]\<rparr>"

lemma key_press_witness:
  "\<exists>k'. interrupt_handler 0x21 0x1FF000 typing_idt = Some k' \<and> kb_holds [55] k'"
proof -
  have h: "kb_holds [] typing_idt"
    using typing_machine_holds
    by (subst kb_holds_cong [of _ typing_machine]) (simp_all add: typing_idt_def sample_idt_def typing_machine_def sample_machine_def)
  have cb: "interrupt_callbacks typing_idt ! 0x21 = Classic_keyboard_handle_interupt" by (simp add: typing_idt_def)
  have al: "page_al (current_task typing_idt)" by (simp add: typing_idt_def page_al_def)
  have fr: "\<forall>j < 52. \<not> in_range (0x1FF000 + of_nat j) (current_task typing_idt) 4096"
  proof (intro allI impI)
    fix j :: nat
    assume "j < 52"
    then have "unat (0x1FF000 + of_nat j :: u32) = 0x1FF000 + j"
      using unat_of_nat_u32 [of j] by (intro unat_add_small [THEN trans]) simp_all
    then show "\<not> in_range (0x1FF000 + of_nat j) (current_task typing_idt) 4096" by (simp add: in_range_def typing_idt_def)
  qed
  have pr: "\<forall>a. unat (a - current_process typing_idt) < 12432 \<longrightarrow> \<not> in_range a (current_task typing_idt) 4096"
  proof (intro allI impI)
    fix a :: u32
    assume "unat (a - current_process typing_idt) < 12432"
    then have "in_range a 0x20000 12432" by (subst in_range_diff) (simp_all add: typing_idt_def)
    then show "\<not> in_range a (current_task typing_idt) 4096" by (simp add: in_range_def typing_idt_def)
  qed
  have "keyboard_scan_set_one ! 8 = 55" by (simp add: keyboard_scan_set_one_def chars_def)
  then have "typed_char (dev_b typing_idt (io_log typing_idt) 0x60) = Some 55"
    by (simp add: typed_char_def typing_idt_def sample_idt_def classic_keyboard_scancode_to_char_def scan_table_length)
  with key_press [OF h _ cb al fr pr] show ?thesis by (auto split: option.splits)
qed

end
