(* ===== verification/Elfscan.thy ===== *)
theory Elfscan
  imports Process
begin

text \<open>
  What \<^verbatim>\<open>elf_process_loaded\<close> of \<^verbatim>\<open>src/loader/formats/elfloader.c\<close> computes from a loaded ELF file: the
  verdict on its header and program headers, and the range of virtual and physical addresses its segments
  span.
\<close>

section \<open>The data it reads\<close>

definition phdr_at :: "mem \<Rightarrow> u32 \<Rightarrow> nat \<Rightarrow> u32" where
  "phdr_at m header i = elf_program_header m header (of_nat i)"

text \<open>The file structure is a heap block apart from the file; no segment starts at 0 or runs past the end
  of the address space.\<close>

definition loaded_elf :: "u32 \<Rightarrow> mem \<Rightarrow> bool" where
  "loaded_elf file m \<longleftrightarrow>
     (let header = elf_header m file; n = unat (e_phnum m header) in
      page_al file \<and> (\<forall>j < 52. \<not> in_range (header + of_nat j) file 4096) \<and>
      (\<forall>i < n. \<forall>j < 32. \<not> in_range (phdr_at m header i + of_nat j) file 4096) \<and>
      (\<forall>i < n. p_vaddr m (phdr_at m header i) \<noteq> 0 \<and>
         unat (p_vaddr m (phdr_at m header i)) + unat (p_filesz m (phdr_at m header i)) < 4294967296))"

text \<open>The bounds recorded in the file structure are those of the first \<open>n\<close> segments.\<close>

definition spans :: "u32 \<Rightarrow> mem \<Rightarrow> nat \<Rightarrow> mem \<Rightarrow> bool" where
  "spans file m n m' \<longleftrightarrow>
     (let header = elf_header m file; ph = phdr_at m header; v = (\<lambda>i. p_vaddr m (ph i));
          e = (\<lambda>i. p_vaddr m (ph i) + p_filesz m (ph i)); base = elf_memory m file in
      if n = 0 then elf_virtual_base m' file = 0 \<and> elf_virtual_end m' file = 0
      else (\<forall>i < n. elf_virtual_base m' file \<le> v i \<and> e i \<le> elf_virtual_end m' file) \<and>
        (\<exists>i < n. elf_virtual_base m' file = v i \<and> elf_phys_base m' file = base + p_offset m (ph i)) \<and>
        (\<exists>i < n. elf_virtual_end m' file = e i \<and> elf_phys_end m' file = base + p_offset m (ph i) + p_filesz m (ph i)))"

section \<open>One program header\<close>

lemma file_entries:
  assumes "page_al file"
  shows "elf_memory (store32 (store32 m (file + 116) a) (file + 124) b) file = elf_memory m file"
    "elf_virtual_base (store32 (store32 m (file + 116) a) (file + 124) b) file = a"
    "elf_phys_base (store32 (store32 m (file + 116) a) (file + 124) b) file = b"
    "elf_virtual_end (store32 (store32 m (file + 116) a) (file + 124) b) file = elf_virtual_end m file"
    "elf_phys_end (store32 (store32 m (file + 116) a) (file + 124) b) file = elf_phys_end m file"
    "elf_memory (store32 (store32 m (file + 120) a) (file + 128) b) file = elf_memory m file"
    "elf_virtual_end (store32 (store32 m (file + 120) a) (file + 128) b) file = a"
    "elf_phys_end (store32 (store32 m (file + 120) a) (file + 128) b) file = b"
    "elf_virtual_base (store32 (store32 m (file + 120) a) (file + 128) b) file = elf_virtual_base m file"
    "elf_phys_base (store32 (store32 m (file + 120) a) (file + 128) b) file = elf_phys_base m file"
proof -
  have o: "load32 (store32 m (file + 4 * of_nat i) x) (file + 4 * of_nat j) = load32 m (file + 4 * of_nat j)"
    if "i < 1024" "j < 1024" "i \<noteq> j" for m i j x
    using store_entry_other [OF assms assms that(1,2)] that(3) by blast
  note o' = o [of 29 28] o [of 31 28] o [of 31 29] o [of 29 30] o [of 31 30] o [of 29 32] o [of 31 32]
    o [of 30 28] o [of 32 28] o [of 32 30] o [of 30 29] o [of 32 29] o [of 30 31] o [of 32 31]
  show "elf_memory (store32 (store32 m (file + 116) a) (file + 124) b) file = elf_memory m file"
    "elf_virtual_base (store32 (store32 m (file + 116) a) (file + 124) b) file = a"
    "elf_phys_base (store32 (store32 m (file + 116) a) (file + 124) b) file = b"
    "elf_virtual_end (store32 (store32 m (file + 116) a) (file + 124) b) file = elf_virtual_end m file"
    "elf_phys_end (store32 (store32 m (file + 116) a) (file + 124) b) file = elf_phys_end m file"
    "elf_memory (store32 (store32 m (file + 120) a) (file + 128) b) file = elf_memory m file"
    "elf_virtual_end (store32 (store32 m (file + 120) a) (file + 128) b) file = a"
    "elf_phys_end (store32 (store32 m (file + 120) a) (file + 128) b) file = b"
    "elf_virtual_base (store32 (store32 m (file + 120) a) (file + 128) b) file = elf_virtual_base m file"
    "elf_phys_base (store32 (store32 m (file + 120) a) (file + 128) b) file = elf_phys_base m file"
    using o' by (simp_all add: elf_memory_def elf_virtual_base_def elf_virtual_end_def elf_phys_base_def elf_phys_end_def)
qed

lemma scanned_reads:
  assumes "loaded_elf file m" "\<forall>a. \<not> in_range a file 4096 \<longrightarrow> m' a = m a"
  defines "h \<equiv> elf_header m file"
  shows "e_phnum m' h = e_phnum m h" "phdr_at m' h n = phdr_at m h n"
    "n < unat (e_phnum m h) \<Longrightarrow> p_type m' (phdr_at m h n) = p_type m (phdr_at m h n)"
    "n < unat (e_phnum m h) \<Longrightarrow> p_vaddr m' (phdr_at m h n) = p_vaddr m (phdr_at m h n)"
    "n < unat (e_phnum m h) \<Longrightarrow> p_offset m' (phdr_at m h n) = p_offset m (phdr_at m h n)"
    "n < unat (e_phnum m h) \<Longrightarrow> p_filesz m' (phdr_at m h n) = p_filesz m (phdr_at m h n)"
proof -
  have hb: "m' (h + of_nat j) = m (h + of_nat j)" if "j < 52" for j
    using assms that by (simp add: loaded_elf_def Let_def h_def)
  show "e_phnum m' h = e_phnum m h"
    using hb [of 44] hb [of 45] by (simp add: e_phnum_def load16_def add.assoc)
  have "e_phoff m' h = e_phoff m h"
    using hb [of 28] hb [of 29] hb [of 30] hb [of 31] by (simp add: e_phoff_def load32_def add.assoc)
  then show "phdr_at m' h n = phdr_at m h n" by (simp add: phdr_at_def elf_program_header_def elf_pheader_def)
  assume n: "n < unat (e_phnum m h)"
  then have pb: "m' (phdr_at m h n + of_nat j) = m (phdr_at m h n + of_nat j)" if "j < 32" for j
    using assms that by (simp add: loaded_elf_def Let_def h_def)
  show "p_type m' (phdr_at m h n) = p_type m (phdr_at m h n)"
    using pb [of 0] pb [of 1] pb [of 2] pb [of 3] by (simp add: p_type_def load32_def add.assoc)
  show "p_vaddr m' (phdr_at m h n) = p_vaddr m (phdr_at m h n)"
    using pb [of 8] pb [of 9] pb [of 10] pb [of 11] by (simp add: p_vaddr_def load32_def add.assoc)
  show "p_offset m' (phdr_at m h n) = p_offset m (phdr_at m h n)"
    using pb [of 4] pb [of 5] pb [of 6] pb [of 7] by (simp add: p_offset_def load32_def add.assoc)
  show "p_filesz m' (phdr_at m h n) = p_filesz m (phdr_at m h n)"
    using pb [of 16] pb [of 17] pb [of 18] pb [of 19] by (simp add: p_filesz_def load32_def add.assoc)
qed

text \<open>The scan so far: the file is intact and the bounds are right.\<close>

definition scanned :: "u32 \<Rightarrow> mem \<Rightarrow> nat \<Rightarrow> mem \<Rightarrow> bool" where
  "scanned file m n m' \<longleftrightarrow> (\<forall>a. \<not> in_range a file 4096 \<longrightarrow> m' a = m a) \<and>
     elf_memory m' file = elf_memory m file \<and> spans file m n m'"

lemma bounds_Suc:
  fixes v e :: "nat \<Rightarrow> u32"
  assumes "n = 0 \<Longrightarrow> b = 0 \<and> t = 0" "\<And>i. i \<le> n \<Longrightarrow> v i \<noteq> 0 \<and> e i \<noteq> 0"
    and "n \<noteq> 0 \<Longrightarrow> (\<forall>i < n. b \<le> v i \<and> e i \<le> t) \<and> (\<exists>i < n. b = v i \<and> pb = f i) \<and> (\<exists>i < n. t = e i \<and> pt = g i)"
    and "(b', pb') = (if b \<ge> v n \<or> b = 0 then (v n, f n) else (b, pb))"
    and "(t', pt') = (if t \<le> e n \<or> t = 0 then (e n, g n) else (t, pt))"
  shows "(\<forall>i < Suc n. b' \<le> v i \<and> e i \<le> t') \<and> (\<exists>i < Suc n. b' = v i \<and> pb' = f i) \<and> (\<exists>i < Suc n. t' = e i \<and> pt' = g i)"
proof (cases "n = 0")
  case True
  then show ?thesis using assms(1,4,5) by simp
next
  case False
  then have p: "\<forall>i < n. b \<le> v i \<and> e i \<le> t" "\<exists>i < n. b = v i \<and> pb = f i" "\<exists>i < n. t = e i \<and> pt = g i" using assms(3) by blast+
  then have nz: "b \<noteq> 0" "t \<noteq> 0" using assms(2) by fastforce+
  have "b' \<le> v i" "e i \<le> t'" if "i < Suc n" for i
    using that p(1) assms(4,5) nz by (auto simp: less_Suc_eq split: if_splits intro: order_trans)
  moreover have "\<exists>i < Suc n. b' = v i \<and> pb' = f i" using p(2) assms(4) nz by (auto simp: less_Suc_eq split: if_splits)
  moreover have "\<exists>i < Suc n. t' = e i \<and> pt' = g i" using p(3) assms(5) nz by (auto simp: less_Suc_eq split: if_splits)
  ultimately show ?thesis by blast
qed

text \<open>One step in terms of what the file holds.\<close>

lemma pt_load_eq:
  assumes ok: "loaded_elf file m" and so: "\<forall>a. \<not> in_range a file 4096 \<longrightarrow> m' a = m a" and n: "n < unat (e_phnum m (elf_header m file))"
    and em: "elf_memory m' file = elf_memory m file"
  defines "ph \<equiv> phdr_at m (elf_header m file) n"
  defines "m1 \<equiv> (if elf_virtual_base m' file \<ge> p_vaddr m ph \<or> elf_virtual_base m' file = 0
    then store32 (store32 m' (file + 116) (p_vaddr m ph)) (file + 124) (elf_memory m file + p_offset m ph) else m')"
  defines "m2 \<equiv> (if elf_virtual_end m1 file \<le> p_vaddr m ph + p_filesz m ph \<or> elf_virtual_end m1 file = 0
    then store32 (store32 m1 (file + 120) (p_vaddr m ph + p_filesz m ph)) (file + 128)
      (elf_memory m file + p_offset m ph + p_filesz m ph) else m1)"
  shows "elf_process_phdr_pt_load file ph m' = (0, m2)" "\<forall>a. \<not> in_range a file 4096 \<longrightarrow> m1 a = m a"
    "\<forall>a. \<not> in_range a file 4096 \<longrightarrow> m2 a = m a"
proof -
  have al: "page_al file" using ok by (simp add: loaded_elf_def Let_def)
  have f: "store32 x (file + 4 * of_nat i) u a = x a" if "i < 1024" "\<not> in_range a file 4096" for x i u a
    using store_entry_frame [OF al that] by simp
  have em': "elf_memory (store32 x (file + 4 * of_nat i) u) file = elf_memory x file" if "i < 1024" "i \<noteq> 28" for x i u
    using store_entry_other [OF al al that(1), of 28] that(2) by (simp add: elf_memory_def)
  let ?ma = "store32 m' (file + 116) (p_vaddr m ph)" and ?mb = "store32 m1 (file + 120) (p_vaddr m ph + p_filesz m ph)"
  show so1: "\<forall>a. \<not> in_range a file 4096 \<longrightarrow> m1 a = m a"
    using so f [of 29] f [of 31] by (simp add: m1_def)
  then show so2: "\<forall>a. \<not> in_range a file 4096 \<longrightarrow> m2 a = m a"
    using f [of 30] f [of 32] by (simp add: m2_def)
  have "\<forall>a. \<not> in_range a file 4096 \<longrightarrow> ?ma a = m a" using so f [of 29] by simp
  note ra = scanned_reads [OF ok this]
  have "\<forall>a. \<not> in_range a file 4096 \<longrightarrow> ?mb a = m a" using so1 f [of 30] by simp
  note rb = scanned_reads [OF ok this]
  note r = scanned_reads [OF ok so]
  note r1 = scanned_reads [OF ok so1]
  have e: "elf_memory ?ma file = elf_memory m file" using em em' [of 29] by simp
  have e1: "elf_memory m1 file = elf_memory m file" using em em' [of 29] em' [of 31] by (simp add: m1_def)
  then have eb: "elf_memory ?mb file = elf_memory m file" using em' [of 30] by simp
  have "(if elf_virtual_base m' file \<ge> p_vaddr m' ph \<or> elf_virtual_base m' file = 0
      then let m = store32 m' (file + 116) (p_vaddr m' ph) in store32 m (file + 124) (elf_memory m file + p_offset m ph) else m') = m1"
    using r(4) [OF n, folded ph_def] ra(5) [OF n, folded ph_def] e by (simp add: m1_def Let_def)
  then show "elf_process_phdr_pt_load file ph m' = (0, m2)"
    using r1(4,6) [OF n, folded ph_def] rb(5,6) [OF n, folded ph_def] eb unfolding elf_process_phdr_pt_load_def Let_def by (simp add: m2_def)
qed

lemma scan_step:
  assumes ok: "loaded_elf file m" and sc: "scanned file m n m'" and n: "n < unat (e_phnum m (elf_header m file))"
  shows "\<exists>m''. elf_process_phdr_pt_load file (phdr_at m (elf_header m file) n) m' = (0, m'') \<and> scanned file m (Suc n) m''"
proof -
  define ph where "ph = phdr_at m (elf_header m file)"
  have al: "page_al file" using ok by (simp add: loaded_elf_def Let_def)
  have so: "\<forall>a. \<not> in_range a file 4096 \<longrightarrow> m' a = m a" and em: "elf_memory m' file = elf_memory m file"
    and sp: "spans file m n m'" using sc by (simp_all add: scanned_def)
  define m1 where "m1 = (if elf_virtual_base m' file \<ge> p_vaddr m (ph n) \<or> elf_virtual_base m' file = 0
    then store32 (store32 m' (file + 116) (p_vaddr m (ph n))) (file + 124) (elf_memory m file + p_offset m (ph n)) else m')"
  define m2 where "m2 = (if elf_virtual_end m1 file \<le> p_vaddr m (ph n) + p_filesz m (ph n) \<or> elf_virtual_end m1 file = 0
    then store32 (store32 m1 (file + 120) (p_vaddr m (ph n) + p_filesz m (ph n))) (file + 128)
      (elf_memory m file + p_offset m (ph n) + p_filesz m (ph n)) else m1)"
  note eq = pt_load_eq [OF ok so n em, folded ph_def, folded m1_def, folded m2_def]
  have e1: "elf_memory m1 file = elf_memory m file" "elf_virtual_end m1 file = elf_virtual_end m' file" "elf_phys_end m1 file = elf_phys_end m' file"
    "(elf_virtual_base m1 file, elf_phys_base m1 file) = (if elf_virtual_base m' file \<ge> p_vaddr m (ph n) \<or> elf_virtual_base m' file = 0
       then (p_vaddr m (ph n), elf_memory m file + p_offset m (ph n)) else (elf_virtual_base m' file, elf_phys_base m' file))"
    using em by (simp_all add: m1_def file_entries [OF al])
  have e2: "elf_memory m2 file = elf_memory m file" "elf_virtual_base m2 file = elf_virtual_base m1 file" "elf_phys_base m2 file = elf_phys_base m1 file"
    "(elf_virtual_end m2 file, elf_phys_end m2 file) = (if elf_virtual_end m1 file \<le> p_vaddr m (ph n) + p_filesz m (ph n) \<or> elf_virtual_end m1 file = 0
       then (p_vaddr m (ph n) + p_filesz m (ph n), elf_memory m file + p_offset m (ph n) + p_filesz m (ph n))
       else (elf_virtual_end m1 file, elf_phys_end m1 file))"
    using e1(1) by (simp_all add: m2_def file_entries [OF al])
  have nz: "p_vaddr m (ph i) \<noteq> 0 \<and> p_vaddr m (ph i) + p_filesz m (ph i) \<noteq> 0" if "i \<le> n" for i
  proof -
    have v: "p_vaddr m (ph i) \<noteq> 0" "unat (p_vaddr m (ph i)) + unat (p_filesz m (ph i)) < 4294967296"
      using ok n that by (auto simp: loaded_elf_def Let_def ph_def)
    have "unat (p_vaddr m (ph i) + p_filesz m (ph i)) = unat (p_vaddr m (ph i)) + unat (p_filesz m (ph i))"
      using v(2) by (intro unat_add_small) simp
    with v(1) show ?thesis by (auto simp: unat_eq_0 [symmetric])
  qed
  have "spans file m (Suc n) m2"
    using bounds_Suc [of n "elf_virtual_base m' file" "elf_virtual_end m' file" "\<lambda>i. p_vaddr m (ph i)"
        "\<lambda>i. p_vaddr m (ph i) + p_filesz m (ph i)" "elf_phys_base m' file" "\<lambda>i. elf_memory m file + p_offset m (ph i)"
        "elf_phys_end m' file" "\<lambda>i. elf_memory m file + p_offset m (ph i) + p_filesz m (ph i)"
        "elf_virtual_base m2 file" "elf_phys_base m2 file" "elf_virtual_end m2 file" "elf_phys_end m2 file"]
      sp nz e1 e2 by (simp add: spans_def Let_def ph_def)
  with eq e2(1) show ?thesis by (auto simp: scanned_def ph_def)
qed

section \<open>All program headers\<close>

lemma scan_loop:
  assumes ok: "loaded_elf file m" and "scanned file m i m'" and "i \<le> unat (e_phnum m (elf_header m file))"
    and "unat (e_phnum m (elf_header m file)) - i \<le> fuel"
  shows "\<exists>m''. process_pheaders_loop file (elf_header m file) i 0 m' fuel =
      (if \<forall>j < unat (e_phnum m (elf_header m file)). i \<le> j \<longrightarrow> p_type m (phdr_at m (elf_header m file) j) = PT_LOAD
       then 0 else - EINVELFTYPE, m'') \<and> (\<forall>a. \<not> in_range a file 4096 \<longrightarrow> m'' a = m a) \<and>
      ((\<forall>j < unat (e_phnum m (elf_header m file)). i \<le> j \<longrightarrow> p_type m (phdr_at m (elf_header m file) j) = PT_LOAD) \<longrightarrow>
        spans file m (unat (e_phnum m (elf_header m file))) m'')"
  using assms(2-)
proof (induction fuel arbitrary: i m')
  case 0
  then show ?case by (auto simp: scanned_def)
next
  case (Suc fuel)
  let ?h = "elf_header m file"
  let ?n = "unat (e_phnum m ?h)"
  have so: "\<forall>a. \<not> in_range a file 4096 \<longrightarrow> m' a = m a" using Suc.prems(1) by (simp add: scanned_def)
  note r = scanned_reads [OF ok so]
  have ph: "elf_program_header m' ?h (of_nat i) = phdr_at m ?h i" using r(2) [of i] by (simp add: phdr_at_def)
  show ?case
  proof (cases "i < ?n")
    case False
    then have "i = ?n" using Suc.prems(2) by simp
    then show ?thesis using Suc.prems(1) r(1) by (simp add: scanned_def)
  next
    case True
    show ?thesis
    proof (cases "p_type m (phdr_at m ?h i) = PT_LOAD")
      case False
      then have "elf_process_pheader file (phdr_at m ?h i) m' = (- EINVELFTYPE, m')"
        using r(3) [OF True] by (simp add: elf_process_pheader_def)
      moreover have "\<not> (\<forall>j < ?n. i \<le> j \<longrightarrow> p_type m (phdr_at m ?h j) = PT_LOAD)" using False True by blast
      ultimately show ?thesis using True ph r(1) so by (auto simp: status_simps)
    next
      case ty: True
      from scan_step [OF ok Suc.prems(1) True] obtain m1
        where m1: "elf_process_phdr_pt_load file (phdr_at m ?h i) m' = (0, m1)" "scanned file m (Suc i) m1" by blast
      then have "elf_process_pheader file (phdr_at m ?h i) m' = (0, m1)"
        using r(3) [OF True] ty by (simp add: elf_process_pheader_def)
      then have "process_pheaders_loop file ?h i 0 m' (Suc fuel) = process_pheaders_loop file ?h (Suc i) 0 m1 fuel"
        using True ph r(1) by (simp add: status_simps)
      moreover have "(\<forall>j < ?n. i \<le> j \<longrightarrow> p_type m (phdr_at m ?h j) = PT_LOAD) \<longleftrightarrow>
          (\<forall>j < ?n. Suc i \<le> j \<longrightarrow> p_type m (phdr_at m ?h j) = PT_LOAD)"
        using ty by (metis Suc_leD le_antisym not_less_eq_eq)
      ultimately show ?thesis using Suc.IH [OF m1(2)] True Suc.prems(3) by simp
    qed
  qed
qed

lemma process_loaded:
  assumes ok: "loaded_elf file m" and z: "elf_virtual_base m file = 0" "elf_virtual_end m file = 0"
    and v: "elf_validate_loaded m (elf_header m file) = PEACHOS_ALL_OK"
  shows "\<exists>m'. elf_process_loaded file m =
      (if \<forall>j < unat (e_phnum m (elf_header m file)). p_type m (phdr_at m (elf_header m file) j) = PT_LOAD
       then 0 else - EINVELFTYPE, m') \<and> (\<forall>a. \<not> in_range a file 4096 \<longrightarrow> m' a = m a) \<and>
      ((\<forall>j < unat (e_phnum m (elf_header m file)). p_type m (phdr_at m (elf_header m file) j) = PT_LOAD) \<longrightarrow>
        spans file m (unat (e_phnum m (elf_header m file))) m')"
proof -
  have u: "unat (x :: u16) < 65536" for x using unsigned_less [of x] by simp
  have "scanned file m 0 m" using z by (simp add: scanned_def spans_def Let_def)
  moreover have "unat (e_phnum m (elf_header m file)) - 0 \<le> 65536"
    using u [of "e_phnum m (elf_header m file)"] by linarith
  ultimately show ?thesis
    using scan_loop [OF ok, of 0 m 65536] v by (simp add: elf_process_loaded_def elf_process_pheaders_def status_simps)
qed

text \<open>C16. Loading an ELF file that is in memory: without the magic number, the 32-bit little-endian marks
  or a program header table it is refused as no ELF file, and nothing is written; with a program header
  that is not a loadable segment it is refused as well; otherwise the recorded base is the lowest start
  of a segment and the recorded end the highest end of one, each with the physical address it has in the
  file, whatever the order of the segments. All headers are looked at, and the file itself is not
  changed.\<close>

theorem elf_process_loaded_correct:
  assumes "loaded_elf file m" "elf_virtual_base m file = 0" "elf_virtual_end m file = 0"
  shows "if elf_validate_loaded m (elf_header m file) = PEACHOS_ALL_OK
    then \<exists>m'. elf_process_loaded file m =
      (if \<forall>j < unat (e_phnum m (elf_header m file)). p_type m (phdr_at m (elf_header m file) j) = PT_LOAD
       then 0 else - EINVELFTYPE, m') \<and> (\<forall>a. \<not> in_range a file 4096 \<longrightarrow> m' a = m a) \<and>
      ((\<forall>j < unat (e_phnum m (elf_header m file)). p_type m (phdr_at m (elf_header m file) j) = PT_LOAD) \<longrightarrow>
        spans file m (unat (e_phnum m (elf_header m file))) m')
    else elf_process_loaded file m = (- EINFORMAT, m)"
proof (cases "elf_validate_loaded m (elf_header m file) = PEACHOS_ALL_OK")
  case True
  then show ?thesis using process_loaded [OF assms] by simp
next
  case False
  then have "elf_validate_loaded m (elf_header m file) = - EINFORMAT" by (auto simp: elf_validate_loaded_def)
  with False show ?thesis by (simp add: elf_process_loaded_def status_simps)
qed

text \<open>A file with two segments, the second below the first: header at \<open>0x8000\<close>, file structure at
  \<open>0x9000\<close>.\<close>

definition two_segments :: mem where
  "two_segments = (\<lambda>_. 0)(0x8000 := 0x7F, 0x8001 := 69, 0x8002 := 76, 0x8003 := 70, 0x8004 := 1, 0x8005 := 1,
     0x801C := 52, 0x802C := 2,
     0x8034 := 1, 0x8039 := 1, 0x803D := 0x10, 0x803E := 0x40, 0x8045 := 1,
     0x8054 := 1, 0x8059 := 2, 0x805E := 0x40, 0x8064 := 0x10, 0x9071 := 0x80)"

lemma two_segments_fields:
  "elf_header two_segments 0x9000 = 0x8000" "e_phnum two_segments 0x8000 = 2" "e_phoff two_segments 0x8000 = 52"
  "elf_validate_loaded two_segments 0x8000 = 0" "elf_virtual_base two_segments 0x9000 = 0" "elf_virtual_end two_segments 0x9000 = 0"
  "phdr_at two_segments 0x8000 0 = 0x8034" "phdr_at two_segments 0x8000 (Suc 0) = 0x8054"
  "p_type two_segments 0x8034 = 1" "p_type two_segments 0x8054 = 1"
  "p_vaddr two_segments 0x8034 = 0x401000" "p_vaddr two_segments 0x8054 = 0x400000"
  "p_offset two_segments 0x8034 = 0x100" "p_offset two_segments 0x8054 = 0x200"
  "p_filesz two_segments 0x8034 = 0x100" "p_filesz two_segments 0x8054 = 0x10"
  by (simp_all add: elf_header_def elf_memory_def two_segments_def load32_def e_phnum_def load16_def e_phoff_def
      elf_validate_loaded_def elf_valid_signature_def elf_valid_class_def elf_valid_encoding_def elf_has_program_header_def
      status_simps elf_virtual_base_def elf_virtual_end_def phdr_at_def elf_program_header_def elf_pheader_def p_type_def
      p_vaddr_def p_offset_def p_filesz_def)

lemma elf_process_loaded_correct_witness:
  "\<exists>m'. elf_process_loaded 0x9000 two_segments = (0, m') \<and> elf_virtual_base m' 0x9000 = 0x400000 \<and>
     elf_phys_base m' 0x9000 = 0x8200 \<and> elf_virtual_end m' 0x9000 = 0x401100"
proof -
  note f = two_segments_fields
  have all2: "(\<forall>i < 2. P i) \<longleftrightarrow> P 0 \<and> P (Suc 0)" for P :: "nat \<Rightarrow> bool" by (auto simp: less_2_cases_iff)
  have ex2: "(\<exists>i < 2. P i) \<longleftrightarrow> P 0 \<or> P (Suc 0)" for P :: "nat \<Rightarrow> bool" by (auto simp: less_2_cases_iff)
  have low: "\<not> in_range (b + of_nat j) 0x9000 4096" if "unat b < 0x8100" "j < 52" for b :: u32 and j
  proof -
    have "unat (of_nat j :: u32) = j" using that(2) by (intro unat_of_nat_u32) simp
    with that have "unat (b + of_nat j) = unat b + j" by (intro unat_add_small [THEN trans]) simp_all
    with that show ?thesis by (simp add: in_range_def)
  qed
  have "loaded_elf 0x9000 two_segments"
    using low [of "0x8000"] low [of "0x8034"] low [of "0x8054"] by (simp add: loaded_elf_def f all2 page_al_def)
  from elf_process_loaded_correct [OF this f(5,6)] obtain m'
    where "elf_process_loaded 0x9000 two_segments = (0, m')" "spans 0x9000 two_segments 2 m'"
    by (auto simp: f all2 status_simps)
  then show ?thesis by (auto simp: spans_def Let_def f all2 ex2 elf_header_def [symmetric])
qed

end
