(* ===== verification/Procmem.thy ===== *)
theory Procmem
  imports Keyboard Tasklist
begin

text \<open>
  Memory of a process, \<open>process_malloc\<close> and \<open>process_free\<close> of \<^verbatim>\<open>src/task/process.c\<close>: what an allocation
  does to the heap, to the address space of the task and to the table of allocations in
  \<open>struct process\<close>, and what freeing undoes.
\<close>

section \<open>A process and its address space\<close>

text \<open>The process is a block of its own, so is its task, and the task owns its page tables.\<close>

definition process_space :: "'a machine_scheme \<Rightarrow> u32 \<Rightarrow> u32 \<Rightarrow> u32 \<Rightarrow> bool" where
  "process_space k proc t c \<longleftrightarrow> owns_chunk k c \<and> klive k proc = Some 4 \<and> klive k t = Some 1 \<and>
     t \<notin> set (owned_pages (mem k) c) \<and> proc_task (mem k) proc = t \<and> task_page_directory (mem k) t = c"

text \<open>The entry of a page in the address space.\<close>

definition entry_of :: "mem \<Rightarrow> u32 \<Rightarrow> u32 \<Rightarrow> u32" where
  "entry_of m c v = paging_get m (load32 m c) v"

definition same_process :: "u32 \<Rightarrow> mem \<Rightarrow> mem \<Rightarrow> bool" where
  "same_process proc m m' \<longleftrightarrow> (\<forall>n < 12432. m' (proc + of_nat n) = m (proc + of_nat n))"

lemma same_process_load:
  assumes "same_process proc m m'" "off + 4 \<le> 12432"
  shows "load32 m' (proc + of_nat off) = load32 m (proc + of_nat off)"
proof (rule load32_eqI)
  fix j :: nat
  assume "j < 4"
  with assms(2) have "off + j < 12432" by linarith
  with assms(1) have "m' (proc + of_nat (off + j)) = m (proc + of_nat (off + j))" unfolding same_process_def by blast
  then show "m' (proc + of_nat off + of_nat j) = m (proc + of_nat off + of_nat j)" by (simp add: add.assoc)
qed

lemma same_process_fields:
  assumes "same_process proc m m'"
  shows "proc_task m' proc = proc_task m proc" "j < 1024 \<Longrightarrow> alloc_ptr m' proc j = alloc_ptr m proc j"
    "j < 1024 \<Longrightarrow> alloc_size m' proc j = alloc_size m proc j"
  using same_process_load [OF assms, of 112] same_process_load [OF assms, of "116 + 8 * j"]
    same_process_load [OF assms, of "116 + 8 * j + 4"]
  by (simp_all add: proc_task_def alloc_ptr_def alloc_size_def alloc_slot_def add.assoc)

lemma process_byte:
  assumes "kwf k" "klive k proc = Some 4" "n < 12432"
  shows "in_range (proc + of_nat n) proc 16384"
proof -
  have "unat proc + 16384 \<le> 2147483648" using kalloc.live_region [OF assms(1,2)] by simp
  then have "unat (proc + of_nat n) = unat proc + n"
    using unat_of_nat_u32 [of n] assms(3) by (intro unat_add_small [THEN trans]) simp_all
  with assms(3) show ?thesis by (simp add: in_range_def)
qed

lemma process_apart:
  assumes "kwf k" "klive k proc = Some 4" "klive k p = Some 1" "n < 12432"
  shows "\<not> in_range (proc + of_nat n) p 4096"
proof -
  have "proc \<noteq> p" using assms(2,3) by auto
  with kalloc.live_disjoint [OF assms(1-3)] process_byte [OF assms(1,2,4)] show ?thesis by simp
qed

lemma same_process_kept:
  assumes "kwf k" "klive k proc = Some 4" "\<And>a. kept k a \<Longrightarrow> mem k' a = mem k a"
  shows "same_process proc (mem k) (mem k')"
  unfolding same_process_def
proof (intro allI impI)
  fix n :: nat
  assume "n < 12432"
  then have "kept k (proc + of_nat n)" using process_byte [OF assms(1,2)] kept_live [OF assms(2)] by simp
  then show "mem k' (proc + of_nat n) = mem k (proc + of_nat n)" by (rule assms(3))
qed

section \<open>What the steps of an allocation keep\<close>

lemma space_kzalloc:
  assumes sp: "process_space k proc t c" and n: "good_size n" and a: "kzalloc n k = Some (p, k')" and p: "p \<noteq> 0"
  shows "process_space k' proc t c" "same_process proc (mem k) (mem k')" "page_al v \<Longrightarrow> entry_of (mem k') c v = entry_of (mem k) c v"
    "load32 (mem k') c = load32 (mem k) c" "owned_pages (mem k') c = owned_pages (mem k) c"
proof -
  have s: "owns_chunk k c" "klive k proc = Some 4" "klive k t = Some 1" "t \<notin> set (owned_pages (mem k) c)"
    "proc_task (mem k) proc = t" "task_page_directory (mem k) t = c" using sp by (simp_all add: process_space_def)
  then have wf: "kwf k" and ck: "chunk_ok (mem k) c" and op: "\<forall>q \<in> set (owned_pages (mem k) c). klive k q = Some 1"
    and di: "distinct (owned_pages (mem k) c)" by (simp_all add: owns_chunk_def)
  have kp: "mem k' a = mem k a" if "kept k a" for a using kzalloc_kept [OF wf n a that] by blast
  have lv: "klive k' = (klive k)(p \<mapsto> nblocks n)" "klive k p = None" "kwf k'" using kzalloc_region [OF wf n a p] by simp_all
  have pg: "mem k' a = mem k a" if "klive k q = Some 1" "in_range a q 4096" for q a
    using kept_live [OF that(1)] that(2) by (intro kp) simp
  note oc = owned_cong [OF ck, of "mem k'"]
  have ow: "load32 (mem k') c = load32 (mem k) c" "owned_pages (mem k') c = owned_pages (mem k) c" "chunk_ok (mem k') c"
    "page_al v \<Longrightarrow> paging_get (mem k') (load32 (mem k) c) v = paging_get (mem k) (load32 (mem k) c) v" for v
    using oc pg op by blast+
  show sm: "same_process proc (mem k) (mem k')" using wf s(2) kp by (rule same_process_kept)
  have al: "page_al t" using kalloc.live_region [OF wf s(3)] by (simp add: page_al_def)
  have "task_page_directory (mem k') t = task_page_directory (mem k) t"
    using page_load_cong [OF pg [OF s(3)] al, where j = 0] by (simp add: task_page_directory_def)
  moreover have "klive k' q = Some j" if "klive k q = Some j" for q j using that lv by auto
  ultimately show "process_space k' proc t c"
    using s ow lv(3) op di same_process_fields(1) [OF sm] by (simp add: process_space_def owns_chunk_def)
  show "entry_of (mem k') c v = entry_of (mem k) c v" if "page_al v" using ow(1,4) that by (simp add: entry_of_def)
  show "load32 (mem k') c = load32 (mem k) c" "owned_pages (mem k') c = owned_pages (mem k) c" using ow by simp_all
qed

lemma in_tables_owned: "in_tables m (load32 m c) a \<Longrightarrow> \<exists>p \<in> set (owned_pages m c). in_range a p 4096"
  by (auto simp: in_tables_def owned_pages_def)

lemma space_tables:
  assumes sp: "process_space k proc t c" and f: "tables_frame (load32 (mem k) c) (mem k) m"
  shows "process_space (k\<lparr>mem := m\<rparr>) proc t c" "same_process proc (mem k) m" "owned_pages m c = owned_pages (mem k) c"
    "load32 m c = load32 (mem k) c"
proof -
  have s: "owns_chunk k c" "klive k proc = Some 4" "klive k t = Some 1" "t \<notin> set (owned_pages (mem k) c)"
    "proc_task (mem k) proc = t" "task_page_directory (mem k) t = c" using sp by (simp_all add: process_space_def)
  then have wf: "kwf k" and ck: "chunk_ok (mem k) c" and op: "\<forall>q \<in> set (owned_pages (mem k) c). klive k q = Some 1"
    by (simp_all add: owns_chunk_def)
  have out: "m a = mem k a" if "\<forall>p \<in> set (owned_pages (mem k) c). \<not> in_range a p 4096" for a
    using f in_tables_owned [of "mem k" c a] that by (auto simp: tables_frame_def)
  show sm: "same_process proc (mem k) m"
    unfolding same_process_def using process_apart [OF wf s(2)] op by (intro allI impI out) blast
  have al: "page_al q" if "klive k q = Some 1" for q using kalloc.live_region [OF wf that] by (simp add: page_al_def)
  have "m a = mem k a" if "in_range a t 4096" for a
  proof (intro out ballI)
    fix p
    assume p: "p \<in> set (owned_pages (mem k) c)"
    then have "p \<noteq> t" using s(4) by auto
    moreover from p op have "page_al p" using al by blast
    ultimately show "\<not> in_range a p 4096" using pages_disjoint [of t p a] al [OF s(3)] that by blast
  qed
  from page_load_cong [OF this al [OF s(3)], where j = 0] have "task_page_directory m t = task_page_directory (mem k) t"
    by (simp add: task_page_directory_def)
  with s same_process_fields(1) [OF sm] owns_chunk_frame [OF s(1) f] owned_pages_frame [OF ck f]
  show "process_space (k\<lparr>mem := m\<rparr>) proc t c" by (simp add: process_space_def klive_def)
  show "owned_pages m c = owned_pages (mem k) c" "load32 m c = load32 (mem k) c"
    using owned_pages_frame [OF ck f] chunk_frame(1) [OF ck f] by simp_all
qed

lemma space_store:
  fixes x :: u32
  assumes sp: "process_space k proc t c" and off: "116 \<le> off" "off + 4 \<le> 12432"
  defines "m \<equiv> store32 (mem k) (proc + of_nat off) x"
  shows "process_space (k\<lparr>mem := m\<rparr>) proc t c" "page_al v \<Longrightarrow> entry_of m c v = entry_of (mem k) c v"
    "\<not> in_range a proc 16384 \<Longrightarrow> m a = mem k a"
    "off' + 4 \<le> 12432 \<Longrightarrow> off' + 4 \<le> off \<or> off + 4 \<le> off' \<Longrightarrow> load32 m (proc + of_nat off') = load32 (mem k) (proc + of_nat off')"
    "owned_pages m c = owned_pages (mem k) c" "load32 m c = load32 (mem k) c"
proof -
  have s: "owns_chunk k c" "klive k proc = Some 4" "klive k t = Some 1" "t \<notin> set (owned_pages (mem k) c)"
    "proc_task (mem k) proc = t" "task_page_directory (mem k) t = c" using sp by (simp_all add: process_space_def)
  then have wf: "kwf k" and ck: "chunk_ok (mem k) c" and op: "\<forall>q \<in> set (owned_pages (mem k) c). klive k q = Some 1"
    and di: "distinct (owned_pages (mem k) c)" by (simp_all add: owns_chunk_def)
  have up: "unat proc + 16384 \<le> 4294967296" using kalloc.live_region [OF wf s(2)] by simp
  show out: "m a = mem k a" if "\<not> in_range a proc 16384" for a
  proof -
    have "16384 \<le> unat (a - proc)" using that in_range_diff [OF up, of a] by simp
    with off(2) show ?thesis unfolding m_def by (intro store32_off) simp_all
  qed
  have pg: "m a = mem k a" if "klive k q = Some 1" "in_range a q 4096" for q a
  proof (rule out)
    have "q \<noteq> proc" using that(1) s(2) by auto
    then show "\<not> in_range a proc 16384" using kalloc.live_disjoint [OF wf that(1) s(2), of a] that(2) by simp
  qed
  show ld: "load32 m (proc + of_nat off') = load32 (mem k) (proc + of_nat off')"
    if "off' + 4 \<le> 12432" "off' + 4 \<le> off \<or> off + 4 \<le> off'" for off'
  proof (rule load32_eqI)
    fix j :: nat
    assume "j < 4"
    then have "unat (proc + of_nat off' + of_nat j - proc) = off' + j"
      using unat_of_nat_u32 [of "off' + j"] that(1) by (simp add: add.assoc)
    with that off \<open>j < 4\<close> show "m (proc + of_nat off' + of_nat j) = mem k (proc + of_nat off' + of_nat j)"
      unfolding m_def by (intro store32_off) linarith+
  qed
  note oc = owned_cong [OF ck, of m]
  have ow: "load32 m c = load32 (mem k) c" "owned_pages m c = owned_pages (mem k) c" "chunk_ok m c"
    "page_al v \<Longrightarrow> paging_get m (load32 (mem k) c) v = paging_get (mem k) (load32 (mem k) c) v" for v
    using oc pg op by blast+
  have al: "page_al t" using kalloc.live_region [OF wf s(3)] by (simp add: page_al_def)
  have "task_page_directory m t = task_page_directory (mem k) t"
    using page_load_cong [OF pg [OF s(3)] al, where j = 0] by (simp add: task_page_directory_def)
  moreover have "proc_task m proc = proc_task (mem k) proc" using ld [of 112] off by (simp add: proc_task_def)
  ultimately show "process_space (k\<lparr>mem := m\<rparr>) proc t c"
    using s ow op di by (simp add: process_space_def owns_chunk_def klive_def kwf_def)
  show "entry_of m c v = entry_of (mem k) c v" if "page_al v" using ow(1,4) that by (simp add: entry_of_def)
  show "owned_pages m c = owned_pages (mem k) c" "load32 m c = load32 (mem k) c" using ow by simp_all
qed

text \<open>Writing one slot of the table of allocations.\<close>

lemma slot_off: "alloc_slot proc i = proc + of_nat (116 + 8 * i)" "alloc_slot proc i + 4 = proc + of_nat (120 + 8 * i)"
  by (simp_all add: alloc_slot_def add.assoc)

lemma space_slot:
  fixes x y :: u32
  assumes sp: "process_space k proc t c" and i: "i < 1024"
  defines "m \<equiv> store32 (store32 (mem k) (alloc_slot proc i) x) (alloc_slot proc i + 4) y"
  shows "process_space (k\<lparr>mem := m\<rparr>) proc t c" "page_al v \<Longrightarrow> entry_of m c v = entry_of (mem k) c v"
    "\<not> in_range a proc 16384 \<Longrightarrow> m a = mem k a"
    "j < 1024 \<Longrightarrow> alloc_ptr m proc j = (if j = i then x else alloc_ptr (mem k) proc j)"
    "j < 1024 \<Longrightarrow> alloc_size m proc j = (if j = i then y else alloc_size (mem k) proc j)"
proof -
  have o: "116 \<le> 116 + 8 * i" "116 + 8 * i + 4 \<le> 12432" "116 \<le> 120 + 8 * i" "120 + 8 * i + 4 \<le> 12432" using i by simp_all
  define m1 where "m1 = store32 (mem k) (alloc_slot proc i) x"
  note s1 = space_store [OF sp o(1,2), where x = x, folded slot_off m1_def]
  have k1: "process_space (k\<lparr>mem := m1\<rparr>) proc t c" by (rule s1(1))
  have m2: "store32 (mem (k\<lparr>mem := m1\<rparr>)) (alloc_slot proc i + 4) y = m" by (simp add: m_def m1_def)
  note s2 = space_store [OF k1 o(3,4), where x = y, folded slot_off, unfolded m2]
  show "process_space (k\<lparr>mem := m\<rparr>) proc t c" using s2(1) by simp
  show "page_al v \<Longrightarrow> entry_of m c v = entry_of (mem k) c v" using s1(2) s2(2) by simp
  show "\<not> in_range a proc 16384 \<Longrightarrow> m a = mem k a" using s1(3) s2(3) by simp
  have s2': "load32 m (proc + of_nat off') = load32 m1 (proc + of_nat off')"
    if "off' + 4 \<le> 12432" "off' + 4 \<le> 120 + 8 * i \<or> 120 + 8 * i + 4 \<le> off'" for off'
    using s2(4) [OF that] by simp
  show "alloc_ptr m proc j = (if j = i then x else alloc_ptr (mem k) proc j)" if "j < 1024"
  proof -
    have "load32 m (alloc_slot proc j) = load32 m1 (alloc_slot proc j)"
      unfolding slot_off by (rule s2') (use that in presburger)+
    moreover have "load32 m1 (alloc_slot proc j) = load32 (mem k) (alloc_slot proc j)" if "j \<noteq> i"
      unfolding slot_off by (rule s1(4)) (use that \<open>j < 1024\<close> in presburger)+
    ultimately show ?thesis by (simp add: alloc_ptr_def m1_def)
  qed
  show "alloc_size m proc j = (if j = i then y else alloc_size (mem k) proc j)" if "j < 1024"
  proof -
    have "load32 m1 (alloc_slot proc j + 4) = load32 (mem k) (alloc_slot proc j + 4)"
      unfolding slot_off(2) by (rule s1(4)) (use that in presburger)+
    moreover have "load32 m (alloc_slot proc j + 4) = load32 m1 (alloc_slot proc j + 4)" if "j \<noteq> i"
      unfolding slot_off(2) by (rule s2') (use that \<open>j < 1024\<close> in presburger)+
    ultimately show ?thesis by (simp add: alloc_size_def m_def)
  qed
qed

section \<open>The table of allocations\<close>

lemma find_slot_Some:
  "find_slot m proc v i n = Some j \<Longrightarrow> i \<le> j \<and> j < i + n \<and> alloc_ptr m proc j = v \<and> (\<forall>l. i \<le> l \<and> l < j \<longrightarrow> alloc_ptr m proc l \<noteq> v)"
proof (induction n arbitrary: i)
  case (Suc n)
  show ?case
  proof (cases "alloc_ptr m proc i = v")
    case False
    then have "find_slot m proc v (Suc i) n = Some j" using Suc.prems by simp
    from Suc.IH [OF this] False show ?thesis by (metis Suc_le_eq add_Suc_right add_Suc le_eq_less_or_eq less_SucI not_less_eq)
  qed (use Suc.prems in auto)
qed simp

lemma find_slot_first:
  "i \<le> j \<Longrightarrow> j < i + n \<Longrightarrow> alloc_ptr m proc j = v \<Longrightarrow> (\<And>l. i \<le> l \<Longrightarrow> l < j \<Longrightarrow> alloc_ptr m proc l \<noteq> v) \<Longrightarrow>
   find_slot m proc v i n = Some j"
proof (induction n arbitrary: i)
  case (Suc n)
  then show ?case by (cases "i = j") (auto simp: less_Suc_eq_le Suc_le_eq)
qed simp

lemma blocks_end:
  fixes a :: nat
  assumes "a \<le> c" "c < a + 4096" "u \<le> 4096 * b" "4096 * b < u + 4096" "p = 4096 * i" "c = 4096 * j" "a = p + u"
  shows "j = i + b"
  using assms by arith

text \<open>The pages from \<open>p\<close> to the end of the blocks of an allocation.\<close>

lemma align_end:
  assumes "unat (p :: u32) mod 4096 = 0" "unat p + 4096 * nblocks n \<le> 2147483648" "good_size n"
  shows "page_al (paging_align_address (p + n))" "p \<le> paging_align_address (p + n)"
    "unat (paging_align_address (p + n) - p) = 4096 * nblocks n"
proof -
  define e where "e = paging_align_address (p + n)"
  have n: "0 < unat n" "unat n \<le> 4096 * nblocks n" "4096 * nblocks n < unat n + 4096"
    using nblocks_bounds [OF assms(3)] assms(3) by (auto simp: good_size_def nblocks_def)
  have un: "unat (p + n) = unat p + unat n" using assms(2) n by (intro unat_add_small) simp
  have e: "page_al e" "unat (p + n) \<le> unat e" "unat e < unat (p + n) + 4096"
    using align_address_bounds [of "p + n"] assms(2) n un by (auto simp: e_def)
  obtain i where i: "unat p = 4096 * i" using assms(1) by auto
  obtain j where j: "unat e = 4096 * j" using e(1) by (rule page_alE)
  have eq: "unat e = unat p + 4096 * nblocks n"
    using blocks_end [OF e(2,3) n(2,3) i j un] i j by simp
  then have le: "p \<le> e" by (simp add: word_le_nat_alt)
  then have "unat (e - p) = 4096 * nblocks n" using eq by (simp add: unat_sub)
  with e(1) le show "page_al (paging_align_address (p + n))" "p \<le> paging_align_address (p + n)"
    "unat (paging_align_address (p + n) - p) = 4096 * nblocks n" by (simp_all add: e_def)
qed

lemma block_pages:
  assumes "unat (p :: u32) mod 4096 = 0" "unat p + 4096 * nblocks n \<le> 2147483648" "good_size n"
  shows "unat (w - p) < unat (paging_align_address (p + n) - p) \<longleftrightarrow> in_range w p (4096 * nblocks n)"
  using align_end(3) [OF assms] in_range_diff [of p "4096 * nblocks n" w] assms(2) by simp

text \<open>Mapping or unmapping the pages of a block.\<close>

lemma map_block:
  assumes sp: "process_space k proc t c" and l: "klive k p = Some (nblocks n)" "good_size n"
  obtains m where "paging_map_to c p p (paging_align_address (p + n)) fl (mem k) = (0, m)"
    "tables_frame (load32 (mem k) c) (mem k) m"
    "\<And>w. page_al w \<Longrightarrow> entry_of m c w = (if in_range w p (4096 * nblocks n) then w OR fl else entry_of (mem k) c w)"
proof -
  have wf: "kwf k" and ck: "chunk_ok (mem k) c" using sp by (simp_all add: process_space_def owns_chunk_def)
  have r: "unat p mod 4096 = 0" "unat p + 4096 * nblocks n \<le> 2147483648" using kalloc.live_region [OF wf l(1)] by simp_all
  then have "page_al p" by (simp add: page_al_def)
  from map_to_correct' [OF ck this this align_end(1,2) [OF r l(2)], of fl] obtain m
    where m: "paging_map_to c p p (paging_align_address (p + n)) fl (mem k) = (0, m)" "tables_frame (load32 (mem k) c) (mem k) m"
      "\<forall>w. page_al w \<longrightarrow> paging_get m (load32 (mem k) c) w =
        (if unat (w - p) < unat (paging_align_address (p + n) - p) then (p + (w - p)) OR fl else paging_get (mem k) (load32 (mem k) c) w)"
    by blast
  have "entry_of m c w = (if in_range w p (4096 * nblocks n) then w OR fl else entry_of (mem k) c w)" if "page_al w" for w
    using m(3) that block_pages [OF r l(2), of w] chunk_frame(1) [OF ck m(2)] by (simp add: entry_of_def)
  with that m(1,2) show ?thesis by blast
qed

text \<open>Bytes of a block are not in the tables of the address space, nor in the process.\<close>

lemma block_bytes:
  assumes sp: "process_space k proc t c" and l: "klive k p = Some b" "p \<notin> set (owned_pages (mem k) c)" "p \<noteq> proc" and a: "in_range a p (4096 * b)"
  shows "\<not> in_tables (mem k) (load32 (mem k) c) a" "\<not> in_range a proc 16384"
proof -
  have s: "kwf k" "klive k proc = Some 4" "\<forall>q \<in> set (owned_pages (mem k) c). klive k q = Some 1"
    using sp by (simp_all add: process_space_def owns_chunk_def)
  show "\<not> in_range a proc 16384" using kalloc.live_disjoint [OF s(1) l(1) s(2) l(3) a] by simp
  have "\<not> in_range a q 4096" if "q \<in> set (owned_pages (mem k) c)" for q
  proof -
    have "klive k q = Some 1" "p \<noteq> q" using s(3) l(2) that by auto
    with kalloc.live_disjoint [OF s(1) l(1) _ _ a] show ?thesis by fastforce
  qed
  then show "\<not> in_tables (mem k) (load32 (mem k) c) a" using in_tables_owned by blast
qed

section \<open>Allocating and freeing\<close>

lemma process_malloc_ok:
  fixes k :: "'a proc_machine_scheme"
  assumes sp: "process_space k proc t c" and n: "good_size n" and a: "kzalloc n k = Some (p, k1)" and p: "p \<noteq> 0"
    and i: "find_slot (mem k) proc 0 0 1024 = Some i"
  obtains k' where "process_malloc proc n k = Some (p, k')" "process_space k' proc t c" "k' = k1\<lparr>mem := mem k'\<rparr>"
    "\<And>w. page_al w \<Longrightarrow> entry_of (mem k') c w = (if in_range w p (4096 * nblocks n) then w OR user_flags else entry_of (mem k) c w)"
    "\<And>b. in_range b p (unat n) \<Longrightarrow> mem k' b = 0"
    "\<And>j. j < 1024 \<Longrightarrow> alloc_ptr (mem k') proc j = (if j = i then p else alloc_ptr (mem k) proc j)"
    "alloc_size (mem k') proc i = n"
proof -
  have wf: "kwf k" using sp by (simp add: process_space_def owns_chunk_def)
  note z = space_kzalloc [OF sp n a p]
  note r = kzalloc_region [OF wf n a p]
  have l: "klive k1 p = Some (nblocks n)" using r(2) by simp
  have i': "i < 1024" using find_slot_Some [OF i] by simp
  from map_block [OF z(1) l n, of user_flags] obtain m1
    where m1: "paging_map_to c p p (paging_align_address (p + n)) user_flags (mem k1) = (0, m1)" "tables_frame (load32 (mem k1) c) (mem k1) m1"
      "\<And>w. page_al w \<Longrightarrow> entry_of m1 c w = (if in_range w p (4096 * nblocks n) then w OR user_flags else entry_of (mem k1) c w)" by blast
  note t = space_tables [OF z(1) m1(2)]
  define m2 where "m2 = store32 (store32 m1 (alloc_slot proc i) p) (alloc_slot proc i + 4) n"
  have m2: "store32 (store32 (mem (k1\<lparr>mem := m1\<rparr>)) (alloc_slot proc i) p) (alloc_slot proc i + 4) n = m2" by (simp add: m2_def)
  note s = space_slot [OF t(1) i', where x = p and y = n, unfolded m2]
  let ?k' = "k1\<lparr>mem := m2\<rparr>"
  have fields: "alloc_ptr (mem k1) proc j = alloc_ptr (mem k) proc j" "alloc_ptr m1 proc j = alloc_ptr (mem k) proc j"
    if "j < 1024" for j
    using same_process_fields(2) [OF z(2) that] same_process_fields(2) [OF t(2) that] by simp_all
  note fs = find_slot_Some [OF i]
  have "find_slot (mem k1) proc 0 0 1024 = Some i"
    using fs fields(1) by (intro find_slot_first) auto
  then have ix: "process_find_free_allocation_index (mem k1) proc = int i" by (simp add: process_find_free_allocation_index_def)
  have "proc_task (mem k1) proc = t" "task_page_directory (mem k1) t = c" using z(1) by (simp_all add: process_space_def)
  then have "process_malloc proc n k = Some (p, ?k')"
    using a p ix m1(1) by (simp add: process_malloc_def status_simps m2_def)
  moreover have "process_space ?k' proc t c" using s(1) by simp
  moreover have "entry_of m2 c w = (if in_range w p (4096 * nblocks n) then w OR user_flags else entry_of (mem k) c w)" if "page_al w" for w
    using s(2) [OF that] m1(3) [OF that] z(3) [OF that] by simp
  moreover have "m2 b = 0" if b: "in_range b p (unat n)" for b
  proof -
    have bb: "in_range b p (4096 * nblocks n)" using b nblocks_bounds(3) [OF n] by (auto simp: in_range_def)
    have "p \<notin> set (owned_pages (mem k1) c)" using sp r(3) unfolding z(5) by (auto simp: process_space_def owns_chunk_def)
    moreover have "p \<noteq> proc" using sp r(3) by (auto simp: process_space_def)
    ultimately have "\<not> in_tables (mem k1) (load32 (mem k1) c) b" "\<not> in_range b proc 16384"
      using block_bytes [OF z(1) l _ _ bb] by blast+
    then have "m2 b = mem k1 b" using s(3) m1(2) by (simp add: tables_frame_def)
    moreover have "unat (b - p) < unat n"
      using in_range_diff [of p "unat n" b] r(5) nblocks_bounds(3) [OF n] b by simp
    ultimately show ?thesis using kzalloc_mem [OF a p] by simp
  qed
  moreover have "alloc_ptr m2 proc j = (if j = i then p else alloc_ptr (mem k) proc j)" if "j < 1024" for j
    using s(4) [OF that] fields(2) [OF that] by simp
  moreover have "alloc_size m2 proc i = n" using s(5) [OF i'] by simp
  ultimately show ?thesis using that [of ?k'] by simp
qed

lemma process_free_ok:
  fixes k :: "'a proc_machine_scheme"
  assumes sp: "process_space k proc t c" and l: "klive k p = Some (nblocks n)" "good_size n"
    and i: "find_slot (mem k) proc p 0 1024 = Some i" "alloc_size (mem k) proc i = n"
  obtains k' where "process_free proc p k = kfree p k'" "process_space k' proc t c" "k' = k\<lparr>mem := mem k'\<rparr>"
    "\<And>w. page_al w \<Longrightarrow> entry_of (mem k') c w = (if in_range w p (4096 * nblocks n) then w else entry_of (mem k) c w)"
    "\<And>j. j < 1024 \<Longrightarrow> alloc_ptr (mem k') proc j = (if j = i then 0 else alloc_ptr (mem k) proc j)"
proof -
  from map_block [OF sp l, of 0] obtain m1
    where m1: "paging_map_to c p p (paging_align_address (p + n)) 0 (mem k) = (0, m1)" "tables_frame (load32 (mem k) c) (mem k) m1"
      "\<And>w. page_al w \<Longrightarrow> entry_of m1 c w = (if in_range w p (4096 * nblocks n) then w OR 0 else entry_of (mem k) c w)" by blast
  note t = space_tables [OF sp m1(2)]
  have i': "i < 1024" using find_slot_Some [OF i(1)] by simp
  then have off: "116 \<le> 116 + 8 * i" "116 + 8 * i + 4 \<le> 12432" by simp_all
  define m2 where "m2 = store32 m1 (alloc_slot proc i) 0"
  have m2: "store32 (mem (k\<lparr>mem := m1\<rparr>)) (alloc_slot proc i) 0 = m2" by (simp add: m2_def)
  note s = space_store [OF t(1) off, where x = 0, folded slot_off, unfolded m2]
  let ?k' = "k\<lparr>mem := m2\<rparr>"
  have "proc_task (mem k) proc = t" "task_page_directory (mem k) t = c" using sp by (simp_all add: process_space_def)
  then have "process_free proc p k = kfree p ?k'"
    using i m1(1) by (simp add: process_free_def status_simps m2_def)
  moreover have "process_space ?k' proc t c" using s(1) by simp
  moreover have "entry_of m2 c w = (if in_range w p (4096 * nblocks n) then w else entry_of (mem k) c w)" if "page_al w" for w
    using s(2) [OF that] m1(3) [OF that] by simp
  moreover have "alloc_ptr m2 proc j = (if j = i then 0 else alloc_ptr (mem k) proc j)" if "j < 1024" for j
  proof (cases "j = i")
    case True
    then show ?thesis by (simp add: alloc_ptr_def m2_def)
  next
    case False
    have "load32 m2 (proc + of_nat (116 + 8 * j)) = load32 (mem (k\<lparr>mem := m1\<rparr>)) (proc + of_nat (116 + 8 * j))"
      by (rule s(4)) (use that False in presburger)+
    then have "alloc_ptr m2 proc j = alloc_ptr m1 proc j" by (simp add: alloc_ptr_def slot_off(1) del: of_nat_add)
    with False show ?thesis using same_process_fields(2) [OF t(2) that] by simp
  qed
  ultimately show ?thesis using that [of ?k'] by simp
qed

text \<open>The used slots hold live blocks.\<close>

definition slots_live :: "'a machine_scheme \<Rightarrow> u32 \<Rightarrow> bool" where
  "slots_live k proc \<longleftrightarrow> (\<forall>j < 1024. alloc_ptr (mem k) proc j \<noteq> 0 \<longrightarrow> klive k (alloc_ptr (mem k) proc j) \<noteq> None)"

text \<open>C8. As long as the heap and the table of a process have room, \<open>process_malloc\<close> gives it a fresh zeroed
  block, records it in the first free slot, and makes exactly its pages accessible to user code in the
  address space of its task, every other page staying as it was. Freeing the block returns it to the heap
  and its slot to the table, and takes the access away again: those pages are then not present.\<close>

theorem process_malloc_free:
  fixes k :: "'a proc_machine_scheme"
  assumes "process_space k proc t c" "slots_live k proc" "good_size n" "kzalloc n k = Some (p, k1)" "p \<noteq> 0"
    and "find_slot (mem k) proc 0 0 1024 = Some i"
  shows "\<exists>k'. process_malloc proc n k = Some (p, k') \<and> klive k' = (klive k)(p \<mapsto> nblocks n) \<and>
    (\<forall>b. in_range b p (unat n) \<longrightarrow> mem k' b = 0) \<and> alloc_ptr (mem k') proc i = p \<and> alloc_size (mem k') proc i = n \<and>
    (\<forall>w. page_al w \<longrightarrow> entry_of (mem k') c w = (if in_range w p (4096 * nblocks n) then w OR user_flags else entry_of (mem k) c w)) \<and>
    process_space k' proc t c \<and> slots_live k' proc \<and>
    kernel_heap (process_free proc p k') = kernel_heap k \<and>
    (\<forall>j < 1024. alloc_ptr (mem (process_free proc p k')) proc j = alloc_ptr (mem k) proc j) \<and>
    (\<forall>w. page_al w \<longrightarrow> entry_of (mem (process_free proc p k')) c w = (if in_range w p (4096 * nblocks n) then w else entry_of (mem k) c w))"
proof -
  from process_malloc_ok [OF assms(1,3-6)] obtain k'
    where m: "process_malloc proc n k = Some (p, k')" "process_space k' proc t c" "k' = k1\<lparr>mem := mem k'\<rparr>"
      "\<And>w. page_al w \<Longrightarrow> entry_of (mem k') c w = (if in_range w p (4096 * nblocks n) then w OR user_flags else entry_of (mem k) c w)"
      "\<And>b. in_range b p (unat n) \<Longrightarrow> mem k' b = 0"
      "\<And>j. j < 1024 \<Longrightarrow> alloc_ptr (mem k') proc j = (if j = i then p else alloc_ptr (mem k) proc j)"
      "alloc_size (mem k') proc i = n" by blast
  have wf: "kwf k" using assms(1) by (simp add: process_space_def owns_chunk_def)
  note r = kzalloc_region [OF wf assms(3-5)]
  note fs = find_slot_Some [OF assms(6)]
  have lv: "klive k' = (klive k)(p \<mapsto> nblocks n)" using r(2) arg_cong [OF m(3), of klive] by simp
  have gm: "kgeom k' = kgeom k" using kzalloc_geom [OF wf assms(3,4)] arg_cong [OF m(3), of kgeom] by simp
  have ne: "alloc_ptr (mem k) proc j \<noteq> p" if "j < 1024" for j
    using assms(2,5) r(3) that by (auto simp: slots_live_def)
  have "find_slot (mem k') proc p 0 1024 = Some i" using fs ne m(6) by (intro find_slot_first) auto
  from process_free_ok [OF m(2) _ assms(3) this m(7)] obtain k2
    where f: "process_free proc p k' = kfree p k2" "process_space k2 proc t c" "k2 = k'\<lparr>mem := mem k2\<rparr>"
      "\<And>w. page_al w \<Longrightarrow> entry_of (mem k2) c w = (if in_range w p (4096 * nblocks n) then w else entry_of (mem k') c w)"
      "\<And>j. j < 1024 \<Longrightarrow> alloc_ptr (mem k2) proc j = (if j = i then 0 else alloc_ptr (mem k') proc j)"
    using lv by auto
  have wf2: "kwf k2" "klive k2 = klive k'" "kgeom k2 = kgeom k"
    using f(2) gm arg_cong [OF f(3), of kgeom] arg_cong [OF f(3), of klive] by (simp_all add: process_space_def owns_chunk_def)
  then have "klive k2 p = Some (nblocks n)" using lv by simp
  from kalloc.release_wf [OF wf2(1) this] kalloc.release_live [OF wf2(1) this]
  have kh: "kernel_heap (kfree p k2) = kernel_heap k"
    using wf wf2 lv r(3) by (intro klive_determines) (auto simp: fun_eq_iff)
  have sl: "slots_live k' proc" using assms(2) m(6) lv by (auto simp: slots_live_def)
  have al: "\<forall>j < 1024. alloc_ptr (mem (process_free proc p k')) proc j = alloc_ptr (mem k) proc j" using f(1,5) m(6) fs by simp
  have en: "\<forall>w. page_al w \<longrightarrow> entry_of (mem (process_free proc p k')) c w = (if in_range w p (4096 * nblocks n) then w else entry_of (mem k) c w)"
    using f(1,4) m(4) by simp
  have "alloc_ptr (mem k') proc i = p" using m(6) fs by simp
  with m(1,2,4,5,7) lv kh f(1) sl al en show ?thesis by auto
qed

section \<open>An example\<close>

lemma chunk_malloc_fresh: "0 < n \<Longrightarrow> n \<le> m \<Longrightarrow> chunk_malloc n (replicate m Free) = Some (0, Used n # replicate (m - n) Free)"
proof -
  assume n: "0 < n" "n \<le> m"
  then obtain m' where m: "m = Suc m'" by (cases m) auto
  have "take n (replicate m Free) = replicate n Free" "drop n (replicate m Free) = replicate (m - n) Free"
    using n by (simp_all add: min_def)
  then show ?thesis using n(1) unfolding m by simp
qed

text \<open>The first three allocations of a booted kernel: a process, a task, an address space.\<close>

lemma sample_process:
  obtains proc k where "kzalloc 12432 (sample_machine (\<lambda>_. 0)) = Some (proc, k)" "kwf k" "klive k proc = Some 4" "kroom k = 25596"
    "mem k = (\<lambda>_. 0)" "kgeom k = (0x01000000, 25600)"
proof -
  let ?k = "sample_machine (\<lambda>_. 0)"
  have rep: "heap_rep (kernel_heap ?k) (replicate 25600 Free)" "h_saddr (kernel_heap ?k) = 0x01000000"
    using kheap_init_rep [of machine4] by (simp_all add: sample_machine_def)
  have g: "good_size 12432" "nblocks 12432 = 4" by (simp_all add: good_size_def nblocks_def)
  have cm: "chunk_malloc 4 (replicate 25600 Free) = Some (0, Used 4 # replicate 25596 Free)" by (subst chunk_malloc_fresh) simp_all
  define h where "h = set_entries (layout (Used 4 # replicate 25596 Free)) (kernel_heap ?k)"
  have m: "heap_malloc (kernel_heap ?k) 12432 = Some (0x01000000, h)"
    using heap_malloc_eq [OF rep(1) g(1)] rep(2) unfolding g(2) cm by (simp add: block_addr_def h_def)
  have hr: "heap_rep h (Used 4 # replicate 25596 Free)" unfolding h_def using rep(1) cm by (rule heap_rep_malloc)
  let ?k1 = "?k\<lparr>kernel_heap := h, mem := memset (mem ?k) 0x01000000 0 12432\<rparr>"
  have z: "kzalloc 12432 ?k = Some (0x01000000, ?k1)" using m by (simp add: kzalloc_Some)
  have wf: "kwf ?k" by (rule sample_machine_fresh)
  have "kroom ?k1 = 25596" using heap_room_chunks [OF hr] by (simp add: kroom_def count_list_Free)
  moreover have "mem ?k1 = (\<lambda>_. 0)" by (auto simp: memset_eq sample_machine_def fun_eq_iff)
  moreover have "kgeom ?k1 = (0x01000000, 25600)"
    using kzalloc_geom [OF wf g(1) z] rep by (simp add: kgeom_def heap_rep_def)
  ultimately show ?thesis
    using that [OF z] kzalloc_region(1,2) [OF wf g(1) z] g(2) by simp
qed

lemma sample_blocks:
  obtains k :: proc_machine and proc t c where "owns_chunk k c" "klive k proc = Some 4" "klive k t = Some 1" "page_al t"
    "t \<notin> set (owned_pages (mem k) c)" "0 < kroom k" "kgeom k = (0x01000000, 25600)"
    "\<And>n. n < 12432 \<Longrightarrow> mem k (proc + of_nat n) = 0"
proof -
  from sample_process obtain proc k1 where k1: "kzalloc 12432 (sample_machine (\<lambda>_. 0)) = Some (proc, k1)" "kwf k1"
    "klive k1 proc = Some 4" "kroom k1 = 25596" "mem k1 = (\<lambda>_. 0)" "kgeom k1 = (0x01000000, 25600)" by blast
  have "0 < kroom k1" "0 < unat (4 :: u32)" "unat (4 :: u32) \<le> 4096" unfolding k1(4) by simp_all
  note room = this
  obtain t k2 where t: "kzalloc 4 k1 = Some (t, k2)" "t \<noteq> 0" "page_al t" "kwf k2"
    "Suc (kroom k2) = kroom k1" "klive k1 t = None" "klive k2 = (klive k1)(t \<mapsto> 1)" "kgeom k2 = kgeom k1" "same_rest k1 k2"
    "\<And>a. in_range a t (unat (4 :: u32)) \<Longrightarrow> mem k2 a = 0"
    "\<And>a. kept k1 a \<Longrightarrow> mem k2 a = mem k1 a \<and> kept k2 a \<and> \<not> in_range a t 4096"
    by (rule kzalloc_small [OF k1(2) room]) (rule that)
  have m2: "mem k2 = (\<lambda>_. 0)" unfolding kzalloc_mem [OF t(1,2)] k1(5) if_cancel ..
  have "1026 \<le> kroom k2" using t(5) unfolding k1(4) by linarith
  from paging_new_4gb_correct' [OF t(4) this, of 3] obtain c and k3 :: proc_machine where c: "owns_chunk k3 c" "kroom k2 = kroom k3 + 1026"
    "\<forall>p \<in> set (owned_pages (mem k3) c). klive k2 p = None"
    "klive k3 = (\<lambda>p. if p \<in> set (owned_pages (mem k3) c) then Some 1 else klive k2 p)" "kgeom k3 = kgeom k2"
    "\<forall>a. (\<forall>p \<in> set (owned_pages (mem k3) c). \<not> in_range a p 4096) \<longrightarrow> mem k3 a = mem k2 a"
    by blast
  have pt: "proc \<noteq> t" using k1(3) t(6) by auto
  have l: "klive k3 proc = Some 4" "klive k3 t = Some 1" "t \<notin> set (owned_pages (mem k3) c)"
    using c(3,4) t(7) k1(3) pt by auto
  have op: "kwf k3" "\<forall>p \<in> set (owned_pages (mem k3) c). klive k3 p = Some 1" using c(1) by (simp_all add: owns_chunk_def)
  have pz: "mem k3 (proc + of_nat n) = 0" if "n < 12432" for n
  proof -
    have "\<forall>p \<in> set (owned_pages (mem k3) c). \<not> in_range (proc + of_nat n) p 4096"
      using process_apart [OF op(1) l(1) _ that] op(2) by blast
    with c(6) m2 show ?thesis by simp
  qed
  have "0 < kroom k3" using c(2) t(5) unfolding k1(4) by linarith
  moreover have "kgeom k3 = (0x01000000, 25600)" using c(5) t(8) k1(6) by simp
  ultimately show ?thesis by (intro that [OF c(1) l(1,2) t(3) l(3)] pz) auto
qed

lemma sample_space:
  obtains k :: proc_machine and proc t c where "process_space k proc t c" "slots_live k proc"
    "find_slot (mem k) proc 0 0 1024 = Some 0" "0 < kroom k" "kgeom k = (0x01000000, 25600)"
proof -
  obtain k3 :: proc_machine and proc t c where c: "owns_chunk k3 c" and l: "klive k3 proc = Some 4" "klive k3 t = Some 1"
    and t: "page_al t" and lt: "t \<notin> set (owned_pages (mem k3) c)" and r: "0 < kroom k3" "kgeom k3 = (0x01000000, 25600)"
    and pz: "\<And>n. n < 12432 \<Longrightarrow> mem k3 (proc + of_nat n) = 0" by (rule sample_blocks) (rule that)
  have wf: "kwf k3" and ck: "chunk_ok (mem k3) c" and op: "\<forall>p \<in> set (owned_pages (mem k3) c). klive k3 p = Some 1"
    using c by (simp_all add: owns_chunk_def)
  define m where "m = store32 (store32 (mem k3) (proc + of_nat 112) t) (t + 4 * of_nat 0) c"
  have ap: "\<not> in_range a proc 16384" if "klive k3 q = Some 1" "in_range a q 4096" for q a
  proof -
    have "q \<noteq> proc" using that(1) l(1) by auto
    then show ?thesis using kalloc.live_disjoint [OF wf that(1) l(1), of a] that(2) by simp
  qed
  have out: "m a = mem k3 a" if "\<not> in_range a proc 16384" "\<not> in_range a t 4096" for a
  proof -
    have "unat proc + 16384 \<le> 4294967296" using kalloc.live_region [OF wf l(1)] by simp
    with that(1) have "112 + 4 \<le> unat (a - proc)" using in_range_diff [of proc 16384 a] by simp
    then have "store32 (mem k3) (proc + of_nat 112) t a = mem k3 a" by (intro store32_off) simp_all
    with store_entry_frame [OF t _ that(2), of 0] show ?thesis by (simp add: m_def)
  qed
  have ow: "m a = mem k3 a" if "p \<in> set (owned_pages (mem k3) c)" "in_range a p 4096" for p a
  proof (rule out)
    show "\<not> in_range a proc 16384" using ap op that by blast
    have "page_al p" "p \<noteq> t" using kalloc.live_region [OF wf, of p 1] op that(1) lt by (auto simp: page_al_def)
    then show "\<not> in_range a t 4096" using pages_disjoint t that(2) by blast
  qed
  note oc = owned_cong [OF ck, of m, OF ow]
  let ?k = "k3\<lparr>mem := m\<rparr>"
  have tp: "store32 m' (t + 4 * of_nat 0) c (proc + of_nat n) = m' (proc + of_nat n)" if "n < 12432" for m' n
    using store_entry_frame [OF t, of 0] process_apart [OF wf l(1,2) that] by simp
  have pb: "m (proc + of_nat n) = 0" if "116 \<le> n" "n < 12432" for n
  proof -
    have "unat (proc + of_nat n - proc) = n" using unat_of_nat_u32 [of n] that by simp
    then have "store32 (mem k3) (proc + of_nat 112) t (proc + of_nat n) = mem k3 (proc + of_nat n)"
      using that by (intro store32_off) simp_all
    with tp [OF that(2)] pz [OF that(2)] show ?thesis by (simp add: m_def)
  qed
  have "same_process proc (store32 (mem k3) (proc + of_nat 112) t) m" using tp by (simp add: same_process_def m_def)
  from same_process_load [OF this, of 112] have "proc_task m proc = t" by (simp add: proc_task_def)
  moreover have "task_page_directory m t = c" by (simp add: task_page_directory_def m_def)
  ultimately have "process_space ?k proc t c"
    using c l lt oc wf by (simp add: process_space_def owns_chunk_def klive_def kwf_def)
  moreover have z: "alloc_ptr m proc j = 0" if "j < 1024" for j
  proof -
    have "m (proc + of_nat (116 + 8 * j + n)) = 0" if "n < 4" for n using that \<open>j < 1024\<close> by (intro pb) simp_all
    from this [of 0] this [of 1] this [of 2] this [of 3] show ?thesis
      by (simp add: alloc_ptr_def alloc_slot_def load32_def ac_simps)
  qed
  moreover have "slots_live ?k proc" using z by (simp add: slots_live_def)
  moreover have "find_slot (mem ?k) proc 0 0 1024 = Some 0" using z by (intro find_slot_first) simp_all
  moreover have "0 < kroom ?k" "kgeom ?k = (0x01000000, 25600)" using r by simp_all
  ultimately show ?thesis using that by blast
qed

theorem process_malloc_free_witness:
  "\<exists>(k :: proc_machine) proc p k'. process_malloc proc 4096 k = Some (p, k') \<and> p \<noteq> 0 \<and> alloc_ptr (mem k') proc 0 = p \<and>
     kernel_heap (process_free proc p k') = kernel_heap k"
proof -
  obtain k :: proc_machine and proc t c where s: "process_space k proc t c" "slots_live k proc"
    "find_slot (mem k) proc 0 0 1024 = Some 0" "0 < kroom k" by (rule sample_space)
  have wf: "kwf k" using s(1) by (simp add: process_space_def owns_chunk_def)
  have n: "0 < unat (4096 :: u32)" "unat (4096 :: u32) \<le> 4096" by simp_all
  from kalloc.page_room [OF wf n s(4)] obtain p k1 where a: "kzalloc 4096 k = Some (p, k1)" "p \<noteq> 0" by blast
  from process_malloc_free [OF s(1,2) good_size_small [OF n] a s(3)] a(2) show ?thesis by blast
qed

end
