(* ===== verification/Copyin.thy ===== *)
theory Copyin
  imports Procmem
begin

text \<open>
  Reading a string of a task, \<open>copy_string_from_task\<close> of \<^verbatim>\<open>src/task/task.c\<close>: the kernel maps a buffer of
  its own into the address space of the task, copies there while that space is loaded, and puts the space
  back as it was.
\<close>

section \<open>Writes elsewhere\<close>

text \<open>The bytes that belong to a process: its structure, its task, its page tables.\<close>

definition part_of :: "'a machine_scheme \<Rightarrow> u32 \<Rightarrow> u32 \<Rightarrow> u32 \<Rightarrow> u32 \<Rightarrow> bool" where
  "part_of k proc t c a \<longleftrightarrow> in_range a proc 16384 \<or> in_range a t 4096 \<or> (\<exists>p \<in> set (owned_pages (mem k) c). in_range a p 4096)"

lemma space_other:
  assumes sp: "process_space k proc t c" and e: "\<And>a. part_of k proc t c a \<Longrightarrow> m a = mem k a"
  shows "process_space (k\<lparr>mem := m\<rparr>) proc t c" "page_al v \<Longrightarrow> entry_of m c v = entry_of (mem k) c v"
    "load32 m c = load32 (mem k) c" "owned_pages m c = owned_pages (mem k) c"
proof -
  have s: "owns_chunk k c" "klive k proc = Some 4" "klive k t = Some 1" "t \<notin> set (owned_pages (mem k) c)"
    "proc_task (mem k) proc = t" "task_page_directory (mem k) t = c" using sp by (simp_all add: process_space_def)
  then have wf: "kwf k" and ck: "chunk_ok (mem k) c" by (simp_all add: owns_chunk_def)
  have sm: "same_process proc (mem k) m"
    unfolding same_process_def using process_byte [OF wf s(2)] e by (simp add: part_of_def)
  have ow: "m a = mem k a" if "p \<in> set (owned_pages (mem k) c)" "in_range a p 4096" for p a
    using that by (intro e) (auto simp: part_of_def)
  note oc = owned_cong [OF ck, of m, OF ow]
  have et: "m a = mem k a" if "in_range a t 4096" for a using that by (intro e) (simp add: part_of_def)
  have al: "page_al t" using kalloc.live_region [OF wf s(3)] by (simp add: page_al_def)
  have "task_page_directory m t = task_page_directory (mem k) t"
    using page_load_cong [OF et al, where j = 0] by (simp add: task_page_directory_def)
  then show "process_space (k\<lparr>mem := m\<rparr>) proc t c"
    using s oc same_process_fields(1) [OF sm] by (simp add: process_space_def owns_chunk_def klive_def kwf_def)
  show "load32 m c = load32 (mem k) c" "owned_pages m c = owned_pages (mem k) c" using oc by simp_all
  show "entry_of m c v = entry_of (mem k) c v" if "page_al v" using oc(1,4) that by (simp add: entry_of_def)
qed

section \<open>Copying through a translation\<close>

lemma vstrncpy_loop_eq:
  assumes "\<And>i. i \<le> n \<Longrightarrow> tr (dest + of_nat i) = dest + of_nat i" "n < 4294967295"
    and "\<And>i. i \<le> length s \<Longrightarrow> m (tr (src + of_nat i)) = (s @ [0]) ! i \<and> \<not> unat (tr (src + of_nat i) - dest) \<le> n" "0 \<notin> set s"
  shows "c_string (vstrncpy_loop tr m dest src n) dest (take n s) \<and>
    (\<forall>a. \<not> unat (a - dest) \<le> n \<longrightarrow> vstrncpy_loop tr m dest src n a = m a)"
  using assms
proof (induction n arbitrary: m dest src s)
  case 0
  then show ?case using "0.prems"(1) [of 0] by (auto simp: unat_eq_0)
next
  case (Suc n)
  have td: "tr dest = dest" using Suc.prems(1) [of 0] by simp
  show ?case
  proof (cases s)
    case Nil
    then have "m (tr src) = 0" using Suc.prems(3) [of 0] by simp
    then show ?thesis using Nil td by (auto simp: unat_eq_0)
  next
    case (Cons x xs)
    have x: "m (tr src) = x" "x \<noteq> 0" using Suc.prems(3) [of 0] Suc.prems(4) Cons by auto
    let ?m = "m(dest := x)" and ?r = "vstrncpy_loop tr (m(dest := x)) (dest + 1) (src + 1) n"
    have "tr (dest + 1 + of_nat i) = dest + 1 + of_nat i" if "i \<le> n" for i
      using Suc.prems(1) [of "Suc i"] that by (simp add: ac_simps)
    moreover have "?m (tr (src + 1 + of_nat i)) = (xs @ [0]) ! i \<and> \<not> unat (tr (src + 1 + of_nat i) - (dest + 1)) \<le> n"
      if "i \<le> length xs" for i
    proof -
      have h: "m (tr (src + 1 + of_nat i)) = (xs @ [0]) ! i" "\<not> unat (tr (src + 1 + of_nat i) - dest) \<le> Suc n"
        using Suc.prems(3) [of "Suc i"] that Cons by (simp_all add: ac_simps)
      then have ne: "tr (src + 1 + of_nat i) \<noteq> dest" by auto
      with h show ?thesis unfolding unat_diff_one [OF ne] by auto
    qed
    moreover have "n < 4294967295" "0 \<notin> set xs" using Suc.prems(2,4) Cons by auto
    ultimately have IH: "c_string ?r (dest + 1) (take n xs) \<and> (\<forall>a. \<not> unat (a - (dest + 1)) \<le> n \<longrightarrow> ?r a = ?m a)"
      by (intro Suc.IH) blast+
    have "\<not> unat (dest - (dest + 1)) \<le> n" unfolding unat_pred_self using Suc.prems(2) by linarith
    then have "?r dest = x" using IH by simp
    moreover have "?r a = m a" if "\<not> unat (a - dest) \<le> Suc n" for a
    proof -
      from that have ne: "a \<noteq> dest" by auto
      from that have "\<not> unat (a - (dest + 1)) \<le> n" unfolding unat_diff_one [OF ne] by linarith
      with IH have "?r a = ?m a" by blast
      with ne show ?thesis by simp
    qed
    moreover have "vstrncpy_loop tr m dest src (Suc n) = ?r" using x td by simp
    ultimately show ?thesis using IH x(2) Cons by (simp add: c_string_Cons)
  qed
qed

section \<open>The address space of the task\<close>

text \<open>What the kernel relies on: the processor translates an address through the entry of its page, when
  that entry is present.\<close>

definition mmu_holds :: "'a task_machine_scheme \<Rightarrow> bool" where
  "mmu_holds k \<longleftrightarrow> (\<forall>m d a. tables_ok m d \<longrightarrow> bit (paging_get m d (page_of a)) 0 \<longrightarrow>
     mmu k m d a = paging_get_physical_address m d a)"

text \<open>The physical address the task means by \<open>a\<close>.\<close>

definition means :: "mem \<Rightarrow> u32 \<Rightarrow> u32 \<Rightarrow> u32" where
  "means m c a = page_of (entry_of m c (page_of a)) + (a - page_of a)"

lemma physical_means: "paging_get_physical_address m (load32 m c) a = means m c a"
  by (simp add: paging_get_physical_address_def means_def entry_of_def lower_page_eq Let_def flip: page_of_def)

lemma mmu_means:
  assumes "mmu_holds k" "chunk_ok m c" "bit (entry_of m c (page_of a)) 0"
  shows "mmu k m (load32 m c) a = means m c a"
  using assms unfolding mmu_holds_def chunk_ok_def entry_of_def physical_means [symmetric] by blast

lemma set_entry:
  assumes sp: "process_space k proc t c" and v: "page_al v"
  obtains m where "paging_set (load32 (mem k) c) v x (mem k) = (0, m)" "tables_frame (load32 (mem k) c) (mem k) m"
    "\<And>w. page_al w \<Longrightarrow> entry_of m c w = (if w = v then x else entry_of (mem k) c w)"
proof -
  have ck: "chunk_ok (mem k) c" using sp by (simp add: process_space_def owns_chunk_def)
  then have ok: "tables_ok (mem k) (load32 (mem k) c)" by (simp add: chunk_ok_def)
  let ?m = "snd (paging_set (load32 (mem k) c) v x (mem k))"
  have "paging_set (load32 (mem k) c) v x (mem k) = (0, ?m)" using v by (simp add: paging_set_eq)
  moreover have f: "tables_frame (load32 (mem k) c) (mem k) ?m" using ok v by (rule paging_set_frame)
  moreover have "entry_of ?m c w = (if w = v then x else entry_of (mem k) c w)" if "page_al w" for w
    using pages.get_put [OF ok v, of x] pages.get_put_other [OF ok v, of w x] that chunk_frame(1) [OF ck f]
    by (simp add: entry_of_def)
  ultimately show ?thesis by (rule that)
qed

text \<open>A string the task can read, in memory that no allocation and no page table will touch.\<close>

definition user_string :: "'a machine_scheme \<Rightarrow> u32 \<Rightarrow> u32 \<Rightarrow> u8 list \<Rightarrow> bool" where
  "user_string k c virt s \<longleftrightarrow> 0 \<notin> set s \<and> (\<forall>i \<le> length s. let a = virt + of_nat i in
     bit (entry_of (mem k) c (page_of a)) 0 \<and> kept k (page_of a) \<and> mem k (means (mem k) c a) = (s @ [0]) ! i \<and>
     kept k (means (mem k) c a) \<and> \<not> in_tables (mem k) (load32 (mem k) c) (means (mem k) c a))"

lemma tmp_byte:
  assumes "page_al (tmp :: u32)" "i < 4096"
  shows "page_of (tmp + of_nat i) = tmp" "in_range (tmp + of_nat i) tmp 4096"
proof -
  from assms(1) obtain q where q: "unat tmp = 4096 * q" by (rule page_alE)
  have u: "unat (tmp + of_nat i) = 4096 * q + i" using page_offset [OF assms] q by simp
  then have "unat (tmp + of_nat i) div 4096 = q" using assms(2) by simp
  with q show "page_of (tmp + of_nat i) = tmp" by (simp add: word_unat_eq_iff page_of_unat)
  from u q assms(2) show "in_range (tmp + of_nat i) tmp 4096" by (simp add: in_range_def)
qed

text \<open>The copy into the buffer \<open>tmp\<close>, and the address space after it.\<close>

lemma copied_in:
  fixes k :: "'a task_machine_scheme"
  assumes sp: "process_space k proc t c" and tmp: "klive k tmp = Some 1" "tmp \<notin> set (owned_pages (mem k) c)" "tmp \<noteq> t"
    and mm: "mmu_holds k" and n: "n < 4096" and s: "0 \<notin> set s"
    and str: "\<And>i. i \<le> length s \<Longrightarrow> bit (entry_of (mem k) c (page_of (virt + of_nat i))) 0 \<and> page_of (virt + of_nat i) \<noteq> tmp \<and>
      mem k (means (mem k) c (virt + of_nat i)) = (s @ [0]) ! i \<and>
      \<not> in_tables (mem k) (load32 (mem k) c) (means (mem k) c (virt + of_nat i)) \<and> \<not> in_range (means (mem k) c (virt + of_nat i)) tmp 4096"
    and m1: "m1 = snd (paging_set (load32 (mem k) c) tmp (tmp OR 7) (mem k))"
    and m2: "m2 = vstrncpy_loop (mmu k m1 (load32 (mem k) c)) m1 tmp virt n"
    and m3: "m3 = snd (paging_set (load32 (mem k) c) tmp (paging_get (mem k) (load32 (mem k) c) tmp) m2)"
  shows "paging_set (load32 (mem k) c) tmp (paging_get (mem k) (load32 (mem k) c) tmp) m2 = (0, m3)"
    "c_string m3 tmp (take n s)" "process_space (k\<lparr>mem := m3\<rparr>) proc t c"
    "page_al w \<Longrightarrow> entry_of m3 c w = entry_of (mem k) c w" "owned_pages m3 c = owned_pages (mem k) c"
    "task_page_directory m1 t = c" "load32 m1 c = load32 (mem k) c"
    "\<not> in_range a tmp 4096 \<Longrightarrow> \<not> in_tables (mem k) (load32 (mem k) c) a \<Longrightarrow> m2 a = mem k a \<and> m3 a = mem k a"
proof -
  let ?d = "load32 (mem k) c"
  have wf: "kwf k" and ck: "chunk_ok (mem k) c" and op: "\<forall>q \<in> set (owned_pages (mem k) c). klive k q = Some 1"
    using sp by (simp_all add: process_space_def owns_chunk_def)
  have al: "page_al tmp" and ut: "unat tmp + 4096 \<le> 4294967296" using kalloc.live_region [OF wf tmp(1)] by (simp_all add: page_al_def)
  from set_entry [OF sp al, of "tmp OR 7"] have f1: "tables_frame ?d (mem k) m1"
    and e1: "\<And>w. page_al w \<Longrightarrow> entry_of m1 c w = (if w = tmp then tmp OR 7 else entry_of (mem k) c w)"
    unfolding m1 by (metis snd_conv)+
  note t1 = space_tables [OF sp f1]
  have ck1: "chunk_ok m1 c" using chunk_frame(2) [OF ck f1] .
  show "task_page_directory m1 t = c" "load32 m1 c = ?d" using t1 by (simp_all add: process_space_def)
  have tr: "mmu k m1 ?d a = means m1 c a" if "bit (entry_of m1 c (page_of a)) 0" for a
    using mmu_means [OF mm ck1 that] t1(4) by simp
  have b7: "bit (tmp OR 7) 0" by (simp add: bit_simps)
  have pt: "page_of (tmp OR 7) = tmp" using page_of_or_any [of 7 tmp] al by (simp add: page_of_self)
  have tb: "mmu k m1 ?d (tmp + of_nat i) = tmp + of_nat i" if "i \<le> n" for i
    using tr [of "tmp + of_nat i"] tmp_byte [OF al, of i] that n al b7 pt by (simp add: e1 means_def)
  have vb: "m1 (mmu k m1 ?d (virt + of_nat i)) = (s @ [0]) ! i \<and> \<not> unat (mmu k m1 ?d (virt + of_nat i) - tmp) \<le> n"
    if "i \<le> length s" for i
  proof -
    note h = str [OF that]
    have "mmu k m1 ?d (virt + of_nat i) = means (mem k) c (virt + of_nat i)"
      using h tr [of "virt + of_nat i"] by (simp add: e1 means_def)
    moreover have "m1 (means (mem k) c (virt + of_nat i)) = mem k (means (mem k) c (virt + of_nat i))"
      using f1 h by (simp add: tables_frame_def)
    moreover have "\<not> unat (means (mem k) c (virt + of_nat i) - tmp) \<le> n"
      using h in_range_diff [OF ut, of "means (mem k) c (virt + of_nat i)"] n by simp
    ultimately show ?thesis using h by simp
  qed
  have "n < 4294967295" using n by simp
  from vstrncpy_loop_eq [of n "mmu k m1 ?d", OF tb this vb s, folded m2]
  have c2: "c_string m2 tmp (take n s)" and o2: "\<And>a. \<not> unat (a - tmp) \<le> n \<Longrightarrow> m2 a = m1 a" by blast+
  have o2': "m2 a = m1 a" if "\<not> in_range a tmp 4096" for a
    using that in_range_diff [OF ut, of a] n by (intro o2) simp
  have alp: "page_al q" if "klive k q = Some 1" for q using kalloc.live_region [OF wf that] by (simp add: page_al_def)
  have tp: "tmp \<noteq> proc" using tmp(1) sp by (auto simp: process_space_def)
  have ap: "\<not> in_range a tmp 4096" if "part_of (k\<lparr>mem := m1\<rparr>) proc t c a" for a
    using that tmp pages_disjoint [OF al, of _ a] alp op kalloc.live_disjoint [OF wf tmp(1), of proc 4 a] tp sp
    by (auto simp: part_of_def t1(3) process_space_def)
  have o2p: "m2 a = mem (k\<lparr>mem := m1\<rparr>) a" if "part_of (k\<lparr>mem := m1\<rparr>) proc t c a" for a
    using o2' [OF ap [OF that]] by simp
  note so = space_other [OF t1(1) o2p]
  have t2: "process_space (k\<lparr>mem := m2\<rparr>) proc t c" "load32 m2 c = ?d" "owned_pages m2 c = owned_pages (mem k) c"
    "\<And>w. page_al w \<Longrightarrow> entry_of m2 c w = entry_of m1 c w" using so t1(3,4) by simp_all
  let ?e = "paging_get (mem k) ?d tmp"
  have e2: "?e = entry_of (mem k) c tmp" by (simp add: entry_of_def)
  obtain m where p3': "paging_set ?d tmp ?e m2 = (0, m)" "tables_frame ?d m2 m"
    "\<And>w. page_al w \<Longrightarrow> entry_of m c w = (if w = tmp then ?e else entry_of m2 c w)"
    by (rule set_entry [OF t2(1) al, of ?e], rule that) (simp_all add: t2(2) cong: if_cong split del: if_split)
  then have "m = m3" unfolding m3 by simp
  note p3 = p3' [unfolded this]
  show "paging_set ?d tmp (paging_get (mem k) ?d tmp) m2 = (0, m3)" by (rule p3(1))
  have f3: "tables_frame (load32 (mem (k\<lparr>mem := m2\<rparr>)) c) (mem (k\<lparr>mem := m2\<rparr>)) m3" using p3(2) t2(2) by simp
  note t3 = space_tables [OF t2(1) f3]
  show "process_space (k\<lparr>mem := m3\<rparr>) proc t c" using t3(1) by simp
  show "owned_pages m3 c = owned_pages (mem k) c" using t3(3) t2(3) by simp
  show "entry_of m3 c w = entry_of (mem k) c w" if "page_al w" using p3(3) t2(4) e1 e2 that by simp
  have it: "in_tables m2 ?d a = in_tables (mem k) ?d a" for a using t2(3) by (auto simp: in_tables_def owned_pages_def t2(2))
  show "\<not> in_range a tmp 4096 \<Longrightarrow> \<not> in_tables (mem k) ?d a \<Longrightarrow> m2 a = mem k a \<and> m3 a = mem k a"
    using o2' f1 p3(2) it by (simp add: tables_frame_def)
  show "c_string m3 tmp (take n s)"
  proof (rule c_string_cong [OF c2])
    fix i
    assume "i \<le> length (take n s)"
    then have "in_range (tmp + of_nat i) tmp 4096" using n by (intro tmp_byte(2) [OF al]) simp
    then have "\<not> in_tables (mem k) ?d (tmp + of_nat i)"
      using in_tables_owned [of "mem k" c] tmp(2) pages_disjoint [OF _ al] alp op by blast
    then show "m3 (tmp + of_nat i) = m2 (tmp + of_nat i)" using p3(2) it by (simp add: tables_frame_def)
  qed
qed

text \<open>The code, its buffer being \<open>tmp\<close>.\<close>

lemma copy_string_eq:
  fixes k :: "'a task_machine_scheme"
  assumes sp: "process_space k1 proc t c" and z: "kzalloc (word_of_int mx) k = Some (tmp, k1)" and tmp: "tmp \<noteq> 0" "page_al tmp"
    and mx: "mx < 4096"
    and m1: "m1 = snd (paging_set (load32 (mem k1) c) tmp (tmp OR 7) (mem k1))"
    and m2: "m2 = vstrncpy_loop (mmu k1 m1 (load32 (mem k1) c)) m1 tmp virt (nat (mx - 1))"
    and m3: "paging_set (load32 (mem k1) c) tmp (paging_get (mem k1) (load32 (mem k1) c) tmp) m2 = (0, m3)"
    and t: "task_page_directory m1 t = c" "load32 m1 c = load32 (mem k1) c"
  obtains K where "copy_string_from_task t virt phys mx k = Some (0, kfree tmp K)" "kernel_heap K = kernel_heap k1"
    "mem K = strncpy m3 phys tmp mx" "cr3 K = load32 m2 (kernel_4gb_chunk k1)" "data_segments K = 0x10"
proof -
  have td: "task_page_directory (mem k1) t = c" using sp by (simp add: process_space_def)
  have f: "PAGING_IS_WRITEABLE OR PAGING_IS_PRESENT OR PAGING_ACCESS_FROM_ALL = 7"
    by (simp add: PAGING_IS_WRITEABLE_def PAGING_IS_PRESENT_def PAGING_ACCESS_FROM_ALL_def)
  have pm: "paging_map c tmp tmp 7 (mem k1) = (0, m1)" using tmp(2) m1 by (simp add: paging_map_eq)
  have e: "copy_string_from_task t virt phys mx k = Some (0, kfree tmp (k1\<lparr>data_segments := 0x10,
      cr3 := load32 m2 (kernel_4gb_chunk k1), current_directory := load32 m2 (kernel_4gb_chunk k1), mem := strncpy m3 phys tmp mx\<rparr>))"
    (is "_ = Some (0, kfree tmp ?K)")
    using mx tmp(1) m3
    by (simp add: copy_string_from_task_def z td f pm paging_switch_def paging_load_directory_def kernel_page_def
        kernel_registers_def translation_def directory_entry_def t m2 [symmetric] status_simps Let_def)
  show ?thesis by (rule that [OF e]) simp_all
qed

text \<open>The bytes an address range names, when no allocation and no page table will touch them.\<close>

definition kernel_bytes :: "'a machine_scheme \<Rightarrow> u32 \<Rightarrow> u32 \<Rightarrow> nat \<Rightarrow> bool" where
  "kernel_bytes k c p n \<longleftrightarrow> (\<forall>j < n. kept k (p + of_nat j) \<and> \<not> in_tables (mem k) (load32 (mem k) c) (p + of_nat j))"

lemma same_rest_mmu:
  fixes k k' :: "'a task_machine_scheme"
  assumes "same_rest k k'"
  shows "mmu k' = mmu k" "kernel_4gb_chunk k' = kernel_4gb_chunk k"
proof -
  have e: "k'\<lparr>kernel_heap := kernel_heap k, mem := mem k\<rparr> = k" using assms by (simp add: same_rest_def)
  show "mmu k' = mmu k" "kernel_4gb_chunk k' = kernel_4gb_chunk k"
    using arg_cong [OF e, of mmu] arg_cong [OF e, of kernel_4gb_chunk] by simp_all
qed

text \<open>Taking a buffer of one page leaves the process, its address space and the kept bytes alone.\<close>

lemma take_buffer:
  assumes sp: "process_space k proc t c" and room: "0 < kroom k" and n: "0 < unat n" "unat n \<le> 4096"
  obtains tmp k1 where "kzalloc n k = Some (tmp, k1)" "tmp \<noteq> 0" "page_al tmp" "klive k tmp = None" "klive k1 = (klive k)(tmp \<mapsto> 1)"
    "kgeom k1 = kgeom k" "same_rest k k1" "\<And>a. kept k a \<Longrightarrow> mem k1 a = mem k a \<and> \<not> in_range a tmp 4096"
    "process_space k1 proc t c" "\<And>v. page_al v \<Longrightarrow> entry_of (mem k1) c v = entry_of (mem k) c v"
    "load32 (mem k1) c = load32 (mem k) c" "owned_pages (mem k1) c = owned_pages (mem k) c"
    "tmp \<noteq> t" "tmp \<notin> set (owned_pages (mem k1) c)" "in_tables (mem k1) (load32 (mem k) c) = in_tables (mem k) (load32 (mem k) c)"
proof -
  have s: "owns_chunk k c" "klive k t = Some 1" using sp by (simp_all add: process_space_def)
  then have wf: "kwf k" and op: "\<forall>q \<in> set (owned_pages (mem k) c). klive k q = Some 1" by (simp_all add: owns_chunk_def)
  obtain tmp k1 where z: "kzalloc n k = Some (tmp, k1)" "tmp \<noteq> 0" "page_al tmp" "kwf k1"
    "Suc (kroom k1) = kroom k" "klive k tmp = None" "klive k1 = (klive k)(tmp \<mapsto> 1)" "kgeom k1 = kgeom k" "same_rest k k1"
    "\<And>a. in_range a tmp (unat n) \<Longrightarrow> mem k1 a = 0"
    "\<And>a. kept k a \<Longrightarrow> mem k1 a = mem k a \<and> kept k1 a \<and> \<not> in_range a tmp 4096"
    by (rule kzalloc_small [OF wf room n]) (rule that)
  note s1 = space_kzalloc [OF sp good_size_small [OF n] z(1,2)]
  have "tmp \<noteq> t" "tmp \<notin> set (owned_pages (mem k1) c)" using z(6) s(2) s1(5) op by auto
  moreover have "in_tables (mem k1) (load32 (mem k) c) = in_tables (mem k) (load32 (mem k) c)"
    using s1(4,5) by (auto simp: in_tables_def owned_pages_def fun_eq_iff)
  ultimately show ?thesis
    using z(11) by (intro that [OF z(1,2,3,6,7,8,9) _ s1(1,3,4,5)]) blast+
qed

text \<open>The string, seen once the buffer is there.\<close>

lemma user_string_buffer:
  assumes us: "user_string k c virt s" and i: "i \<le> length s" and tp: "page_al tmp"
    and kp: "\<And>a. kept k a \<Longrightarrow> mem k1 a = mem k a \<and> \<not> in_range a tmp 4096"
    and en: "\<And>v. page_al v \<Longrightarrow> entry_of (mem k1) c v = entry_of (mem k) c v" and ld: "load32 (mem k1) c = load32 (mem k) c"
    and it: "in_tables (mem k1) (load32 (mem k) c) = in_tables (mem k) (load32 (mem k) c)"
  shows "bit (entry_of (mem k1) c (page_of (virt + of_nat i))) 0 \<and> page_of (virt + of_nat i) \<noteq> tmp \<and>
      mem k1 (means (mem k1) c (virt + of_nat i)) = (s @ [0]) ! i \<and>
      \<not> in_tables (mem k1) (load32 (mem k1) c) (means (mem k1) c (virt + of_nat i)) \<and> \<not> in_range (means (mem k1) c (virt + of_nat i)) tmp 4096"
proof -
  let ?a = "virt + of_nat i"
  have u: "bit (entry_of (mem k) c (page_of ?a)) 0" "kept k (page_of ?a)" "mem k (means (mem k) c ?a) = (s @ [0]) ! i"
    "kept k (means (mem k) c ?a)" "\<not> in_tables (mem k) (load32 (mem k) c) (means (mem k) c ?a)"
    using us i unfolding user_string_def Let_def by blast+
  have "in_range tmp tmp 4096" by (simp add: in_range_def)
  then have "page_of ?a \<noteq> tmp" using kp [OF u(2)] by auto
  moreover have "means (mem k1) c ?a = means (mem k) c ?a" by (simp add: means_def en)
  ultimately show ?thesis using u kp [OF u(4)] by (simp add: en ld it)
qed

lemma copy_string_ok:
  fixes k :: "'a task_machine_scheme"
  assumes sp: "process_space k proc t c" and room: "0 < kroom k" and mm: "mmu_holds k" and mx: "0 < mx" "mx < 4096"
    and us: "user_string k c virt s" and kc: "kernel_bytes k c (kernel_4gb_chunk k) 4"
    and ph: "kernel_bytes k c phys (nat mx)" "\<And>j. j < nat mx \<Longrightarrow> \<not> part_of k proc t c (phys + of_nat j)"
  obtains k' where "copy_string_from_task t virt phys mx k = Some (0, k')" "c_string (mem k') phys (take (nat (mx - 1)) s)"
    "kernel_heap k' = kernel_heap k" "process_space k' proc t c" "\<And>w. page_al w \<Longrightarrow> entry_of (mem k') c w = entry_of (mem k) c w"
    "cr3 k' = load32 (mem k) (kernel_4gb_chunk k)" "data_segments k' = 0x10"
    "\<And>a. kept k a \<Longrightarrow> \<not> in_tables (mem k) (load32 (mem k) c) a \<Longrightarrow> \<not> unat (a - phys) < nat mx \<Longrightarrow> mem k' a = mem k a"
proof -
  have n: "0 < unat (word_of_int mx :: u32)" "unat (word_of_int mx :: u32) \<le> 4096"
  proof -
    have "unat (word_of_int mx :: u32) = nat mx" using mx by (simp add: unsigned_of_int take_bit_int_eq_self)
    then show "0 < unat (word_of_int mx :: u32)" "unat (word_of_int mx :: u32) \<le> 4096" using mx by simp_all
  qed
  obtain tmp and k1 :: "'a task_machine_scheme" where z: "kzalloc (word_of_int mx) k = Some (tmp, k1)" "tmp \<noteq> 0" "page_al tmp"
    "klive k tmp = None" "klive k1 = (klive k)(tmp \<mapsto> 1)" "kgeom k1 = kgeom k" "same_rest k k1"
    "\<And>a. kept k a \<Longrightarrow> mem k1 a = mem k a \<and> \<not> in_range a tmp 4096"
    and s1: "process_space k1 proc t c" "\<And>v. page_al v \<Longrightarrow> entry_of (mem k1) c v = entry_of (mem k) c v"
    "load32 (mem k1) c = load32 (mem k) c" "owned_pages (mem k1) c = owned_pages (mem k) c"
    and tn: "tmp \<noteq> t" "tmp \<notin> set (owned_pages (mem k1) c)" and it: "in_tables (mem k1) (load32 (mem k) c) = in_tables (mem k) (load32 (mem k) c)"
    by (rule take_buffer [OF sp room n]) (rule that)
  let ?d = "load32 (mem k1) c" and ?n = "nat (mx - 1)"
  define m1 where "m1 = snd (paging_set ?d tmp (tmp OR 7) (mem k1))"
  define m2 where "m2 = vstrncpy_loop (mmu k1 m1 ?d) m1 tmp virt ?n"
  define m3 where "m3 = snd (paging_set ?d tmp (paging_get (mem k1) ?d tmp) m2)"
  have mm1: "mmu_holds k1" using mm by (simp add: mmu_holds_def same_rest_mmu [OF z(7)])
  have "klive k1 tmp = Some 1" "?n < 4096" "0 \<notin> set s" using z(5) mx us by (simp_all add: user_string_def)
  note pre = this
  have us1: "bit (entry_of (mem k1) c (page_of (virt + of_nat i))) 0 \<and> page_of (virt + of_nat i) \<noteq> tmp \<and>
      mem k1 (means (mem k1) c (virt + of_nat i)) = (s @ [0]) ! i \<and>
      \<not> in_tables (mem k1) ?d (means (mem k1) c (virt + of_nat i)) \<and> \<not> in_range (means (mem k1) c (virt + of_nat i)) tmp 4096"
    if "i \<le> length s" for i using us that z(3,8) s1(2,3) it by (rule user_string_buffer)
  note ci = copied_in [OF s1(1) pre(1) tn(2,1) mm1 pre(2,3) us1 m1_def m2_def m3_def]
  obtain K where K: "copy_string_from_task t virt phys mx k = Some (0, kfree tmp K)" "kernel_heap K = kernel_heap k1"
    "mem K = strncpy m3 phys tmp mx" "cr3 K = load32 m2 (kernel_4gb_chunk k1)" "data_segments K = 0x10"
    by (rule copy_string_eq [OF s1(1) z(1,2,3) mx(2) m1_def m2_def ci(1,6,7), of phys]) (assumption, assumption, assumption, rule that)
  have out: "m2 a = mem k a \<and> m3 a = mem k a" if "kept k a" "\<not> in_tables (mem k) (load32 (mem k) c) a" for a
    using ci(8) [of a] z(8) [OF that(1)] that(2) by (simp add: s1(3) it)
  have fresh: "\<not> in_range (phys + of_nat j) tmp 4096" if "j < nat mx" for j
    using ph(1) that z(8) by (simp add: kernel_bytes_def)
  have ap: "apart phys (nat mx) tmp (Suc (length (take ?n s)))"
    unfolding apart_def
  proof (intro allI impI)
    fix j l
    assume jl: "j < nat mx" "l < Suc (length (take ?n s))"
    then have "l < 4096" using mx by simp
    from tmp_byte(2) [OF z(3) this] fresh [OF jl(1)] show "phys + of_nat j \<noteq> tmp + of_nat l" by metis
  qed
  have "mx < 2147483648" using mx by simp
  note sc = strncpy_correct' [OF ci(2) ap mx(1) this]
  have far: "mem K a = m3 a" if "\<And>j. j < nat mx \<Longrightarrow> a \<noteq> phys + of_nat j" for a
  proof -
    have "\<not> unat (a - phys) < nat mx"
    proof
      assume "unat (a - phys) < nat mx"
      then show False using that [of "unat (a - phys)"] by simp
    qed
    then show ?thesis using sc K(3) by simp
  qed
  have pk: "part_of (k1\<lparr>mem := m3\<rparr>) proc t c a = part_of k proc t c a" for a
    using ci(5) s1(4) by (simp add: part_of_def)
  have "mem K a = mem (k1\<lparr>mem := m3\<rparr>) a" if "part_of (k1\<lparr>mem := m3\<rparr>) proc t c a" for a
  proof -
    have "mem K a = m3 a" using ph(2) that pk by (intro far) blast
    then show ?thesis by simp
  qed
  note so = space_other [OF ci(3) this]
  let ?k' = "kfree tmp K"
  have wf: "kwf k" "kwf K" "klive K = klive k1" "kgeom K = kgeom k" using sp s1(1) K(2) z(6)
    by (simp_all add: process_space_def owns_chunk_def kwf_def klive_def kgeom_def)
  then have "klive K tmp = Some 1" using z(5) by simp
  note rl = kalloc.release_wf [OF wf(2) this] kalloc.release_live [OF wf(2) this]
  then have lv: "klive ?k' = klive k" using wf(3) z(4,5) by (auto simp: fun_eq_iff)
  have kh: "kernel_heap ?k' = kernel_heap k" using wf rl(1) lv by (intro klive_determines) simp_all
  have "process_space ?k' proc t c"
    using so(1,4) sp s1(4) ci(5) rl(1) lv by (simp add: process_space_def owns_chunk_def)
  moreover have "entry_of (mem K) c w = entry_of (mem k) c w" if "page_al w" for w using so(2) ci(4) s1(2) that by simp
  moreover have "mem K a = mem k a" if "kept k a" "\<not> in_tables (mem k) (load32 (mem k) c) a" "\<not> unat (a - phys) < nat mx" for a
    using sc K(3) out [OF that(1,2)] that(3) by simp
  moreover have "load32 m2 (kernel_4gb_chunk k) = load32 (mem k) (kernel_4gb_chunk k)"
    using kc out by (intro load32_eqI) (simp add: kernel_bytes_def)
  moreover have "cr3 ?k' = cr3 K" "data_segments ?k' = data_segments K" by (simp_all add: kfree_def)
  ultimately show ?thesis
    using K(1,3,4,5) kh sc same_rest_mmu(2) [OF z(7)] by (intro that [of ?k']) simp_all
qed

section \<open>Property\<close>

text \<open>C2. When the processor follows the page tables, \<open>copy_string_from_task\<close> brings a string of the task,
  cut to \<open>mx - 1\<close> characters and terminated, to a buffer of the kernel. It leaves no trace: the heap is as
  it was, every page of the task is mapped as it was (the page of the temporary buffer included), no byte
  in use changes outside the page tables and the buffer, and the kernel runs on its own address space and
  data segments again.\<close>

theorem copy_string_from_task_correct:
  fixes k :: "'a task_machine_scheme"
  assumes "process_space k proc t c" "0 < kroom k" "mmu_holds k" "0 < mx" "mx < 4096"
    and "user_string k c virt s" "kernel_bytes k c (kernel_4gb_chunk k) 4" "kernel_bytes k c phys (nat mx)"
    and "\<And>j. j < nat mx \<Longrightarrow> \<not> part_of k proc t c (phys + of_nat j)"
  shows "\<exists>k'. copy_string_from_task t virt phys mx k = Some (0, k') \<and> c_string (mem k') phys (take (nat (mx - 1)) s) \<and>
    kernel_heap k' = kernel_heap k \<and> process_space k' proc t c \<and>
    (\<forall>w. page_al w \<longrightarrow> entry_of (mem k') c w = entry_of (mem k) c w) \<and>
    (\<forall>a. kept k a \<longrightarrow> \<not> in_tables (mem k) (load32 (mem k) c) a \<longrightarrow> \<not> unat (a - phys) < nat mx \<longrightarrow> mem k' a = mem k a) \<and>
    cr3 k' = directory_entry (mem k) (kernel_4gb_chunk k) \<and> data_segments k' = KERNEL_DATA_SELECTOR"
  by (rule copy_string_ok [OF assms]) (auto simp: directory_entry_def)

text \<open>A process whose own structure, which its address space now shows to it, holds a file name.\<close>

lemma hi_bytes:
  assumes "i \<le> 2"
  shows "store32 m (p + of_nat 116) 0x4948 (p + of_nat (116 + i)) = ([72, 73] @ [0 :: u8]) ! i"
proof -
  have "store32 m q 0x4948 q = 72" "store32 m q 0x4948 (q + 1) = 73" "store32 m q 0x4948 (q + 2) = 0" for q
    by (simp_all add: store32_def)
  note b = this [of "p + 116"]
  consider "i = 0" | "i = 1" | "i = 2" using assms by linarith
  then show ?thesis using b by cases (simp_all add: add.assoc)
qed

lemma naming_process:
  obtains k :: proc_machine and proc t c where "process_space k proc t c" "0 < kroom k" "kgeom k = (0x01000000, 25600)"
    "mmu_holds k" "kernel_4gb_chunk k = proc" "user_string k c (proc + 116) [72, 73]"
proof -
  obtain k :: proc_machine and proc t c where s: "process_space k proc t c" "slots_live k proc"
    "find_slot (mem k) proc 0 0 1024 = Some 0" "0 < kroom k" "kgeom k = (0x01000000, 25600)" by (rule sample_space)
  define m where "m = store32 (mem k) (proc + of_nat 116) 0x4948"
  have o: "116 \<le> (116 :: nat)" "116 + 4 \<le> (12432 :: nat)" by simp_all
  note st = space_store [OF s(1) o, of "0x4948", folded m_def]
  have wf: "kwf k" and lp: "klive k proc = Some 4" and op: "\<forall>q \<in> set (owned_pages (mem k) c). klive k q = Some 1"
    using s(1) by (simp_all add: process_space_def owns_chunk_def)
  have al: "page_al proc" using kalloc.live_region [OF wf lp] by (simp add: page_al_def)
  obtain m' where m': "tables_frame (load32 m c) m m'"
    "\<And>w. page_al w \<Longrightarrow> entry_of m' c w = (if w = proc then proc OR 7 else entry_of m c w)"
    by (rule set_entry [OF st(1) al, of "proc OR 7"], rule that) (simp_all cong: if_cong split del: if_split)
  have f: "tables_frame (load32 (mem (k\<lparr>mem := m\<rparr>)) c) (mem (k\<lparr>mem := m\<rparr>)) m'" using m'(1) by simp
  note ts = space_tables [OF st(1) f]
  let ?k = "k\<lparr>mem := m', mmu := \<lambda>m d a. paging_get_physical_address m d a, kernel_4gb_chunk := proc\<rparr>"
  have sp: "process_space ?k proc t c" using ts(1)
    by (simp add: process_space_def owns_chunk_def kwf_def klive_def)
  have us: "bit (entry_of m' c (page_of b)) 0" "kept ?k (page_of b)" "m' (means m' c b) = ([72, 73] @ [0 :: u8]) ! i"
    "kept ?k (means m' c b)" "\<not> in_tables m' (load32 m' c) (means m' c b)"
    if i: "i \<le> 2" and b: "b = proc + of_nat (116 + i)" for i b
  proof -
    have pb: "page_of b = proc" and pr: "in_range b proc 16384"
      using tmp_byte [OF al, of "116 + i"] i unfolding b by (auto simp: in_range_def)
    have mb: "means m' c b = b"
      using pb al page_of_or_any [of 7 proc] by (simp add: means_def m'(2))
    have nt: "\<not> in_tables m (load32 m c) b"
      using in_tables_owned [of m c b] process_apart [OF wf lp, of _ "116 + i"] op st(5) i unfolding b by auto
    then have "m' b = m b" using m'(1) by (simp add: tables_frame_def)
    moreover have "m b = ([72, 73] @ [0 :: u8]) ! i"
      unfolding b m_def using i by (rule hi_bytes)
    ultimately show "m' (means m' c b) = ([72, 73] @ [0 :: u8]) ! i" using mb by simp
    show "bit (entry_of m' c (page_of b)) 0" using pb al by (simp add: m'(2) bit_simps)
    have "in_range proc proc 16384" by (simp add: in_range_def)
    then show "kept ?k (page_of b)" "kept ?k (means m' c b)" using kept_live [OF lp] pr pb mb by (simp_all add: kept_def kgeom_def klive_def)
    show "\<not> in_tables m' (load32 m' c) (means m' c b)" using nt mb tables_frame_in [OF m'(1)] ts(4) by simp
  qed
  have "user_string ?k c (proc + 116) [72, 73]"
    unfolding user_string_def Let_def using us by (simp add: add.assoc)
  moreover have "mmu_holds ?k" by (simp add: mmu_holds_def)
  moreover have "0 < kroom ?k" "kgeom ?k = (0x01000000, 25600)" using s(4,5) by (simp_all add: kroom_def kgeom_def)
  ultimately show ?thesis using sp by (intro that [of ?k proc t c]) simp_all
qed

theorem copy_string_from_task_correct_witness:
  "\<exists>(k :: proc_machine) k' t virt. copy_string_from_task t virt 0x8000 2 k = Some (0, k') \<and> c_string (mem k') 0x8000 [72] \<and>
     kernel_heap k' = kernel_heap k"
proof -
  obtain k :: proc_machine and proc t c where s: "process_space k proc t c" "0 < kroom k" "kgeom k = (0x01000000, 25600)"
    "mmu_holds k" "kernel_4gb_chunk k = proc" "user_string k c (proc + 116) [72, 73]" by (rule naming_process)
  have wf: "kwf k" and lp: "klive k proc = Some 4" and lt: "klive k t = Some 1"
    and op: "\<forall>q \<in> set (owned_pages (mem k) c). klive k q = Some 1"
    using s(1) by (simp_all add: process_space_def owns_chunk_def)
  have low: "\<not> in_range (0x8000 + of_nat j) q (4096 * l)" if "klive k q = Some l" "j < 2" for q l j
  proof
    assume "in_range (0x8000 + of_nat j) q (4096 * l)"
    from live_in_area [OF wf that(1) this] s(3) that(2) show False
      by (auto simp: in_range_def less_2_cases_iff)
  qed
  have tb: "\<not> in_tables (mem k) (load32 (mem k) c) (0x8000 + of_nat j)" if "j < 2" for j
    using in_tables_owned [of "mem k" c "0x8000 + of_nat j"] low [OF _ that, of _ 1] op by auto
  have kc: "kernel_bytes k c (kernel_4gb_chunk k) 4"
    unfolding kernel_bytes_def s(5)
  proof (intro allI impI conjI)
    fix j :: nat
    assume "j < 4"
    then show "kept k (proc + of_nat j)" using kept_live [OF lp] process_byte [OF wf lp, of j] by simp
    show "\<not> in_tables (mem k) (load32 (mem k) c) (proc + of_nat j)"
      using in_tables_owned [of "mem k" c "proc + of_nat j"] process_apart [OF wf lp, of _ j] op \<open>j < 4\<close> by auto
  qed
  have kp: "kernel_bytes k c 0x8000 (nat 2)"
    using tb s(3) by (auto simp: kernel_bytes_def kept_def in_range_def less_2_cases_iff)
  have pt: "\<not> part_of k proc t c (0x8000 + of_nat j)" if "j < nat 2" for j
    using low [OF lp, of j] low [OF lt, of j] low [of _ 1 j] op that by (auto simp: part_of_def)
  have "0 < (2 :: int)" "(2 :: int) < 4096" by simp_all
  from copy_string_from_task_correct [OF s(1,2,4) this s(6) kc kp pt] show ?thesis by auto
qed

end
