(* ===== verification/Descriptors.thy ===== *)
theory Descriptors
  imports Process
begin

text \<open>
  The two fixed tables of the kernel: the 512 open files of \<^verbatim>\<open>src/fs/file.c\<close> and the 16 processes of
  \<^verbatim>\<open>src/task/process.c\<close>. The invariant \<open>fd_table\<close> says that every used entry is a heap block of its own
  that knows its number; making and freeing a descriptor keep it.
\<close>

section \<open>Finding a free entry\<close>

lemma first_null_None: "first_null xs = None \<longleftrightarrow> 0 \<notin> set xs"
  by (induction xs) auto

lemma first_null_Some: "first_null xs = Some i \<Longrightarrow> i < length xs \<and> xs ! i = 0 \<and> (\<forall>j < i. xs ! j \<noteq> 0)"
proof (induction xs arbitrary: i)
  case (Cons x xs)
  then show ?case by (cases i) (auto split: if_splits simp: less_Suc_eq_0_disj)
qed simp

section \<open>Open files\<close>

definition fd_table :: "'a fs_machine_scheme \<Rightarrow> bool" where
  "fd_table k \<longleftrightarrow> length (file_descriptors k) = 512 \<and>
     (\<forall>i < 512. file_descriptors k ! i \<noteq> 0 \<longrightarrow>
        klive k (file_descriptors k ! i) = Some 1 \<and> desc_index (mem k) (file_descriptors k ! i) = of_nat (i + 1))"

lemma same_rest_files:
  fixes k k' :: "'a fs_machine_scheme"
  assumes "same_rest k k'"
  shows "file_descriptors k' = file_descriptors k" "filesystems k' = filesystems k"
proof -
  have e: "k'\<lparr>kernel_heap := kernel_heap k, mem := mem k\<rparr> = k" using assms by (simp add: same_rest_def)
  show "file_descriptors k' = file_descriptors k" "filesystems k' = filesystems k"
    using arg_cong [OF e, of file_descriptors] arg_cong [OF e, of filesystems] by simp_all
qed

lemma desc_index_frame:
  assumes "page_al d" "\<And>a. in_range a d 4096 \<Longrightarrow> m' a = m a"
  shows "desc_index m' d = desc_index m d"
  using page_load_cong [OF assms(2,1), where j = 0] by (simp add: desc_index_def)

text \<open>A new descriptor takes the first free entry.\<close>

lemma new_descriptor:
  fixes k :: "'a fs_machine_scheme"
  assumes "fd_table k" "kwf k" "0 < kroom k" "first_null (file_descriptors k) = Some i"
  obtains d k' where "file_new_descriptor k = Some (0, d, k'\<lparr>file_descriptors := (file_descriptors k)[i := d]\<rparr>)"
    "d \<noteq> 0" "grows {} k [d] k'" "desc_index (mem k') d = of_nat (i + 1)"
proof -
  have "0 < unat (16 :: u32)" "unat (16 :: u32) \<le> 4096" by simp_all
  from grows_kzalloc [OF assms(2,3) this] obtain d k1
    where d: "kzalloc 16 k = Some (d, k1)" "d \<noteq> 0" "grows {} k [d] k1" by blast
  let ?k' = "k1\<lparr>mem := store32 (mem k1) d (of_nat (i + 1))\<rparr>"
  have al: "page_al d" and out: "\<And>a. kept k a \<Longrightarrow> \<not> in_range a d 4096" using grows_page [OF d(3)] by simp_all
  have "grows {} k [d] ?k'"
  proof (rule grows_mem [OF d(3)])
    show "store32 (mem k1) d (of_nat (i + 1)) a = mem k1 a" if "kept k a" for a
      using store_entry_frame [OF al, of 0 a] out [OF that] by simp
  qed
  moreover have "desc_index (mem ?k') d = of_nat (i + 1)" by (simp add: desc_index_def)
  moreover have "file_new_descriptor k = Some (0, d, ?k'\<lparr>file_descriptors := (file_descriptors k)[i := d]\<rparr>)"
    using d(1) assms(4) same_rest_files(1) [OF same_rest_kzalloc [OF d(1)]]
    by (simp add: file_new_descriptor_def)
  ultimately show ?thesis using that d(2) by blast
qed

lemma fd_table_grows:
  fixes k :: "'a fs_machine_scheme"
  assumes "fd_table k" "kwf k" "grows {} k [d] k'" "d \<noteq> 0" "desc_index (mem k') d = of_nat (i + 1)" "i < 512"
  shows "fd_table (k'\<lparr>file_descriptors := (file_descriptors k)[i := d]\<rparr>)"
proof -
  have live: "klive k' = (klive k)(d \<mapsto> 1)" "klive k d = None" using assms(3) by (auto simp: grows_def fun_eq_iff)
  have "klive k' e = Some 1 \<and> desc_index (mem k') e = desc_index (mem k) e" if "klive k e = Some 1" for e
  proof
    show "klive k' e = Some 1" using that live by auto
    have "page_al e" using kalloc.live_region [OF assms(2) that] by (simp add: page_al_def)
    moreover have "mem k' a = mem k a" if "in_range a e 4096" for a
      using assms(3) kept_live [OF \<open>klive k e = Some 1\<close>, of a] that by (simp add: grows_def)
    ultimately show "desc_index (mem k') e = desc_index (mem k) e" by (rule desc_index_frame)
  qed
  moreover have "klive k' d = Some 1" using live by simp
  moreover have "klive (k'\<lparr>file_descriptors := fs\<rparr>) = klive k'" for fs by (simp add: klive_def)
  ultimately show ?thesis using assms(1,5,6) by (auto simp: fd_table_def nth_list_update)
qed

lemma free_new_descriptor:
  fixes k :: "'a fs_machine_scheme"
  assumes "kwf k" "length (file_descriptors k) = 512" "i < 512" "file_descriptors k ! i = 0"
    and "grows {} k [d] k'" "desc_index (mem k') d = of_nat (i + 1)"
  shows "\<exists>k''. file_free_descriptor d (k'\<lparr>file_descriptors := (file_descriptors k)[i := d]\<rparr>) = Some k'' \<and>
    file_descriptors k'' = file_descriptors k \<and> kernel_heap k'' = kernel_heap k"
proof -
  have "unat (of_nat (i + 1) :: u32) = i + 1" using assms(3) by (intro unat_of_nat_u32) linarith
  moreover from this have "sint (of_nat (i + 1) :: u32) = int (i + 1)" using assms(3) by (subst sint_eq_unat) simp_all
  ultimately have x: "sint (desc_index (mem k') d) - 1 = int i" using assms(6) by simp
  have "kernel_heap (kfree d k') = kernel_heap k" using grows_free(2) [OF assms(1,5), of "[d]"] by simp
  moreover have "(file_descriptors k)[i := 0] = file_descriptors k" using assms(4) list_update_id [of "file_descriptors k" i] by simp
  ultimately show ?thesis using x assms(2,3) by (simp add: file_free_descriptor_def kfree_def)
qed

text \<open>C37. A new descriptor gets the lowest free number, disturbs no open file and keeps the table well
  formed; freeing it gives the table and the heap back. But the file with number 512 can be made and not
  found again: the look-up refuses the number. Without a free entry the result is an error and nothing
  changes.\<close>

theorem file_descriptor_new_get_free:
  fixes k :: "'a fs_machine_scheme"
  assumes "fd_table k" "kwf k" "0 < kroom k"
  shows "case first_null (file_descriptors k) of
      None \<Rightarrow> file_new_descriptor k = Some (- ENOMEM, 0, k)
    | Some i \<Rightarrow> (\<forall>j < i. file_descriptors k ! j \<noteq> 0) \<and>
        (\<exists>d k'. file_new_descriptor k = Some (0, d, k') \<and> d \<noteq> 0 \<and> fd_table k' \<and> desc_index (mem k') d = of_nat (i + 1) \<and>
          (\<forall>fd. file_get_descriptor fd k' =
            (if fd = int i + 1 then if i = 511 then 0 else d else file_get_descriptor fd k)) \<and>
          (\<exists>k''. file_free_descriptor d k' = Some k'' \<and> file_descriptors k'' = file_descriptors k \<and>
             kernel_heap k'' = kernel_heap k))"
proof (cases "first_null (file_descriptors k)")
  case None
  then show ?thesis by (simp add: file_new_descriptor_def)
next
  case (Some i)
  have len: "length (file_descriptors k) = 512" using assms(1) by (simp add: fd_table_def)
  note i = first_null_Some [OF Some, unfolded len]
  from new_descriptor [OF assms Some] obtain d k'
    where n: "file_new_descriptor k = Some (0, d, k'\<lparr>file_descriptors := (file_descriptors k)[i := d]\<rparr>)"
      and d: "d \<noteq> 0" "grows {} k [d] k'" "desc_index (mem k') d = of_nat (i + 1)" by blast
  let ?k = "k'\<lparr>file_descriptors := (file_descriptors k)[i := d]\<rparr>"
  have "fd_table ?k" using fd_table_grows [OF assms(1,2) d(2,1,3)] i by blast
  moreover have "file_get_descriptor fd ?k =
      (if fd = int i + 1 then if i = 511 then 0 else d else file_get_descriptor fd k)" for fd
  proof (cases "fd \<le> 0 \<or> fd \<ge> 512")
    case True
    then show ?thesis using i by (auto simp: file_get_descriptor_def)
  next
    case False
    then have "nat (fd - 1) < 512" "nat (fd - 1) = i \<longleftrightarrow> fd = int i + 1" by auto
    with False i len show ?thesis by (auto simp: file_get_descriptor_def nth_list_update)
  qed
  moreover have "\<exists>k''. file_free_descriptor d ?k = Some k'' \<and> file_descriptors k'' = file_descriptors k \<and>
      kernel_heap k'' = kernel_heap k"
    using free_new_descriptor [OF assms(2) len _ _ d(2,3)] i by blast
  moreover have "desc_index (mem ?k) d = of_nat (i + 1)" using d(3) by simp
  ultimately show ?thesis unfolding Some option.case using n d(1) i by blast
qed

text \<open>The first file of a freshly booted kernel has number 1.\<close>

lemma file_descriptor_new_get_free_witness:
  "\<exists>d k'. file_new_descriptor (sample_machine (\<lambda>_. 0)) = Some (0, d, k') \<and> d \<noteq> 0 \<and> file_get_descriptor 1 k' = d"
proof -
  let ?k = "sample_machine (\<lambda>_. 0)"
  have "fd_table ?k" by (simp add: fd_table_def sample_machine_def)
  moreover have "kwf ?k" "0 < kroom ?k" using booted_machine by (auto simp: kwf_def kroom_def sample_machine_def)
  moreover have "first_null (file_descriptors ?k) = Some 0" by (simp add: sample_machine_def eval_nat_numeral)
  ultimately show ?thesis using file_descriptor_new_get_free [of ?k] by fastforce
qed

section \<open>Processes\<close>

text \<open>C38. The seventeenth program is not refused. A full table of processes gives the positive number of
  the error \<open>EISTKN\<close> as a free slot; the slot is in use, and the loader then reads a variable it never set.
  As long as there is a free slot the lowest is taken, and then it is really free.\<close>

theorem process_table_full:
  assumes "length (processes k) = 16"
  shows "(0 \<notin> set (processes k) \<longrightarrow> process_get_free_slot k = 8 \<and> process_load filename k = None) \<and>
    (0 \<in> set (processes k) \<longrightarrow> 0 \<le> process_get_free_slot k \<and> process_get_free_slot k < 16 \<and>
       process_get (process_get_free_slot k) k = 0 \<and> (\<forall>j. 0 \<le> j \<longrightarrow> j < process_get_free_slot k \<longrightarrow> process_get j k \<noteq> 0))"
proof (cases "first_null (processes k)")
  case None
  then have z: "0 \<notin> set (processes k)" by (simp add: first_null_None)
  have "processes k ! 8 \<in> set (processes k)" using assms by (intro nth_mem) simp
  with z have "processes k ! 8 \<noteq> 0" by metis
  with None z assms show ?thesis
    by (simp add: process_get_free_slot_def process_load_def process_load_for_slot_def process_get_def status_simps)
next
  case (Some i)
  then have "0 \<in> set (processes k)" using first_null_None [of "processes k"] by auto
  moreover have "process_get j k \<noteq> 0" if "0 \<le> j" "j < int i" for j
    using first_null_Some [OF Some] assms that by (auto simp: process_get_def)
  ultimately show ?thesis using first_null_Some [OF Some] assms Some by (simp add: process_get_free_slot_def process_get_def)
qed

lemma process_table_full_witness:
  "process_load 0x8000 ((sample_machine (\<lambda>_. 0))\<lparr>processes := replicate 16 0x20000\<rparr>) = None \<and>
   process_get (process_get_free_slot (sample_machine (\<lambda>_. 0))) (sample_machine (\<lambda>_. 0)) = 0"
proof -
  let ?k = "sample_machine (\<lambda>_. 0)"
  have l: "length (processes ?k) = 16" "length (processes (?k\<lparr>processes := replicate 16 0x20000\<rparr>)) = 16"
    by (simp_all add: sample_machine_def)
  have z: "0 \<in> set (processes ?k)" "0 \<notin> set (processes (?k\<lparr>processes := replicate 16 0x20000\<rparr>))"
    by (simp_all add: sample_machine_def)
  show ?thesis
    using conjunct2 [OF process_table_full [OF l(1)]] conjunct1 [OF process_table_full [OF l(2)]] z by blast
qed

end
