(* ===== verification/Fatread.thy ===== *)
theory Fatread
  imports Keyboard Descriptors
begin

text \<open>
  Reading a file, from \<open>fread\<close> of \<^verbatim>\<open>src/fs/file.c\<close> down to the sectors of the disk: the chain of clusters
  as \<^verbatim>\<open>src/fs/fat/fat16.c\<close> follows it through the file allocation table, and the bytes a read delivers.
\<close>

section \<open>A mounted volume\<close>

text \<open>What a mounted volume is made of: its private structure, the streams on the table and on the
  clusters, the reserved sectors, the sectors of a cluster, the first sector of cluster 2, and a bound on the
  numbers of clusters.\<close>

record fat_geom =
  v_private :: u32
  v_fat :: u32
  v_data :: u32
  v_reserved :: nat
  v_spc :: nat
  v_start :: nat
  v_clusters :: nat

definition cluster_bytes :: "fat_geom \<Rightarrow> nat" where
  "cluster_bytes g = v_spc g * 512"

definition cluster_pos :: "fat_geom \<Rightarrow> nat \<Rightarrow> nat" where
  "cluster_pos g c = (v_start g + (c - 2) * v_spc g) * 512"

text \<open>The position at which the code looks for the table entry of a cluster: it multiplies where it should add.\<close>

definition entry_pos :: "fat_geom \<Rightarrow> nat \<Rightarrow> nat" where
  "entry_pos g c = v_reserved g * 512 * c * 2"

text \<open>The bytes that reading may change besides the buffer: the two streams and the local variable of
  \<open>fat16_get_fat_entry\<close>. \<open>fixed\<close> are the bytes the reader relies on.\<close>

definition scratch :: "'a fs_machine_scheme \<Rightarrow> fat_geom \<Rightarrow> u32 \<Rightarrow> bool" where
  "scratch k g a \<longleftrightarrow> in_range a (v_fat g) 8 \<or> in_range a (v_data g) 8 \<or> in_range a (local_addr k Fat_entry) 2"

definition fixed :: "'a fs_machine_scheme \<Rightarrow> fat_geom \<Rightarrow> u32 \<Rightarrow> bool" where
  "fixed k g a \<longleftrightarrow> in_range a (addr_disk k) 20 \<or> in_range a (v_private g) 92"

definition volume_fields :: "mem \<Rightarrow> u32 \<Rightarrow> fat_geom \<Rightarrow> bool" where
  "volume_fields m d g \<longleftrightarrow> disk_fs_private m d = v_private g \<and> disk_sector_size m d = 512 \<and>
     fat_read_stream m (v_private g) = v_fat g \<and> cluster_read_stream m (v_private g) = v_data g \<and>
     reserved_sectors m (v_private g) = of_nat (v_reserved g) \<and> sectors_per_cluster m (v_private g) = of_nat (v_spc g) \<and>
     dir_ending_sector_pos m (root_directory (v_private g)) = of_nat (v_start g)"

definition fat_volume :: "'a fs_machine_scheme \<Rightarrow> (nat \<Rightarrow> u8) \<Rightarrow> fat_geom \<Rightarrow> bool" where
  "fat_volume k img g \<longleftrightarrow> ata_holds k img \<and> volume_fields (mem k) (addr_disk k) g \<and>
     (\<exists>q. stream_at k (v_fat g) q) \<and> (\<exists>q. stream_at k (v_data g) q) \<and> v_fat g \<noteq> 0 \<and>
     0 < v_spc g \<and> v_spc g < 256 \<and> v_clusters g \<le> 65536 \<and> v_reserved g * 1024 * v_clusters g < 2147483136 \<and>
     (v_start g + v_clusters g * v_spc g) * 512 < 2147483136 \<and>
     unat (addr_disk k) + 20 \<le> 4294967296 \<and> unat (v_private g) + 92 \<le> 4294967296 \<and>
     unat (local_addr k Fat_entry) + 2 \<le> 4294967296 \<and>
     (\<forall>a. fixed k g a \<longrightarrow> \<not> scratch k g a) \<and>
     (\<forall>a. in_range a (v_fat g) 8 \<longrightarrow> \<not> in_range a (v_data g) 8 \<and> \<not> in_range a (local_addr k Fat_entry) 2) \<and>
     (\<forall>a. in_range a (v_data g) 8 \<longrightarrow> \<not> in_range a (local_addr k Fat_entry) 2)"

lemma range_byte: "unat p + n \<le> 4294967296 \<Longrightarrow> i < n \<Longrightarrow> in_range (p + of_nat i) p n"
proof -
  assume h: "unat p + n \<le> 4294967296" "i < n"
  then have "unat (of_nat i :: u32) = i" by (intro unat_of_nat_u32) linarith
  moreover from this h have "unat (p + of_nat i) = unat p + i" by (intro unat_add_small [THEN trans]) simp_all
  ultimately show ?thesis using h by (simp add: in_range_def)
qed

lemma range_load:
  assumes "unat p + n \<le> 4294967296" "\<And>a. in_range a p n \<Longrightarrow> m' a = m a" "i + 4 \<le> n"
  shows "load32 m' (p + of_nat i) = load32 m (p + of_nat i)"
proof (rule load32_eqI)
  fix j :: nat
  assume "j < 4"
  then have "in_range (p + of_nat (i + j)) p n" using assms(1,3) by (intro range_byte) simp_all
  then show "m' (p + of_nat i + of_nat j) = m (p + of_nat i + of_nat j)" using assms(2) by (simp add: add.assoc)
qed

lemma volume_fields_cong:
  assumes "volume_fields m d g" "unat d + 20 \<le> 4294967296" "unat (v_private g) + 92 \<le> 4294967296"
    and "\<And>a. in_range a d 20 \<or> in_range a (v_private g) 92 \<Longrightarrow> m' a = m a"
  shows "volume_fields m' d g"
proof -
  have l: "load32 m' (d + of_nat i) = load32 m (d + of_nat i)" if "i + 4 \<le> 20" for i
    using assms(2) _ that by (rule range_load) (rule assms(4), blast)
  have p: "load32 m' (v_private g + of_nat i) = load32 m (v_private g + of_nat i)" if "i + 4 \<le> 92" for i
    using assms(3) _ that by (rule range_load) (rule assms(4), blast)
  have b: "m' (v_private g + of_nat i) = m (v_private g + of_nat i)" if "i < 92" for i
    using range_byte [OF assms(3) that] assms(4) by blast
  show ?thesis
    using assms(1) l [of 16] l [of 4] p [of 84] p [of 80] p [of 76] b [of 13] b [of 14] b [of 15]
    by (simp add: volume_fields_def disk_fs_private_def disk_sector_size_def fat_read_stream_def cluster_read_stream_def
        reserved_sectors_def sectors_per_cluster_def dir_ending_sector_pos_def load16u_def load8_def load16_def add.assoc)
qed

lemma stream_at_cong:
  assumes "stream_at k s q" "\<And>a. in_range a s 8 \<Longrightarrow> m a = mem k a"
  shows "stream_at (k\<lparr>io_log := l, mem := m\<rparr>) s q"
proof -
  have u: "unat s + 8 \<le> 4294967296" using assms(1) by (simp add: stream_at_def)
  from range_load [OF u assms(2), where i = 0] range_load [OF u assms(2), where i = 4] assms(1) show ?thesis
    by (simp add: stream_at_def stream_pos_def stream_disk_def)
qed

text \<open>A step of the reader: the history of the ports has grown, and memory has changed in scratch bytes and
  in those of \<open>W\<close> only.\<close>

definition reads :: "'a fs_machine_scheme \<Rightarrow> (nat \<Rightarrow> u8) \<Rightarrow> fat_geom \<Rightarrow> u32 set \<Rightarrow> 'a fs_machine_scheme \<Rightarrow> bool" where
  "reads k img g W k' \<longleftrightarrow> fat_volume k' img g \<and> k' = k\<lparr>io_log := io_log k', mem := mem k'\<rparr> \<and>
     (\<forall>a. \<not> scratch k g a \<longrightarrow> a \<notin> W \<longrightarrow> mem k' a = mem k a)"

lemma reads_more:
  assumes "reads k img g W k'"
  shows "scratch k' g = scratch k g" "fixed k' g = fixed k g" "addr_disk k' = addr_disk k"
    "file_descriptors k' = file_descriptors k" "addr_fat16_fs k' = addr_fat16_fs k"
proof -
  have e: "k' = k\<lparr>io_log := io_log k', mem := mem k'\<rparr>" using assms by (simp add: reads_def)
  have "local_addr k' = local_addr k" using arg_cong [OF e, of local_addr] by simp
  moreover show "addr_disk k' = addr_disk k" "file_descriptors k' = file_descriptors k" "addr_fat16_fs k' = addr_fat16_fs k"
    using arg_cong [OF e, of addr_disk] arg_cong [OF e, of file_descriptors] arg_cong [OF e, of addr_fat16_fs] by simp_all
  ultimately show "scratch k' g = scratch k g" "fixed k' g = fixed k g" by (simp_all add: scratch_def fixed_def fun_eq_iff)
qed

lemma reads_trans:
  assumes "reads k img g W k1" "reads k1 img g V k2"
  shows "reads k img g (W \<union> V) k2"
proof -
  have e: "k1 = k\<lparr>io_log := io_log k1, mem := mem k1\<rparr>" "k2 = k1\<lparr>io_log := io_log k2, mem := mem k2\<rparr>"
    using assms by (simp_all add: reads_def)
  have "k2 = k\<lparr>io_log := io_log k2, mem := mem k2\<rparr>" by (subst e(2), subst e(1)) simp
  then show ?thesis using assms reads_more(1) [OF assms(1)] by (simp add: reads_def)
qed

text \<open>Volumes survive what reading writes.\<close>

lemma fat_volume_step:
  assumes v: "fat_volume k img g" and q: "stream_at (k\<lparr>io_log := l, mem := m\<rparr>) (v_fat g) q"
      "stream_at (k\<lparr>io_log := l, mem := m\<rparr>) (v_data g) q'"
    and o: "\<And>a. \<not> scratch k g a \<Longrightarrow> a \<notin> W \<Longrightarrow> m a = mem k a" and W: "\<And>a. fixed k g a \<Longrightarrow> a \<notin> W"
  shows "reads k img g W (k\<lparr>io_log := l, mem := m\<rparr>)"
proof -
  have "volume_fields m (addr_disk k) g"
  proof (rule volume_fields_cong)
    show "volume_fields (mem k) (addr_disk k) g" "unat (addr_disk k) + 20 \<le> 4294967296" "unat (v_private g) + 92 \<le> 4294967296"
      using v by (simp_all add: fat_volume_def)
    fix a
    assume "in_range a (addr_disk k) 20 \<or> in_range a (v_private g) 92"
    then have "fixed k g a" by (simp add: fixed_def)
    moreover from this have "\<not> scratch k g a" using v by (simp add: fat_volume_def)
    ultimately show "m a = mem k a" using o W by blast
  qed
  moreover have "ata_holds (k\<lparr>io_log := l, mem := m\<rparr>) img" using v by (simp add: fat_volume_def)
  moreover have "scratch (k\<lparr>io_log := l, mem := m\<rparr>) g = scratch k g" "fixed (k\<lparr>io_log := l, mem := m\<rparr>) g = fixed k g"
    by (simp_all add: scratch_def fixed_def fun_eq_iff)
  moreover have "\<exists>q. stream_at (k\<lparr>io_log := l, mem := m\<rparr>) (v_fat g) q" "\<exists>q. stream_at (k\<lparr>io_log := l, mem := m\<rparr>) (v_data g) q"
    using q by blast+
  ultimately show ?thesis using v o by (simp add: reads_def fat_volume_def)
qed

lemma get_fat_entry_ok:
  assumes v: "fat_volume k img g" and c: "c < v_clusters g"
  shows "\<exists>k'. fat16_get_fat_entry (addr_disk k) (of_nat c) k = Some (uint (image_word img (entry_pos g c)), k') \<and>
    reads k img g {} k'"
proof -
  let ?e = "local_addr k Fat_entry" and ?fs = "v_fat g"
  from v obtain q q' where q: "stream_at k ?fs q" "stream_at k (v_data g) q'" by (auto simp: fat_volume_def)
  have f: "volume_fields (mem k) (addr_disk k) g" and ata: "ata_holds k img" and ne: "?fs \<noteq> 0"
    and r: "v_reserved g * 1024 * v_clusters g < 2147483136" "v_clusters g \<le> 65536" using v by (simp_all add: fat_volume_def)
  have ap: "\<not> in_range a (v_data g) 8 \<and> \<not> in_range a ?e 2" if "in_range a ?fs 8" for a using v that by (simp add: fat_volume_def)
  define p where "p = entry_pos g c"
  have "v_reserved g * 1024 * Suc c \<le> v_reserved g * 1024 * v_clusters g" using c by (intro mult_le_mono2) simp
  moreover have "v_reserved g * 1024 * Suc c = p + v_reserved g * 1024" by (simp add: p_def entry_pos_def)
  moreover have "v_reserved g = 0 \<Longrightarrow> p = 0" by (simp add: p_def entry_pos_def)
  ultimately have pl: "p + 2 < 2147483136" using r(1) by (cases "v_reserved g = 0") linarith+
  have pe: "sint (fat16_get_first_fat_sector (mem k) (v_private g) * 512 * of_nat c * 2) = int p"
  proof -
    have "fat16_get_first_fat_sector (mem k) (v_private g) * 512 * of_nat c * 2 = word_of_int (int p)"
      using f by (simp add: fat16_get_first_fat_sector_def volume_fields_def p_def entry_pos_def)
    then show ?thesis using sint_small_int [of "int p"] pl by (simp del: of_int_of_nat_eq)
  qed
  have pw: "1024 * (fat16_get_first_fat_sector (mem k) (v_private g) * of_nat c) = (of_nat p :: u32)"
    using f by (simp add: fat16_get_first_fat_sector_def volume_fields_def p_def entry_pos_def)
  define m2 where "m2 = (store32 (mem k) ?fs (word_of_int (int p)))(?e := 0, ?e + 1 := 0)"
  let ?k = "k\<lparr>mem := m2\<rparr>"
  have al: "aligned4 ?fs" using stream_addr(1) [OF q(1)] .
  have "p < 2147483648" using pl by simp
  from stream_at_moved [OF q(1) this, of "mem k" "io_log k"] have "stream_at (k\<lparr>mem := store32 (mem k) ?fs (word_of_int (int p))\<rparr>) ?fs p"
    by simp
  note s1 = this
  have ue: "unat ?e + 2 \<le> 4294967296" using v by (simp add: fat_volume_def)
  have ein: "in_range ?e ?e 2" "in_range (?e + 1) ?e 2" using range_byte [OF ue, of 0] range_byte [OF ue, of 1] by simp_all
  have m2: "m2 a = store32 (mem k) ?fs (word_of_int (int p)) a" if "\<not> in_range a ?e 2" for a
    using that ein unfolding m2_def by (metis fun_upd_other)
  have st: "stream_at ?k ?fs p" using stream_at_cong [OF s1, of m2 "io_log k"] m2 ap by simp
  have f4: "in_range a ?fs 8" if "in_range a ?fs 4" for a using that by (simp add: in_range_def)
  have ate: "unat (a - ?e) < 2 \<longleftrightarrow> in_range a ?e 2" for a using in_range_diff [OF ue] by simp
  then have ate': "unat (a - ?e) < 2 \<Longrightarrow> \<not> in_range a ?fs 8" for a using ap by blast
  obtain l where l: "diskstreamer_read ?fs ?e (int 2) ?k =
    Some (0, ?k\<lparr>io_log := l, mem := store32 (image_at ?e 2 img p m2) ?fs (word_of_int (int (p + 2)))\<rparr>)"
    using diskstreamer_read_image [OF _ st pl, of img ?e] ate' ata by auto
  define m3 where "m3 = store32 (image_at ?e 2 img p m2) ?fs (word_of_int (int (p + 2)))"
  have m3: "m3 a = (if in_range a ?e 2 then img (p + unat (a - ?e)) else mem k a)" if "\<not> in_range a ?fs 4" for a
    using that m2 [of a] ate [of a] by (auto simp: m3_def store32_frame [OF al] image_at_def)
  have lo: "load16 m3 ?e = image_word img p"
  proof -
    have "\<not> in_range ?e ?fs 4" "\<not> in_range (?e + 1) ?fs 4" using ein ap f4 by blast+
    with m3 [of ?e] m3 [of "?e + 1"] ein show ?thesis by (simp add: load16_def image_word_def)
  qed
  have "fat16_get_fat_entry (addr_disk k) (of_nat c) k = Some (uint (image_word img p), k\<lparr>io_log := l, mem := m3\<rparr>)"
    using f ne l lo [unfolded m3_def m2_def]
    by (simp add: fat16_get_fat_entry_def volume_fields_def diskstreamer_seek_def m2_def m3_def Let_def pw)
  moreover have "reads k img g {} (k\<lparr>io_log := l, mem := m3\<rparr>)"
  proof (rule fat_volume_step [OF v])
    show "stream_at (k\<lparr>io_log := l, mem := m3\<rparr>) ?fs (p + 2)"
    proof -
      have "p + 2 < 2147483648" using pl by simp
      moreover have "image_at ?e 2 img p m2 a = mem ?k a" if "in_range a ?fs 8" for a using ate' that by (auto simp: image_at_def)
      ultimately show ?thesis using stream_at_moved [OF st, of "p + 2" "image_at ?e 2 img p m2" l] by (simp add: m3_def)
    qed
    show "stream_at (k\<lparr>io_log := l, mem := m3\<rparr>) (v_data g) q'"
    proof (rule stream_at_cong [OF q(2)])
      fix a
      assume a: "in_range a (v_data g) 8"
      then have "\<not> in_range a ?e 2" using v by (simp add: fat_volume_def)
      moreover have "\<not> in_range a ?fs 4" using a ap f4 by blast
      ultimately show "m3 a = mem k a" using m3 by simp
    qed
    show "m3 a = mem k a" if "\<not> scratch k g a" "a \<notin> {}" for a
      using m3 [of a] f4 [of a] that by (auto simp: scratch_def)
  qed simp
  ultimately show ?thesis unfolding p_def by blast
qed

section \<open>The clusters the code walks along\<close>

text \<open>The cluster the code takes for the one \<open>n\<close> steps after \<open>c\<close>; \<open>None\<close> if it meets a word that it takes for the
  end. What the format says is further down.\<close>

fun walked :: "(nat \<Rightarrow> u8) \<Rightarrow> fat_geom \<Rightarrow> nat \<Rightarrow> nat \<Rightarrow> nat option" where
  "walked img g c 0 = Some c"
| "walked img g c (Suc n) =
     (let e = image_word img (entry_pos g c) in if bad_entry (uint e) then None else walked img g (unat e) n)"

lemma unat_u16_lt: "unat (w :: u16) < 65536"
  using unsigned_less [of w, where 'a = nat] by simp

text \<open>The first \<open>n\<close> entries looked up are those of clusters within the bound.\<close>

definition walk_in :: "(nat \<Rightarrow> u8) \<Rightarrow> fat_geom \<Rightarrow> nat \<Rightarrow> nat \<Rightarrow> bool" where
  "walk_in img g c n \<longleftrightarrow> (\<forall>j < n. \<forall>c'. walked img g c j = Some c' \<longrightarrow> c' < v_clusters g)"

lemma walk_in_Suc:
  assumes "walk_in img g c (Suc n)"
  shows "c < v_clusters g" "\<not> bad_entry (uint (image_word img (entry_pos g c))) \<Longrightarrow> walk_in img g (unat (image_word img (entry_pos g c))) n"
  using assms by (auto simp: walk_in_def All_less_Suc2 Let_def)

lemma cluster_loop_ok:
  assumes "fat_volume k img g" "walk_in img g c n"
  shows "\<exists>k'. cluster_loop (addr_disk k) (int c) n k =
      Some (case walked img g c n of Some c' \<Rightarrow> int c' | None \<Rightarrow> - EIO, k') \<and> reads k img g {} k'"
  using assms
proof (induction n arbitrary: k c)
  case 0
  have "reads k img g {} k" using 0 by (simp add: reads_def)
  then show ?case by auto
next
  case (Suc n)
  let ?w = "image_word img (entry_pos g c)"
  note ch = walk_in_Suc [OF Suc.prems(2)]
  from get_fat_entry_ok [OF Suc.prems(1) ch(1)] obtain k1 where
    k1: "fat16_get_fat_entry (addr_disk k) (of_nat c) k = Some (uint ?w, k1)" "reads k img g {} k1" by blast
  show ?case
  proof (cases "bad_entry (uint ?w)")
    case True
    then show ?thesis using k1 by simp
  next
    case False
    have "fat_volume k1 img g" "addr_disk k1 = addr_disk k" using k1(2) reads_more(3) [OF k1(2)] by (simp_all add: reads_def)
    note v1 = this
    from Suc.IH [OF v1(1) ch(2) [OF False]] obtain k2 where k2: "cluster_loop (addr_disk k) (int (unat ?w)) n k1 =
      Some (case walked img g (unat ?w) n of Some c' \<Rightarrow> int c' | None \<Rightarrow> - EIO, k2)" "reads k1 img g {} k2"
      unfolding v1(2) by blast
    then show ?thesis using k1 False reads_trans [OF k1(2) k2(2)] by auto
  qed
qed

section \<open>Reading from the clusters\<close>

text \<open>Byte \<open>i\<close> along the walk that begins at cluster \<open>c\<close>.\<close>

definition walked_byte :: "(nat \<Rightarrow> u8) \<Rightarrow> fat_geom \<Rightarrow> nat \<Rightarrow> nat \<Rightarrow> u8" where
  "walked_byte img g c i = img (cluster_pos g (the (walked img g c (i div cluster_bytes g))) + i mod cluster_bytes g)"

text \<open>The walk has the clusters that a read of \<open>n\<close> bytes at offset \<open>p\<close> needs.\<close>

definition walk_covers :: "(nat \<Rightarrow> u8) \<Rightarrow> fat_geom \<Rightarrow> nat \<Rightarrow> nat \<Rightarrow> nat \<Rightarrow> bool" where
  "walk_covers img g c p n \<longleftrightarrow> 
     (\<forall>i < p + n. \<exists>c'. walked img g c (i div cluster_bytes g) = Some c' \<and> 2 \<le> c' \<and> c' < v_clusters g)"

lemma walk_covers_next:
  assumes "walk_covers img g c p n" "0 < n" "0 < cluster_bytes g"
  shows "walk_in img g c (Suc (p div cluster_bytes g))"
    "\<exists>c'. walked img g c (p div cluster_bytes g) = Some c' \<and> 2 \<le> c' \<and> c' < v_clusters g"
proof -
  show "\<exists>c'. walked img g c (p div cluster_bytes g) = Some c' \<and> 2 \<le> c' \<and> c' < v_clusters g"
    using assms(1,2) by (auto simp: walk_covers_def)
  have "\<exists>c'. walked img g c j = Some c' \<and> c' < v_clusters g" if "j \<le> p div cluster_bytes g" for j
  proof -
    have "j * cluster_bytes g \<le> p" using that assms(3) by (simp add: less_eq_div_iff_mult_less_eq)
    then have "j * cluster_bytes g < p + n" using assms(2) by linarith
    then have "\<exists>c'. walked img g c (j * cluster_bytes g div cluster_bytes g) = Some c' \<and> 2 \<le> c' \<and> c' < v_clusters g"
      using assms(1) unfolding walk_covers_def by blast
    then show ?thesis using assms(3) by auto
  qed
  then show "walk_in img g c (Suc (p div cluster_bytes g))" unfolding walk_in_def less_Suc_eq_le by (metis option.inject)
qed

text \<open>A read that starts in the middle of a cluster runs on into the next sectors of the disk, not into the
  next cluster of the file: such a read must end with its cluster.\<close>

definition in_step :: "fat_geom \<Rightarrow> nat \<Rightarrow> nat \<Rightarrow> bool" where
  "in_step g p n \<longleftrightarrow> p mod cluster_bytes g = 0 \<or> p mod cluster_bytes g + n \<le> cluster_bytes g"

lemma volume_sizes:
  assumes "fat_volume k img g"
  shows "size_of_cluster_bytes (addr_disk k) (mem k) = int (cluster_bytes g)" "0 < cluster_bytes g"
    "2 \<le> c \<Longrightarrow> c < v_clusters g \<Longrightarrow> q < 2 * cluster_bytes g \<Longrightarrow> cluster_pos g c + q < 2147483136"
    "2 \<le> c \<Longrightarrow> fat16_cluster_to_sector (mem k) (v_private g) (of_nat c) * 512 = of_nat (cluster_pos g c)"
proof -
  have f: "volume_fields (mem k) (addr_disk k) g" and b: "0 < v_spc g" "v_spc g < 256"
    "(v_start g + v_clusters g * v_spc g) * 512 < 2147483136" using assms by (simp_all add: fat_volume_def)
  have "sint (word_of_int (int (v_spc g * 512)) :: u32) = int (v_spc g * 512)" using b by (intro sint_small_int) linarith+
  then show "size_of_cluster_bytes (addr_disk k) (mem k) = int (cluster_bytes g)"
    using f by (simp add: size_of_cluster_bytes_def volume_fields_def cluster_bytes_def)
  show "0 < cluster_bytes g" using b by (simp add: cluster_bytes_def)
  show "cluster_pos g c + q < 2147483136" if "2 \<le> c" "c < v_clusters g" "q < 2 * cluster_bytes g"
  proof -
    have "(c - 2 + 3) * v_spc g \<le> v_clusters g * v_spc g" using that(1,2) by (intro mult_le_mono1) linarith
    then have "((c - 2) * v_spc g + 3 * v_spc g) * 512 \<le> v_clusters g * v_spc g * 512" by (simp add: add_mult_distrib)
    moreover have "cluster_pos g c = v_start g * 512 + (c - 2) * v_spc g * 512" by (simp add: cluster_pos_def add_mult_distrib)
    moreover have "q < 1024 * v_spc g" using that(3) by (simp add: cluster_bytes_def)
    moreover have "v_start g * 512 + v_clusters g * v_spc g * 512 < 2147483136" using b(3) by (simp add: add_mult_distrib)
    ultimately show ?thesis by (simp add: add_mult_distrib)
  qed
  show "fat16_cluster_to_sector (mem k) (v_private g) (of_nat c) * 512 = of_nat (cluster_pos g c)" if "2 \<le> c"
    using f that by (simp add: fat16_cluster_to_sector_def volume_fields_def cluster_pos_def of_nat_diff)
qed

text \<open>One round of the reader: at most one cluster of bytes.\<close>

lemma read_round:
  assumes v: "fat_volume k img g" and c: "walk_in img g c (p div cluster_bytes g)" and n: "0 < n" and p: "p + n < 2147483648"
    and cl: "walked img g c (p div cluster_bytes g) = Some c'" "2 \<le> c'" "c' < v_clusters g"
    and t: "t = (if cluster_bytes g < n then cluster_bytes g else n)"
    and o: "\<And>a. unat (a - out) < n \<Longrightarrow> \<not> scratch k g a \<and> \<not> fixed k g a"
  obtains k' where "fat_16_read_internal_from_stream (addr_disk k) (v_data g) (int c) (int p) (int n) out k =
      (if t < n then fat_16_read_internal_from_stream (addr_disk k) (v_data g) (int c) (int (p + t)) (int (n - t)) (out + of_nat t) k'
       else Some (0, k'))" "reads k img g {a. unat (a - out) < t} k'"
    "\<And>i. i < t \<Longrightarrow> mem k' (out + of_nat i) = img (cluster_pos g c' + p mod cluster_bytes g + i)"
proof -
  let ?cb = "cluster_bytes g" and ?ds = "v_data g"
  note vs = volume_sizes [OF v]
  from cluster_loop_ok [OF v c] cl obtain k1 where
    k1: "cluster_loop (addr_disk k) (int c) (p div ?cb) k = Some (int c', k1)" "reads k img g {} k1" by auto
  have v1: "fat_volume k1 img g" using k1(2) by (simp add: reads_def)
  note vs1 = volume_sizes [OF v1]
  define pos where "pos = cluster_pos g c' + p mod ?cb"
  have tb: "t \<le> n" "t \<le> ?cb" "0 < t" using t n vs(2) by auto
  have pm: "p mod ?cb < ?cb" using vs(2) by simp
  then have "p mod ?cb + t < 2 * ?cb" using tb by linarith
  from vs(3) [OF cl(2,3) this] have pl: "pos + t < 2147483136" by (simp add: pos_def)
  from v1 obtain q q' where q: "stream_at k1 ?ds q" "stream_at k1 (v_fat g) q'" by (auto simp: fat_volume_def)
  have ata: "ata_holds k1 img" using v1 by (simp add: fat_volume_def)
  have o1: "\<not> scratch k1 g a \<and> \<not> fixed k1 g a" if "unat (a - out) < t" for a
    using o [of a] that tb reads_more(1,2) [OF k1(2)] by simp
  then have od: "\<not> in_range a ?ds 8 \<and> \<not> in_range a (v_fat g) 8" if "unat (a - out) < t" for a using that by (simp add: scratch_def)
  obtain l where l: "diskstreamer_read ?ds out (int t) (snd (diskstreamer_seek ?ds (int pos) k1)) =
    Some (0, k1\<lparr>io_log := l, mem := store32 (image_at out t img pos (mem k1)) ?ds (word_of_int (int (pos + t)))\<rparr>)"
    using diskstreamer_seek_read_image [OF ata q(1) pl, of out] od by blast
  define m3 where "m3 = store32 (image_at out t img pos (mem k1)) ?ds (word_of_int (int (pos + t)))"
  let ?k3 = "k1\<lparr>io_log := l, mem := m3\<rparr>"
  have al: "aligned4 ?ds" using stream_addr(1) [OF q(1)] .
  have d4: "in_range a ?ds 8" if "in_range a ?ds 4" for a using that by (simp add: in_range_def)
  have m3: "m3 a = image_at out t img pos (mem k1) a" if "\<not> in_range a ?ds 8" for a
    unfolding m3_def using that d4 [of a] by (intro store32_frame [OF al]) blast
  have rd: "reads k1 img g {a. unat (a - out) < t} ?k3"
  proof (rule fat_volume_step [OF v1])
    have "image_at out t img pos (mem k1) a = mem k1 a" if "in_range a ?ds 8" for a using that od by (auto simp: image_at_def)
    then show "stream_at ?k3 ?ds (pos + t)" unfolding m3_def using pl by (intro stream_at_moved [OF q(1)]) simp_all
    show "stream_at ?k3 (v_fat g) q'"
    proof (rule stream_at_cong [OF q(2)])
      fix a
      assume a: "in_range a (v_fat g) 8"
      then have "\<not> in_range a ?ds 8" using v1 by (simp add: fat_volume_def)
      with a od m3 show "m3 a = mem k1 a" by (auto simp: image_at_def)
    qed
    show "m3 a = mem k1 a" if "\<not> scratch k1 g a" "a \<notin> {a. unat (a - out) < t}" for a
      using m3 that by (simp add: scratch_def image_at_def)
  qed (use o1 in blast)
  have f: "disk_fs_private (mem k) (addr_disk k) = v_private g" "disk_sector_size (mem k1) (addr_disk k) = 512"
    using v v1 reads_more(3) [OF k1(2)] by (simp_all add: fat_volume_def volume_fields_def)
  have gc: "fat16_get_cluster_for_offset (addr_disk k) (int c) (int p) k = Some (int c', k1)"
    using k1(1) vs(1,2) by (simp add: fat16_get_cluster_for_offset_def sdiv_nat)
  have sp: "fat16_cluster_to_sector (mem k1) (v_private g) (word_of_int (int c')) * disk_sector_size (mem k1) (addr_disk k) +
      word_of_int (int p smod int ?cb) = word_of_int (int pos)"
    using vs1(4) [OF cl(2)] by (simp add: f smod_nat pos_def)
  have ss: "sint (word_of_int (int pos) :: u32) = int pos" using pl by (intro sint_small_int) simp_all
  have tt: "(if int n > int ?cb then int ?cb else int n) = int t" using t by simp
  have st: "fst (diskstreamer_seek ?ds (int pos) k1) = 0" by (simp add: diskstreamer_seek_def)
  have "fat_16_read_internal_from_stream (addr_disk k) ?ds (int c) (int p) (int n) out k =
      (if t < n then fat_16_read_internal_from_stream (addr_disk k) ?ds (int c) (int (p + t)) (int (n - t)) (out + of_nat t) ?k3
       else Some (0, ?k3))"
    using l [folded m3_def] st tb(1)
    by (subst fat_16_read_internal_from_stream.simps)
      (simp only: Let_def f(1) vs(1) gc of_nat_less_0_iff if_False ss Option.bind.bind_lunit prod.case sp ss tt split_beta fst_conv snd_conv, simp add: status_simps of_nat_diff)
  moreover have "mem ?k3 (out + of_nat i) = img (pos + i)" if "i < t" for i
  proof -
    have "unat (of_nat i :: u32) = i" using that tb p by (intro unat_of_nat_u32) linarith
    then have u: "unat (out + of_nat i - out) = i" by simp
    then have "\<not> in_range (out + of_nat i) ?ds 8" using od that by simp
    with m3 u that show ?thesis by (simp add: image_at_def)
  qed
  ultimately show ?thesis using reads_trans [OF k1(2) rd] by (intro that [of ?k3]) (simp_all add: pos_def)
qed

text \<open>The buffer of a read lies outside all the reader uses.\<close>

definition buffer_ok :: "'a fs_machine_scheme \<Rightarrow> fat_geom \<Rightarrow> u32 \<Rightarrow> nat \<Rightarrow> bool" where
  "buffer_ok k g out n \<longleftrightarrow> (\<forall>a. unat (a - out) < n \<longrightarrow> \<not> scratch k g a \<and> \<not> fixed k g a)"

lemma offset_split:
  fixes out a :: u32
  assumes "t \<le> n" "n < 4294967296"
  shows "unat (a - (out + of_nat t)) < n - t \<Longrightarrow> unat (a - out) = t + unat (a - (out + of_nat t))"
proof -
  assume h: "unat (a - (out + of_nat t)) < n - t"
  have u: "unat (of_nat t :: u32) = t" using assms by (intro unat_of_nat_u32) linarith
  have "a - out = of_nat t + (a - (out + of_nat t))" by simp
  moreover have "unat (of_nat t :: u32) + unat (a - (out + of_nat t)) < 2 ^ LENGTH(32)" using h u assms by simp
  ultimately show ?thesis using unat_add_small [of "of_nat t" "a - (out + of_nat t)"] u by metis
qed

lemma buffer_rest: "buffer_ok k g out n \<Longrightarrow> t \<le> n \<Longrightarrow> n < 4294967296 \<Longrightarrow> buffer_ok k g (out + of_nat t) (n - t)"
  unfolding buffer_ok_def using offset_split [of t n _ out] by (metis add_diff_inverse_nat add_less_cancel_left not_less)

lemma buffer_ok_mono: "buffer_ok k g out n \<Longrightarrow> t \<le> n \<Longrightarrow> buffer_ok k g out t"
  unfolding buffer_ok_def using order_less_le_trans by blast

lemma walk_covers_mono: "walk_covers img g c p n \<Longrightarrow> t \<le> n \<Longrightarrow> walk_covers img g c p t"
  by (simp add: walk_covers_def)

lemma walk_covers_rest: "walk_covers img g c p (t + n) \<Longrightarrow> walk_covers img g c (p + t) n"
  by (simp add: walk_covers_def add.assoc)

lemma reads_buffer: "reads k img g W k' \<Longrightarrow> buffer_ok k' g out n = buffer_ok k g out n"
  by (simp add: buffer_ok_def reads_more(1,2) [of k img g W k'])

lemma reads_mono: "reads k img g W k' \<Longrightarrow> W \<subseteq> V \<Longrightarrow> reads k img g V k'"
  by (auto simp: reads_def)

text \<open>What one read delivers is kept by the next one, whose buffer follows.\<close>

lemma reads_join:
  assumes r: "reads k img g {a. unat (a - out) < t} k1" "reads k1 img g {a. unat (a - (out + of_nat t)) < n} k2"
    and b: "buffer_ok k g out (t + n)" and n: "t + n < 4294967296"
    and f: "\<And>i. i < t \<Longrightarrow> mem k1 (out + of_nat i) = f i" "\<And>i. i < n \<Longrightarrow> mem k2 (out + of_nat t + of_nat i) = f (t + i)"
  shows "reads k img g {a. unat (a - out) < t + n} k2" "i < t + n \<Longrightarrow> mem k2 (out + of_nat i) = f i"
proof -
  have "{a. unat (a - out) < t} \<union> {a. unat (a - (out + of_nat t)) < n} \<subseteq> {a. unat (a - out) < t + n}"
    using offset_split [of t "t + n" _ out] n by auto
  with reads_trans [OF r] show "reads k img g {a. unat (a - out) < t + n} k2" by (rule reads_mono)
  show "mem k2 (out + of_nat i) = f i" if "i < t + n"
  proof (cases "i < t")
    case True
    have u: "unat (of_nat i :: u32) = i" "unat (of_nat t :: u32) = t" using that n by (auto intro!: unat_of_nat_u32)
    then have o: "unat (out + of_nat i - out) = i" by simp
    have "\<not> unat (out + of_nat i - (out + of_nat t)) < n"
      using offset_split [of t "t + n" "out + of_nat i" out] n o True by auto
    moreover have "\<not> scratch k1 g (out + of_nat i)" using b o that reads_more(1) [OF r(1)] by (simp add: buffer_ok_def)
    ultimately show ?thesis using r(2) f(1) [OF True] by (simp add: reads_def)
  next
    case False
    then show ?thesis using f(2) [of "i - t"] that by (simp add: add.assoc flip: of_nat_add)
  qed
qed

lemma read_internal_ok:
  assumes "fat_volume k img g" "0 < n" "p + n < 2147483648" "in_step g p n" "walk_covers img g c p n"
    and "buffer_ok k g out n"
  shows "\<exists>k'. fat_16_read_internal_from_stream (addr_disk k) (v_data g) (int c) (int p) (int n) out k = Some (0, k') \<and>
    reads k img g {a. unat (a - out) < n} k' \<and> (\<forall>i < n. mem k' (out + of_nat i) = walked_byte img g c (p + i))"
  using assms
proof (induction n arbitrary: k p out rule: less_induct)
  case (less n)
  let ?cb = "cluster_bytes g"
  define t where "t = (if ?cb < n then ?cb else n)"
  have cb: "0 < ?cb" using volume_sizes(2) [OF less.prems(1)] .
  note cn = walk_covers_next [OF less.prems(5,2) cb]
  from cn(1) have ci: "walk_in img g c (p div ?cb)" unfolding walk_in_def by (meson less_SucI)
  from cn(2) obtain c' where c': "walked img g c (p div ?cb) = Some c'" "2 \<le> c'" "c' < v_clusters g" by blast
  have o: "\<not> scratch k g a \<and> \<not> fixed k g a" if "unat (a - out) < n" for a using less.prems(6) that by (simp add: buffer_ok_def)
  obtain k1 where k1: "fat_16_read_internal_from_stream (addr_disk k) (v_data g) (int c) (int p) (int n) out k =
      (if t < n then fat_16_read_internal_from_stream (addr_disk k) (v_data g) (int c) (int (p + t)) (int (n - t)) (out + of_nat t) k1
       else Some (0, k1))" "reads k img g {a. unat (a - out) < t} k1"
    "\<And>i. i < t \<Longrightarrow> mem k1 (out + of_nat i) = img (cluster_pos g c' + p mod ?cb + i)"
    by (rule read_round [OF less.prems(1) ci less.prems(2,3) c' t_def o]) (assumption, rule that)
  have tn: "t \<le> n" "0 < t" using cb less.prems(2) by (auto simp: t_def)
  have step: "p mod ?cb + i < ?cb" if "i < t" for i
    using less.prems(4) that by (auto simp: in_step_def t_def split: if_splits)
  have fb: "mem k1 (out + of_nat i) = walked_byte img g c (p + i)" if "i < t" for i
  proof -
    note st = step [OF that]
    then have "i < ?cb" by linarith
    then have "(p + i) div ?cb = p div ?cb" using st by (simp add: div_add1_eq [of p i])
    moreover have "(p + i) mod ?cb = p mod ?cb + i" using st by (metis mod_add_left_eq mod_less)
    ultimately show ?thesis using k1(3) [OF that] c'(1) by (simp add: walked_byte_def add.assoc)
  qed
  show ?case
  proof (cases "t < n")
    case False
    then have "t = n" using tn by simp
    then show ?thesis using k1(1,2) fb by auto
  next
    case True
    then have tc: "t = ?cb" by (simp add: t_def split: if_splits)
    then have p0: "p mod ?cb = 0" using less.prems(4) True by (auto simp: in_step_def t_def)
    have v1: "fat_volume k1 img g" "addr_disk k1 = addr_disk k" using k1(2) reads_more(3) [OF k1(2)] by (simp_all add: reads_def)
    have "n - t < n" "0 < n - t" "p + t + (n - t) < 2147483648" "in_step g (p + t) (n - t)" "walk_covers img g c (p + t) (n - t)"
      "buffer_ok k1 g (out + of_nat t) (n - t)"
      using tn True less.prems(3,5,6) p0 reads_buffer [OF k1(2)] buffer_rest [of k g out n t]
      by (auto simp: in_step_def tc walk_covers_def add.assoc)
    from less.IH [OF this(1) v1(1) this(2-6)] obtain k2 where
      k2: "fat_16_read_internal_from_stream (addr_disk k) (v_data g) (int c) (int (p + t)) (int (n - t)) (out + of_nat t) k1 = Some (0, k2)"
      "reads k1 img g {a. unat (a - (out + of_nat t)) < n - t} k2"
      "\<forall>i < n - t. mem k2 (out + of_nat t + of_nat i) = walked_byte img g c (p + t + i)" unfolding v1(2) by blast
    have "buffer_ok k g out (t + (n - t))" "t + (n - t) < 4294967296" using less.prems(3,6) tn by simp_all
    note j = reads_join [OF k1(2) k2(2) this, of "\<lambda>i. walked_byte img g c (p + i)"]
    have "reads k img g {a. unat (a - out) < n} k2" "\<forall>i < n. mem k2 (out + of_nat i) = walked_byte img g c (p + i)"
      using j fb k2(3) tn by (simp_all add: add.assoc)
    then show ?thesis using k1(1) k2(1) True by auto
  qed
qed

section \<open>Files of a FAT16 volume\<close>

text \<open>What the format says: the table begins behind the reserved sectors and has two bytes for each cluster, the
  number of the next cluster of the file or, from \<open>0xFFF8\<close> on, the mark of its end; 0 and 1 and the numbers from
  \<open>0xFFF0\<close> on are no clusters.\<close>

definition fat_entry :: "(nat \<Rightarrow> u8) \<Rightarrow> fat_geom \<Rightarrow> nat \<Rightarrow> nat" where
  "fat_entry img g c = unat (image_word img (v_reserved g * 512 + 2 * c))"

fun file_cluster :: "(nat \<Rightarrow> u8) \<Rightarrow> fat_geom \<Rightarrow> nat \<Rightarrow> nat \<Rightarrow> nat option" where
  "file_cluster img g c 0 = Some c"
| "file_cluster img g c (Suc n) =
     (let e = fat_entry img g c in if 2 \<le> e \<and> e < 0xFFF0 then file_cluster img g e n else None)"

text \<open>Byte \<open>i\<close> of the file whose first cluster is \<open>c\<close>, and files of at least \<open>n\<close> bytes.\<close>

definition file_byte :: "(nat \<Rightarrow> u8) \<Rightarrow> fat_geom \<Rightarrow> nat \<Rightarrow> nat \<Rightarrow> u8" where
  "file_byte img g c i = img (cluster_pos g (the (file_cluster img g c (i div cluster_bytes g))) + i mod cluster_bytes g)"

definition file_covers :: "(nat \<Rightarrow> u8) \<Rightarrow> fat_geom \<Rightarrow> nat \<Rightarrow> nat \<Rightarrow> bool" where
  "file_covers img g c n \<longleftrightarrow>
     (\<forall>i < n. \<exists>c'. file_cluster img g c (i div cluster_bytes g) = Some c' \<and> 2 \<le> c' \<and> c' < v_clusters g)"

text \<open>The code looks for the entry of cluster \<open>c\<close> elsewhere, at \<open>c\<close> times twice the beginning of the table, and takes
  some numbers of clusters for marks. The first \<open>n\<close> links of the file are seen if this does not matter for them.\<close>

definition links_seen :: "(nat \<Rightarrow> u8) \<Rightarrow> fat_geom \<Rightarrow> nat \<Rightarrow> nat \<Rightarrow> bool" where
  "links_seen img g c n \<longleftrightarrow> (\<forall>j < n. \<forall>c'. file_cluster img g c j = Some c' \<longrightarrow>
     unat (image_word img (v_reserved g * 1024 * c')) = fat_entry img g c' \<and>
     fat_entry img g c' \<notin> {0xFF0, 0xFF6, 0xFF7, 0xFF8, 0xFFF})"

lemma links_seen_0 [simp]: "links_seen img g c 0"
  by (simp add: links_seen_def)

lemma links_seen_Suc:
  assumes "links_seen img g c (Suc n)" "2 \<le> fat_entry img g c" "fat_entry img g c < 0xFFF0"
  shows "links_seen img g (fat_entry img g c) n"
  using assms by (auto simp: links_seen_def All_less_Suc2)

lemma walked_file: "links_seen img g c n \<Longrightarrow> j \<le> n \<Longrightarrow> file_cluster img g c j = Some c' \<Longrightarrow> walked img g c j = Some c'"
proof (induction j arbitrary: c n)
  case (Suc j)
  then obtain n' where n': "n = Suc n'" "j \<le> n'" by (cases n) auto
  let ?e = "fat_entry img g c" and ?w = "image_word img (entry_pos g c)"
  have e: "2 \<le> ?e" "?e < 0xFFF0" "file_cluster img g ?e j = Some c'" using Suc.prems(3) by (auto simp: Let_def split: if_splits)
  have u: "unat (image_word img (v_reserved g * 1024 * c)) = ?e" "?e \<notin> {0xFF0, 0xFF6, 0xFF7, 0xFF8, 0xFFF}"
    using Suc.prems(1) n'(1) by (auto simp: links_seen_def)
  have p: "entry_pos g c = v_reserved g * 1024 * c" by (simp add: entry_pos_def)
  have "uint ?w = int ?e" using u(1) by (simp only: p uint_nat)
  then have "\<not> bad_entry (uint ?w)" "unat ?w = ?e" using u(2) e(1) u(1) by (auto simp: bad_entry_def p)
  then show ?case using Suc.IH [OF links_seen_Suc [OF Suc.prems(1) [unfolded n'(1)] e(1,2)] n'(2) e(3)] by (simp add: Let_def)
qed simp

lemma walk_file:
  assumes "file_covers img g c (p + n)" "links_seen img g c ((p + n - 1) div cluster_bytes g)"
  shows "walk_covers img g c p n" "i < p + n \<Longrightarrow> walked_byte img g c i = file_byte img g c i"
proof -
  have w: "\<exists>c'. file_cluster img g c (i div cluster_bytes g) = Some c' \<and> walked img g c (i div cluster_bytes g) = Some c' \<and>
      2 \<le> c' \<and> c' < v_clusters g" if "i < p + n" for i
  proof -
    from assms(1) that obtain c' where c': "file_cluster img g c (i div cluster_bytes g) = Some c'" "2 \<le> c'" "c' < v_clusters g"
      unfolding file_covers_def by blast
    have "i div cluster_bytes g \<le> (p + n - 1) div cluster_bytes g" using that by (intro div_le_mono) linarith
    from walked_file [OF assms(2) this c'(1)] c' show ?thesis by blast
  qed
  then show "walk_covers img g c p n" unfolding walk_covers_def by blast
  show "walked_byte img g c i = file_byte img g c i" if "i < p + n"
    using w [OF that] by (auto simp: walked_byte_def file_byte_def)
qed

text \<open>The first cluster needs no link.\<close>

lemma first_cluster:
  assumes "2 \<le> c" "c < v_clusters g" "0 < n" "n \<le> cluster_bytes g"
  shows "file_covers img g c n" "links_seen img g c ((n - 1) div cluster_bytes g)"
proof -
  have "i div cluster_bytes g = 0" if "i < n" for i using that assms(4) by simp
  then show "file_covers img g c n" using assms(1,2) by (simp add: file_covers_def)
  have "(n - 1) div cluster_bytes g = 0" using assms(3,4) by simp
  then show "links_seen img g c ((n - 1) div cluster_bytes g)" by (simp only: links_seen_0)
qed

lemma first_cluster_step: "(i + 1) * sz \<le> cluster_bytes g \<Longrightarrow> 0 < sz \<Longrightarrow> in_step g (i * sz) sz"
  by (simp add: in_step_def)

section \<open>Open files\<close>

definition open_file :: "'a fs_machine_scheme \<Rightarrow> int \<Rightarrow> u32 \<Rightarrow> u32 \<Rightarrow> nat \<Rightarrow> nat \<Rightarrow> bool" where
  "open_file k fd f item c p \<longleftrightarrow> 1 \<le> fd \<and> c < 65536 \<and> (let desc = file_get_descriptor fd k in desc \<noteq> 0 \<and>
     is_fat16 (desc_filesystem (mem k) desc) k \<and> desc_disk (mem k) desc = addr_disk k \<and> desc_private (mem k) desc = f) \<and>
     fitem_ptr (mem k) (fdesc_item (mem k) f) = item \<and> fat16_get_first_cluster (mem k) item = of_nat c \<and>
     fdesc_pos (mem k) f = of_nat p"

text \<open>The directory item and the descriptor lie outside what a read into the buffer changes.\<close>

definition file_apart :: "'a fs_machine_scheme \<Rightarrow> fat_geom \<Rightarrow> u32 \<Rightarrow> nat \<Rightarrow> u32 \<Rightarrow> u32 \<Rightarrow> bool" where
  "file_apart k g out n f item \<longleftrightarrow> unat item + 32 \<le> 4294967296 \<and> unat f + 8 \<le> 4294967296 \<and>
     (\<forall>a. in_range a item 32 \<or> in_range a f 8 \<longrightarrow> \<not> scratch k g a \<and> \<not> unat (a - out) < n)"

lemma first_cluster_cong:
  assumes "unat item + 32 \<le> 4294967296" "\<And>a. in_range a item 32 \<Longrightarrow> m' a = m a"
  shows "fat16_get_first_cluster m' item = fat16_get_first_cluster m item"
proof -
  have b: "m' (item + of_nat i) = m (item + of_nat i)" if "i < 32" for i using range_byte [OF assms(1) that] assms(2) by blast
  show ?thesis using b [of 20] b [of 21] b [of 26] b [of 27]
    by (simp add: fat16_get_first_cluster_def item_high_cluster_def item_low_cluster_def load16_def add.assoc)
qed

lemma read_loop_ok:
  assumes "fat_volume k img g" "c < 65536" "0 < sz" "p + m * sz < 2147483648" "walk_covers img g c p (m * sz)"
    and "\<And>i. i < m \<Longrightarrow> in_step g (p + i * sz) sz" "buffer_ok k g out (m * sz)" "file_apart k g out (m * sz) f item"
    and "fat16_get_first_cluster (mem k) item = of_nat c"
  shows "\<exists>k'. fat16_read_loop (addr_disk k) item (of_nat p) (of_nat sz) out m k = Some (None, k') \<and>
    reads k img g {a. unat (a - out) < m * sz} k' \<and> (\<forall>i < m * sz. mem k' (out + of_nat i) = walked_byte img g c (p + i))"
  using assms
proof (induction m arbitrary: k p out)
  case 0
  have "reads k img g {} k" using 0 by (simp add: reads_def)
  then show ?case by simp
next
  case (Suc m)
  have le: "sz \<le> Suc m * sz" by simp_all
  have v: "disk_fs_private (mem k) (addr_disk k) = v_private g" "cluster_read_stream (mem k) (v_private g) = v_data g"
    using Suc.prems(1) by (simp_all add: fat_volume_def volume_fields_def)
  have "walk_covers img g c p sz" "in_step g p sz" "buffer_ok k g out sz" "p + sz < 2147483648"
    using walk_covers_mono [OF Suc.prems(5) le] Suc.prems(6) [of 0] buffer_ok_mono [OF Suc.prems(7) le] Suc.prems(4) by simp_all
  from read_internal_ok [OF Suc.prems(1,3) this(4,2,1,3)] obtain k1 where
    k1: "fat_16_read_internal_from_stream (addr_disk k) (v_data g) (int c) (int p) (int sz) out k = Some (0, k1)"
    "reads k img g {a. unat (a - out) < sz} k1" "\<forall>i < sz. mem k1 (out + of_nat i) = walked_byte img g c (p + i)" by blast
  have si: "sint (of_nat n :: u32) = int n" if "n < 2147483648" for n using sint_small_int [of "int n"] that by simp
  have "c < 2147483648" "p < 2147483648" "sz < 2147483648" using Suc.prems(2,4) by simp_all
  note si3 = si [OF this(1)] si [OF this(2)] si [OF this(3)]
  have "fat16_read_internal (addr_disk k) (sint (fat16_get_first_cluster (mem k) item)) (sint (of_nat p :: u32))
      (sint (of_nat sz :: u32)) out k = Some (0, k1)"
    using k1(1) by (simp add: fat16_read_internal_def v Suc.prems(9) si3)
  then have st: "fat16_read_loop (addr_disk k) item (of_nat p) (of_nat sz) out (Suc m) k =
      fat16_read_loop (addr_disk k) item (of_nat (p + sz)) (of_nat sz) (out + of_nat sz) m k1"
    by (simp add: status_simps)
  have w: "\<not> unat (a - (out + of_nat sz)) < m * sz" if "\<not> unat (a - out) < Suc m * sz" for a
    using offset_split [OF le, of a out] Suc.prems(4) that by auto
  have v1: "fat_volume k1 img g" "addr_disk k1 = addr_disk k" using k1(2) reads_more(3) [OF k1(2)] by (simp_all add: reads_def)
  have "p + sz + m * sz < 2147483648" "walk_covers img g c (p + sz) (m * sz)"
    using Suc.prems(4,5) walk_covers_rest [of img g c p sz "m * sz"] by simp_all
  moreover have "in_step g (p + sz + i * sz) sz" if "i < m" for i using Suc.prems(6) [of "Suc i"] that by (simp add: ac_simps)
  moreover have "buffer_ok k1 g (out + of_nat sz) (m * sz)"
    using buffer_rest [OF Suc.prems(7) le] Suc.prems(4) reads_buffer [OF k1(2)] by simp
  moreover have "file_apart k1 g (out + of_nat sz) (m * sz) f item"
    using Suc.prems(8) w reads_more(1) [OF k1(2)] by (simp add: file_apart_def)
  moreover have "fat16_get_first_cluster (mem k1) item = of_nat c"
  proof -
    have "mem k1 a = mem k a" if "in_range a item 32" for a
      using Suc.prems(8) that k1(2) by (auto simp: file_apart_def reads_def)
    then show ?thesis using first_cluster_cong [of item "mem k1" "mem k"] Suc.prems(8,9) by (simp add: file_apart_def)
  qed
  ultimately obtain k2 where k2: "fat16_read_loop (addr_disk k) item (of_nat (p + sz)) (of_nat sz) (out + of_nat sz) m k1 = Some (None, k2)"
    "reads k1 img g {a. unat (a - (out + of_nat sz)) < m * sz} k2"
    "\<forall>i < m * sz. mem k2 (out + of_nat sz + of_nat i) = walked_byte img g c (p + sz + i)"
    using Suc.IH [OF v1(1) Suc.prems(2,3)] unfolding v1(2) by blast
  have "buffer_ok k g out (sz + m * sz)" "sz + m * sz < 4294967296" using Suc.prems(4,7) by simp_all
  note j = reads_join [OF k1(2) k2(2) this, of "\<lambda>i. walked_byte img g c (p + i)"]
  then show ?case using st k2(1,3) k1(3) by (simp add: add.assoc)
qed

lemma fread_eq:
  assumes "open_file k fd f item c p" "0 < sz" "sz < 2147483648" "0 < m" "m < 2147483648"
  shows "fread out (of_nat sz) (of_nat m) fd k = do {
    (err, k) \<leftarrow> fat16_read_loop (addr_disk k) item (of_nat p) (of_nat sz) out m k;
    Some (case err of Some res \<Rightarrow> res | None \<Rightarrow> int m, k) }"
proof -
  have u: "unat (of_nat sz :: u32) = sz" "unat (of_nat m :: u32) = m" using assms by (auto intro!: unat_of_nat_u32)
  then have "(of_nat sz :: u32) \<noteq> 0" "(of_nat m :: u32) \<noteq> 0" using assms(2,4) by (simp_all add: word_unat_eq_iff)
  moreover have "sint (of_nat m :: u32) = int m" using sint_small_int [of "int m"] assms(5) by simp
  ultimately show ?thesis
    using assms(1) u(2) by (simp add: open_file_def fread_def Let_def fat16_read_def cong: option.case_cong)
qed

lemma fread_ok:
  assumes "fat_volume k img g" "open_file k fd f item c p" "file_apart k g out (m * sz) f item" "buffer_ok k g out (m * sz)"
    and "0 < sz" "0 < m" "p + m * sz < 2147483648" "walk_covers img g c p (m * sz)" "\<And>i. i < m \<Longrightarrow> in_step g (p + i * sz) sz"
  shows "\<exists>k'. fread out (of_nat sz) (of_nat m) fd k = Some (int m, k') \<and>
    (\<forall>i < m * sz. mem k' (out + of_nat i) = walked_byte img g c (p + i)) \<and>
    fat_volume k' img g \<and> k' = k\<lparr>io_log := io_log k', mem := mem k'\<rparr> \<and>
    (\<forall>a. \<not> scratch k g a \<longrightarrow> \<not> unat (a - out) < m * sz \<longrightarrow> mem k' a = mem k a) \<and>
    fdesc_pos (mem k') f = of_nat p"
proof -
  have "sz \<le> m * sz" "m \<le> m * sz" using assms(5,6) by simp_all
  then have b: "sz < 2147483648" "m < 2147483648" using assms(7) by linarith+
  have c: "c < 65536" "fat16_get_first_cluster (mem k) item = of_nat c" "fdesc_pos (mem k) f = of_nat p"
    using assms(2) by (simp_all add: open_file_def)
  from read_loop_ok [OF assms(1) c(1) assms(5,7,8,9,4,3) c(2)] obtain k' where
    k': "fat16_read_loop (addr_disk k) item (of_nat p) (of_nat sz) out m k = Some (None, k')"
    "reads k img g {a. unat (a - out) < m * sz} k'" "\<forall>i < m * sz. mem k' (out + of_nat i) = walked_byte img g c (p + i)" by blast
  have "mem k' a = mem k a" if "in_range a f 8" for a using assms(3) k'(2) that by (simp add: file_apart_def reads_def)
  then have "fdesc_pos (mem k') f = of_nat p"
    using c(3) range_load [of f 8 "mem k'" "mem k" 4] assms(3) by (simp add: fdesc_pos_def file_apart_def)
  then show ?thesis
    using k' fread_eq [OF assms(2,5) b(1) assms(6) b(2), of out] by (auto simp: reads_def)
qed

section \<open>An example\<close>

text \<open>A volume of one reserved sector and one sector per cluster, with one open file that starts at cluster 3
  and has a position of 0 or 512.\<close>

definition fat_mem :: "u8 \<Rightarrow> mem" where
  "fat_mem hi = (\<lambda>_. 0)(0x8005 := 2, 0x8011 := 0x60, 0x600D := 1, 0x600E := 1, 0x604C := 10, 0x6051 := 0x91, 0x6055 := 0x90,
     0x9005 := 0x80, 0x9105 := 0x80, 0x7000 := 1, 0x7005 := 0x50, 0x7009 := 0x71, 0x700D := 0x80, 0x7101 := 0x72, 0x7105 := hi, 0x7201 := 0x73,
     0x7204 := 1, 0x731A := 3)"

definition fat_machine :: "(io_event list \<Rightarrow> u16 \<Rightarrow> u16) \<Rightarrow> u8 \<Rightarrow> fs_machine" where
  "fat_machine dw hi = \<lparr>video_mem = (\<lambda>_. 0), terminal_row = 0, terminal_col = 0, kernel_heap = kernel_heap (kheap_init machine4),
     mem = fat_mem hi, current_directory = 0, cr3 = 0, cr0 = 0, io_log = [], dev_b = drive_byte, dev_w = dw, addr_disk = 0x8000,
     addr_fat16_fs = 0x5000, local_addr = (\<lambda>_. 0x4000), filesystems = [0x5000], file_descriptors = 0x7000 # replicate 511 0\<rparr>"

definition sample_geom :: fat_geom where
  "sample_geom = \<lparr>v_private = 0x6000, v_fat = 0x9000, v_data = 0x9100, v_reserved = 1, v_spc = 1, v_start = 10, v_clusters = 300\<rparr>"

lemma fat_machine_volume:
  assumes "ata_holds (fat_machine dw hi) img"
  shows "fat_volume (fat_machine dw hi) img sample_geom"
proof -
  have "volume_fields (mem (fat_machine dw hi)) (addr_disk (fat_machine dw hi)) sample_geom"
    by (simp add: volume_fields_def fat_machine_def sample_geom_def disk_fs_private_def disk_sector_size_def fat_read_stream_def
        cluster_read_stream_def reserved_sectors_def sectors_per_cluster_def dir_ending_sector_pos_def load16u_def load8_def
        load16_def load32_def fat_mem_def)
  moreover have "stream_at (fat_machine dw hi) (v_fat sample_geom) 0" "stream_at (fat_machine dw hi) (v_data sample_geom) 0"
    by (simp_all add: stream_at_def aligned4_def sample_geom_def fat_machine_def stream_pos_def stream_disk_def load32_def fat_mem_def)
  moreover have "fixed (fat_machine dw hi) sample_geom a \<longrightarrow> \<not> scratch (fat_machine dw hi) sample_geom a" for a
    by (auto simp: fixed_def scratch_def fat_machine_def sample_geom_def in_range_def)
  ultimately show ?thesis
    using assms by (auto simp: fat_volume_def) (auto simp: sample_geom_def fat_machine_def in_range_def)
qed

lemma fat_machine_file: "hi \<in> {0, 2} \<Longrightarrow> open_file (fat_machine dw hi) 1 0x7100 0x7300 3 (256 * unat hi)"
  by (auto simp: open_file_def file_get_descriptor_def fat_machine_def is_fat16_def desc_filesystem_def desc_disk_def desc_private_def
      fitem_ptr_def fdesc_item_def fdesc_pos_def fat16_get_first_cluster_def item_high_cluster_def item_low_cluster_def
      load16_def load32_def fat_mem_def)

text \<open>A disk on which each byte has the number of its sector, but for the entry of cluster 3, which is 5, and the
  bytes where the code looks for it.\<close>

definition linked_image :: "nat \<Rightarrow> u8" where
  "linked_image p = (if p = 518 \<or> p = 3072 then 5 else if p = 519 \<or> p = 3073 then 0 else of_nat (p div 512))"

lemma sample_entry: "fat_entry linked_image sample_geom 3 = 5"
  by (simp add: fat_entry_def sample_geom_def image_word_def linked_image_def)

lemma sample_next: "file_cluster linked_image sample_geom 3 (Suc 0) = Some 5"
  using sample_entry by simp

lemma sample_chain:
  "file_covers linked_image sample_geom 3 (0 + 1 * 600)"
  "links_seen linked_image sample_geom 3 ((0 + 1 * 600 - 1) div cluster_bytes sample_geom)"
proof -
  have cb: "cluster_bytes sample_geom = 512" by (simp add: cluster_bytes_def sample_geom_def)
  show "file_covers linked_image sample_geom 3 (0 + 1 * 600)"
    unfolding file_covers_def cb
  proof (intro allI impI)
    fix i :: nat
    assume "i < 0 + 1 * 600"
    then have "i div 512 = 0 \<or> i div 512 = Suc 0" by auto
    then show "\<exists>c'. file_cluster linked_image sample_geom 3 (i div 512) = Some c' \<and> 2 \<le> c' \<and> c' < v_clusters sample_geom"
      using sample_next by (elim disjE) (simp_all only:, simp_all add: sample_geom_def)
  qed
  have "unat (image_word linked_image (v_reserved sample_geom * 1024 * 3)) = 5"
    by (simp add: sample_geom_def image_word_def linked_image_def)
  then show "links_seen linked_image sample_geom 3 ((0 + 1 * 600 - 1) div cluster_bytes sample_geom)"
    by (simp add: links_seen_def cb sample_entry)
qed

lemma sample_bytes: "file_byte linked_image sample_geom 3 0 = 11" "file_byte linked_image sample_geom 3 599 = 13"
proof -
  have cb: "cluster_bytes sample_geom = 512" by (simp add: cluster_bytes_def sample_geom_def)
  show "file_byte linked_image sample_geom 3 0 = 11"
    by (simp add: file_byte_def) (simp add: cluster_pos_def sample_geom_def linked_image_def)
  show "file_byte linked_image sample_geom 3 599 = 13"
    using sample_next by (simp add: file_byte_def cb) (simp add: cluster_pos_def sample_geom_def linked_image_def)
qed

lemma fat_machine_ata: "ata_holds (fat_machine (drive_word img) hi) img"
  by (rule drive_holds) (simp_all add: fat_machine_def)

section \<open>Properties\<close>

text \<open>C4. \<open>fread\<close> on an open file delivers \<open>m\<close> elements of \<open>sz\<close> bytes of the file, at its position and in order, and
  returns \<open>m\<close>. The file is what the FAT16 format says, the clusters from its first one along the table. Each element
  has to lie inside one cluster or to begin one, and the links to further clusters have to be among those that the
  code sees, since it looks for the entries of the table in the wrong places; within the first cluster neither is a
  condition. The read changes the buffer, the streams and a local variable only, and does not advance the position
  of the file.\<close>

theorem fread_correct:
  assumes "fat_volume k img g" "open_file k fd f item c p" "file_apart k g out (m * sz) f item" "buffer_ok k g out (m * sz)"
    and "0 < sz" "0 < m" "p + m * sz < 2147483648" "file_covers img g c (p + m * sz)"
    and "links_seen img g c ((p + m * sz - 1) div cluster_bytes g)" "\<And>i. i < m \<Longrightarrow> in_step g (p + i * sz) sz"
  shows "\<exists>k'. fread out (of_nat sz) (of_nat m) fd k = Some (int m, k') \<and>
    (\<forall>i < m * sz. mem k' (out + of_nat i) = file_byte img g c (p + i)) \<and>
    fat_volume k' img g \<and> k' = k\<lparr>io_log := io_log k', mem := mem k'\<rparr> \<and>
    (\<forall>a. \<not> scratch k g a \<longrightarrow> \<not> unat (a - out) < m * sz \<longrightarrow> mem k' a = mem k a) \<and>
    fdesc_pos (mem k') f = of_nat p"
  using fread_ok [OF assms(1-7) walk_file(1) [OF assms(8,9)] assms(10)] walk_file(2) [OF assms(8,9)] by auto

text \<open>C39. The way from the first cluster of a file to the second: the word at the first cluster's number times twice
  the position of the table decides, wherever the entry of the cluster is. Six of its values, the marks of FAT12 among
  them, are errors; every other value is taken for the next cluster, also \<open>0xFFF8\<close> to \<open>0xFFFF\<close>, with which FAT16
  ends a file.\<close>

theorem next_cluster_lookup:
  assumes "fat_volume k img g" "c < v_clusters g" "cluster_bytes g \<le> p" "p < 2 * cluster_bytes g"
  shows "\<exists>k'. fat16_get_cluster_for_offset (addr_disk k) (int c) (int p) k =
      Some (let w = uint (image_word img (v_reserved g * 1024 * c))
            in if w \<in> {0, 0xFF0, 0xFF6, 0xFF7, 0xFF8, 0xFFF} then - EIO else w, k') \<and>
    fat_volume k' img g \<and> k' = k\<lparr>io_log := io_log k', mem := mem k'\<rparr> \<and> (\<forall>a. \<not> scratch k g a \<longrightarrow> mem k' a = mem k a)"
proof -
  note vs = volume_sizes [OF assms(1)]
  have d: "p div cluster_bytes g = Suc 0" using assms(3,4) vs(2) by (simp add: div_nat_eqI)
  have "walk_in img g c (Suc 0)" using assms(2) by (simp add: walk_in_def)
  from cluster_loop_ok [OF assms(1) this] obtain k1 where
    k1: "cluster_loop (addr_disk k) (int c) (Suc 0) k = Some (case walked img g c (Suc 0) of Some c' \<Rightarrow> int c' | None \<Rightarrow> - EIO, k1)"
    "reads k img g {} k1" by blast
  have "fat16_get_cluster_for_offset (addr_disk k) (int c) (int p) k = cluster_loop (addr_disk k) (int c) (Suc 0) k"
    using vs(1,2) by (simp add: fat16_get_cluster_for_offset_def sdiv_nat d del: cluster_loop.simps)
  moreover have "entry_pos g c = v_reserved g * 1024 * c" by (simp add: entry_pos_def)
  ultimately show ?thesis using k1 by (auto simp: reads_def Let_def bad_entry_def)
qed

theorem fread_correct_witness:
  "\<exists>k'. fread 0xA000 600 1 1 (fat_machine (drive_word linked_image) 0) = Some (1, k') \<and> mem k' 0xA000 = 11 \<and> mem k' (0xA000 + 599) = 13"
proof -
  let ?k = "fat_machine (drive_word linked_image) 0" and ?g = sample_geom
  note v = fat_machine_volume [OF fat_machine_ata]
  have range: "unat (a - 0xA000) < 600 \<longleftrightarrow> in_range a 0xA000 600" for a :: u32 using in_range_diff [of "0xA000" 600 a] by simp
  have ap: "file_apart ?k ?g 0xA000 (1 * 600) 0x7100 0x7300" "buffer_ok ?k ?g 0xA000 (1 * 600)"
    by (auto simp: file_apart_def buffer_ok_def range scratch_def fixed_def sample_geom_def fat_machine_def in_range_def)
  have "in_step ?g (0 + i * 600) 600" if "i < 1" for i :: nat using that by (simp add: in_step_def)
  from fread_correct [OF v fat_machine_file [of 0, simplified] ap _ _ _ sample_chain this] obtain k' where
    k': "fread 0xA000 600 1 1 ?k = Some (1, k')" "\<forall>i < 600. mem k' (0xA000 + of_nat i) = file_byte linked_image ?g 3 i" by auto
  show ?thesis using sample_bytes k'(1) k'(2) [rule_format, of 0] k'(2) [rule_format, of 599] by auto
qed

text \<open>Where each byte has the number of its sector, the entry of cluster 4 is \<open>0x0101\<close>, but \<open>0x0808\<close> is found; where
  the entry is the end of the file, the end is not found.\<close>

theorem next_cluster_lookup_witness:
  "fat_entry linked_image sample_geom 4 = 0x0101 \<and>
   (\<exists>k'. fat16_get_cluster_for_offset 0x8000 4 512 (fat_machine (drive_word linked_image) 0) = Some (0x0808, k')) \<and>
   fat_entry (\<lambda>_. 255) sample_geom 4 = 0xFFFF \<and>
   (\<exists>k'. fat16_get_cluster_for_offset 0x8000 4 512 (fat_machine (drive_word (\<lambda>_. 255)) 0) = Some (0xFFFF, k'))"
proof -
  have g: "4 < v_clusters sample_geom" "cluster_bytes sample_geom \<le> 512" "512 < 2 * cluster_bytes sample_geom"
    by (simp_all add: cluster_bytes_def sample_geom_def)
  have a: "addr_disk (fat_machine dw 0) = 0x8000" for dw by (simp add: fat_machine_def)
  have e: "fat_entry linked_image sample_geom 4 = 0x0101" "fat_entry (\<lambda>_. 255) sample_geom 4 = 0xFFFF"
    "image_word linked_image (v_reserved sample_geom * 1024 * 4) = 0x0808" "image_word (\<lambda>_. 255) (v_reserved sample_geom * 1024 * 4) = 0xFFFF"
    by (simp_all add: fat_entry_def sample_geom_def image_word_def linked_image_def)
  show ?thesis
    using next_cluster_lookup [OF fat_machine_volume [OF fat_machine_ata] g, of linked_image 0]
      next_cluster_lookup [OF fat_machine_volume [OF fat_machine_ata] g, of "\<lambda>_. 255" 0] e by (auto simp: a)
qed

end
