(* ===== verification/Openitem.thy ===== *)
theory Openitem
  imports Fatread
begin

text \<open>
  What \<open>fopen\<close> leaves behind in \<^verbatim>\<open>src/fs/fat/fat16.c\<close>: a \<open>struct fat_item\<close> is a union with a tag, and the
  operations on an open file look at the tag before they use the pointer.
\<close>

section \<open>The union as a type\<close>

datatype open_item = Directory_at u32 | File_at u32

fun open_item_of :: "u32 \<Rightarrow> u32 \<Rightarrow> open_item option" where
  "open_item_of tag p =
     (if tag = FAT_ITEM_TYPE_DIRECTORY then Some (Directory_at p)
      else if tag = FAT_ITEM_TYPE_FILE then Some (File_at p) else None)"

text \<open>The bytes of an item, the directory record of a file included.\<close>

definition item_bytes :: "u32 \<Rightarrow> open_item \<Rightarrow> u32 \<Rightarrow> bool" where
  "item_bytes t it a \<longleftrightarrow> in_range a t 8 \<or> (case it of Directory_at _ \<Rightarrow> False | File_at r \<Rightarrow> in_range a r 32)"

definition typed :: "mem \<Rightarrow> u32 \<Rightarrow> open_item \<Rightarrow> bool" where
  "typed m d it \<longleftrightarrow> (let t = fdesc_item m d in
     open_item_of (fitem_type m t) (fitem_ptr m t) = Some it \<and> aligned4 d \<and> unat d + 8 \<le> 4294967296 \<and>
     unat t + 8 \<le> 4294967296 \<and> (\<forall>r. it = File_at r \<longrightarrow> unat r + 32 \<le> 4294967296) \<and>
     (\<forall>a. item_bytes t it a \<longrightarrow> \<not> in_range a d 8))"

lemma open_item_of_Some:
  "open_item_of tag p = Some (Directory_at q) \<longleftrightarrow> tag = 0 \<and> p = q"
  "open_item_of tag p = Some (File_at q) \<longleftrightarrow> tag = 1 \<and> p = q"
  by auto

lemma item_fields_cong:
  assumes "unat t + 8 \<le> 4294967296" "\<And>a. in_range a t 8 \<Longrightarrow> m' a = m a"
  shows "fitem_type m' t = fitem_type m t" "fitem_ptr m' t = fitem_ptr m t"
  using range_load [OF assms, where i = 0] range_load [OF assms, where i = 4] by (simp_all add: fitem_type_def fitem_ptr_def)

lemma record_fields_cong:
  assumes "unat r + 32 \<le> 4294967296" "\<And>a. in_range a r 32 \<Longrightarrow> m' a = m a"
  shows "item_file_size m' r = item_file_size m r" "item_attributes m' r = item_attributes m r"
  using range_load [OF assms, where i = 28] assms(2) [OF range_byte [OF assms(1), of 11]]
  by (simp_all add: item_file_size_def item_attributes_def)

text \<open>Writing the position of a descriptor.\<close>

lemma pos_addr:
  assumes "aligned4 d" "unat d + 8 \<le> 4294967296"
  shows "aligned4 (d + 4)" "unat (d + 4) = unat d + 4" "d \<noteq> d + 4"
proof -
  show u: "unat (d + 4) = unat d + 4" using assms(2) by (simp add: unat_word_ariths)
  then show "d \<noteq> d + 4" by auto
  show "aligned4 (d + 4)" using assms u by (simp add: aligned4_def)
qed

lemma typed_store_pos:
  assumes "typed m d it"
  shows "typed (store32 m (d + 4) x) d it" "fdesc_pos (store32 m (d + 4) x) d = x" "fdesc_item (store32 m (d + 4) x) d = fdesc_item m d"
proof -
  let ?m = "store32 m (d + 4) x" and ?t = "fdesc_item m d"
  have h: "aligned4 d" "unat d + 8 \<le> 4294967296" "unat ?t + 8 \<le> 4294967296" "\<And>a. item_bytes ?t it a \<Longrightarrow> \<not> in_range a d 8"
    using assms by (simp_all add: typed_def Let_def)
  note p = pos_addr [OF h(1,2)]
  show i: "fdesc_item ?m d = fdesc_item m d" unfolding fdesc_item_def using h(1) p(1,3) by (intro load32_store32_other) auto
  show "fdesc_pos ?m d = x" by (simp add: fdesc_pos_def)
  have f: "?m a = m a" if "item_bytes ?t it a" for a
  proof -
    have "\<not> in_range a (d + 4) 4" using h(4) [OF that] p(2) by (auto simp: in_range_def)
    with p(1) show ?thesis by (rule store32_frame)
  qed
  have e: "\<And>a. in_range a ?t 8 \<Longrightarrow> ?m a = m a" using f by (simp add: item_bytes_def)
  show "typed ?m d it" using item_fields_cong [of ?t ?m m, OF h(3) e] assms i by (simp add: typed_def Let_def del: open_item_of.simps)
qed

lemma seek_file:
  assumes ty: "typed m d (File_at r)"
  shows "fat16_seek d off mode m =
    (if item_file_size m r \<le> off then (- EIO, m)
     else if mode = SEEK_SET then (0, store32 m (d + 4) off)
     else if mode = SEEK_END then (EUNIMP, m)
     else if mode = SEEK_CURR then (0, store32 m (d + 4) (fdesc_pos m d + off)) else (- EINVARG, m))"
proof -
  have "fitem_type m (fdesc_item m d) = 1" "fitem_ptr m (fdesc_item m d) = r"
    using ty unfolding typed_def Let_def open_item_of_Some by simp_all
  then show ?thesis by (simp add: fat16_seek_def Let_def)
qed

text \<open>A status buffer apart from the descriptor and its item.\<close>

definition stat_apart :: "mem \<Rightarrow> u32 \<Rightarrow> open_item \<Rightarrow> u32 \<Rightarrow> bool" where
  "stat_apart m d it st \<longleftrightarrow> aligned4 st \<and> unat st + 8 \<le> 4294967296 \<and>
     (\<forall>a. item_bytes (fdesc_item m d) it a \<or> in_range a d 8 \<longrightarrow> \<not> in_range a st 8)"

lemma stat_file:
  assumes ty: "typed m d (File_at r)" and st: "stat_apart m d (File_at r) st"
  obtains m' where "fat16_stat disk d st m = (0, m')" "stat_file_size m' st = item_file_size m r"
    "stat_flags m' st = (if item_attributes m r AND FAT_FILE_READ_ONLY \<noteq> 0 then FILE_STAT_READ_ONLY else 0)"
    "\<And>a. \<not> in_range a st 8 \<Longrightarrow> m' a = m a"
proof -
  have i: "fitem_type m (fdesc_item m d) = 1" "fitem_ptr m (fdesc_item m d) = r" and ur: "unat r + 32 \<le> 4294967296"
    using ty unfolding typed_def Let_def open_item_of_Some by simp_all
  have s: "aligned4 st" "unat st + 8 \<le> 4294967296" using st by (simp_all add: stat_apart_def)
  note p = pos_addr [OF s]
  have fr: "store32 f a x b = f b" if "a \<in> {st, st + 4}" "\<not> in_range b st 8" for f a x b
    using that s(1) p(1,2) by (auto intro!: store32_frame simp: in_range_def)
  define m1 where "m1 = store32 (store32 m (st + 4) (item_file_size m r)) st 0"
  have m1: "m1 a = m a" if "\<not> in_range a st 8" for a using that fr by (simp add: m1_def)
  have "\<And>a. in_range a r 32 \<Longrightarrow> m1 a = m a" using st m1 by (simp add: stat_apart_def item_bytes_def)
  note r = record_fields_cong [of r m1 m, OF ur this]
  let ?ro = "item_attributes m r AND FAT_FILE_READ_ONLY \<noteq> 0"
  define m2 where "m2 = (if ?ro then store32 m1 st FILE_STAT_READ_ONLY else m1)"
  have "fat16_stat disk d st m = (0, m2)"
    using i r(2) by (simp add: fat16_stat_def Let_def m2_def m1_def [symmetric] stat_flags_def) (simp add: m1_def)
  moreover have "stat_file_size m2 st = item_file_size m r"
    using s(1) p(1,3) by (simp add: stat_file_size_def m2_def m1_def load32_store32_other)
  moreover have "stat_flags m2 st = (if ?ro then FILE_STAT_READ_ONLY else 0)" by (simp add: stat_flags_def m2_def m1_def)
  moreover have "m2 a = m a" if "\<not> in_range a st 8" for a using that fr m1 by (simp add: m2_def)
  ultimately show ?thesis by (rule that)
qed

section \<open>Property\<close>

text \<open>C17. An open item is a directory or a file, and stays what it is under \<open>fat16_seek\<close>. For a directory,
  \<open>fat16_seek\<close> and \<open>fat16_stat\<close> refuse and change nothing. For a file, \<open>fat16_stat\<close> reports the size and the
  read-only attribute of its directory record and writes the eight bytes of the buffer only; \<open>fat16_seek\<close>
  refuses an offset from the size on, sets the position or adds to it, and answers \<open>SEEK_END\<close> with the
  positive status \<open>EUNIMP\<close>, which no caller takes for an error.\<close>

theorem open_item_operations:
  assumes "typed m d it" "stat_apart m d it st"
  shows "typed (snd (fat16_seek d off mode m)) d it \<and>
    (case it of
       Directory_at _ \<Rightarrow> fat16_seek d off mode m = (- EINVARG, m) \<and> fat16_stat disk d st m = (- EINVARG, m)
     | File_at r \<Rightarrow>
         fst (fat16_seek d off mode m) = (if item_file_size m r \<le> off then - EIO else if mode \<in> {SEEK_SET, SEEK_CURR} then 0
           else if mode = SEEK_END then EUNIMP else - EINVARG) \<and>
         fdesc_pos (snd (fat16_seek d off mode m)) d = (if item_file_size m r \<le> off \<or> mode \<notin> {SEEK_SET, SEEK_CURR} then fdesc_pos m d
           else if mode = SEEK_SET then off else fdesc_pos m d + off) \<and>
         fst (fat16_stat disk d st m) = 0 \<and> stat_file_size (snd (fat16_stat disk d st m)) st = item_file_size m r \<and>
         stat_flags (snd (fat16_stat disk d st m)) st =
           (if item_attributes m r AND FAT_FILE_READ_ONLY \<noteq> 0 then FILE_STAT_READ_ONLY else 0) \<and>
         (\<forall>a. \<not> in_range a st 8 \<longrightarrow> snd (fat16_stat disk d st m) a = m a))"
proof (cases it)
  case (Directory_at q)
  then have "fitem_type m (fdesc_item m d) = 0" using assms(1) unfolding typed_def Let_def Directory_at open_item_of_Some by simp
  then show ?thesis using assms(1) Directory_at by (simp add: fat16_seek_def fat16_stat_def Let_def)
next
  case (File_at r)
  note ty = assms(1) [unfolded File_at] and st = assms(2) [unfolded File_at]
  obtain m' where "fat16_stat disk d st m = (0, m')" "stat_file_size m' st = item_file_size m r"
    "stat_flags m' st = (if item_attributes m r AND FAT_FILE_READ_ONLY \<noteq> 0 then FILE_STAT_READ_ONLY else 0)"
    "\<And>a. \<not> in_range a st 8 \<Longrightarrow> m' a = m a" by (rule stat_file [OF ty st]) (rule that)
  then show ?thesis using seek_file [OF ty, of off mode] typed_store_pos [OF ty] ty File_at by simp
qed

text \<open>The file of the example, of 0 bytes.\<close>

theorem open_item_operations_witness:
  "typed (fat_mem 0) 0x7100 (File_at 0x7300) \<and> fst (fat16_seek 0x7100 0 SEEK_SET (fat_mem 0)) = - EIO \<and>
   stat_file_size (snd (fat16_stat 0x8000 0x7100 0x7400 (fat_mem 0))) 0x7400 = 0"
proof -
  have ty: "typed (fat_mem 0) 0x7100 (File_at 0x7300)"
    by (auto simp: typed_def Let_def item_bytes_def fdesc_item_def fitem_type_def fitem_ptr_def load32_def fat_mem_def aligned4_def
        in_range_def)
  have st: "stat_apart (fat_mem 0) 0x7100 (File_at 0x7300) 0x7400"
    by (auto simp: stat_apart_def item_bytes_def fdesc_item_def load32_def fat_mem_def aligned4_def in_range_def)
  have "item_file_size (fat_mem 0) 0x7300 = 0" by (simp add: item_file_size_def load32_def fat_mem_def)
  with open_item_operations [OF ty st, of 0 SEEK_SET "0x8000"] ty show ?thesis by simp
qed

end
