(* ===== verification/Fopen.thy ===== *)
theory Fopen
  imports Openitem
begin

text \<open>
  Opening a file, \<open>fopen\<close> of \<^verbatim>\<open>src/fs/file.c\<close> down to the search of the root directory in
  \<^verbatim>\<open>src/fs/fat/fat16.c\<close>: the name a directory entry stands for, the entry a name selects, and the open
  file the call leaves behind, ready to be read.
\<close>

section \<open>The name of a directory entry\<close>

definition name_char :: "u8 \<Rightarrow> bool" where
  "name_char c \<longleftrightarrow> c \<noteq> 0 \<and> c \<noteq> 32"

text \<open>The name the code builds from the 32 bytes of an entry. The scan of the name does not stop after
  eight characters, so that a name without a blank takes the extension along.\<close>

definition entry_name :: "u8 list \<Rightarrow> u8 list" where
  "entry_name e = takeWhile name_char e @ (if name_char (e ! 8) then 46 # takeWhile name_char (drop 8 e) else [])"

text \<open>Somewhere from the extension on a scan ends.\<close>

definition entry_ok :: "u8 list \<Rightarrow> bool" where
  "entry_ok e \<longleftrightarrow> length e = 32 \<and> (\<exists>c \<in> set (drop 8 e). \<not> name_char c)"

text \<open>The buffer at \<open>out\<close> holds the name \<open>s\<close>, padded with zero bytes.\<close>

definition named :: "mem \<Rightarrow> u32 \<Rightarrow> u8 list \<Rightarrow> mem" where
  "named m out s = (\<lambda>a. let i = unat (a - out) in if i < 108 then if i < length s then s ! i else 0 else m a)"

definition outside :: "u32 \<Rightarrow> nat \<Rightarrow> u32 \<Rightarrow> bool" where
  "outside p n out \<longleftrightarrow> (\<forall>i < n. \<not> unat (p + of_nat i - out) < 108)"

lemma outside_Suc: "outside p (Suc n) out \<longleftrightarrow> \<not> unat (p - out) < 108 \<and> outside (p + 1) n out"
  unfolding outside_def All_less_Suc2 by (simp add: add.assoc)

lemma named_snoc:
  assumes "length s < 108"
  shows "(named m out s)(out + of_nat (length s) := x) = named m out (s @ [x])"
proof
  fix a
  have u: "unat (of_nat (length s) :: u32) = length s" using assms by (intro unat_of_nat_u32) linarith
  have e: "a = out + of_nat (length s) \<longleftrightarrow> unat (a - out) = length s"
    using u by (metis add_diff_cancel_left' diff_add_cancel add.commute word_unat_eq_iff)
  then show "((named m out s)(out + of_nat (length s) := x)) a = named m out (s @ [x]) a"
    using assms by (auto simp: named_def Let_def nth_append)
qed

lemma named_end:
  assumes "length s < 108"
  shows "(named m out s)(out + of_nat (length s) := 0) = named m out s"
  unfolding named_snoc [OF assms] using assms by (auto simp: named_def Let_def nth_append)

lemma named_outside: "\<not> unat (a - out) < 108 \<Longrightarrow> named m out s a = m a"
  by (simp add: named_def Let_def)

lemma memset_named: "memset m out 0 108 = named m out []"
  by (auto simp: memset_eq named_def Let_def)

lemma named_string:
  assumes "0 \<notin> set s" "length s < 108"
  shows "c_string (named m out s) out s"
proof -
  have u: "unat (of_nat i :: u32) = i" if "i < 108" for i using that by (intro unat_of_nat_u32) linarith
  show ?thesis using assms by (auto simp: c_string_def bytes_at_nth named_def Let_def u nth_append less_Suc_eq)
qed

text \<open>One scan.\<close>

lemma proper_string_loop_named:
  assumes "bytes_at m inp e" "\<exists>c \<in> set e. \<not> name_char c" "outside inp (length e) out" "length s + length e \<le> 108"
  shows "proper_string_loop (named m out s) (out + of_nat (length s)) inp =
    Some (named m out (s @ takeWhile name_char e), out + of_nat (length (s @ takeWhile name_char e)),
      inp + of_nat (length (takeWhile name_char e)))"
  using assms
proof (induction e arbitrary: inp s)
  case (Cons x xs)
  from Cons.prems have x: "m inp = x" "bytes_at m (inp + 1) xs" "outside (inp + 1) (length xs) out" "\<not> unat (inp - out) < 108"
    by (simp_all add: outside_Suc)
  have nx: "named m out s inp = x" using x(1,4) by (simp add: named_outside)
  show ?case
  proof (cases "name_char x")
    case False
    then show ?thesis using nx by (subst proper_string_loop.simps) (auto simp: name_char_def)
  next
    case True
    have "length s < 108" "\<exists>c \<in> set xs. \<not> name_char c" "length (s @ [x]) + length xs \<le> 108" using Cons.prems True by auto
    note IH = Cons.IH [OF x(2) this(2) x(3) this(3)]
    have "proper_string_loop (named m out s) (out + of_nat (length s)) inp =
        proper_string_loop ((named m out s)(out + of_nat (length s) := x)) (out + of_nat (length s) + 1) (inp + 1)"
      using nx True by (subst proper_string_loop.simps) (simp add: name_char_def)
    also have "\<dots> = proper_string_loop (named m out (s @ [x])) (out + of_nat (length (s @ [x]))) (inp + 1)"
      unfolding named_snoc [OF \<open>length s < 108\<close>] by (simp add: ac_simps)
    finally show ?thesis using IH True by (simp add: ac_simps)
  qed
qed simp

lemma propper_string_named:
  assumes "bytes_at m inp e" "\<exists>c \<in> set e. \<not> name_char c" "outside inp (length e) out" "length s + length e < 108"
  shows "fat16_to_propper_string (named m out s) (out + of_nat (length s)) inp =
    Some (named m out (s @ takeWhile name_char e), out + of_nat (length (s @ takeWhile name_char e)))"
proof -
  have "length (s @ takeWhile name_char e) < 108" using assms(4) length_takeWhile_le [of name_char e] by simp
  note e = named_end [OF this, of m out]
  show ?thesis
    unfolding fat16_to_propper_string_def proper_string_loop_named [OF assms(1-3) less_imp_le [OF assms(4)]]
    using e by simp
qed

lemma entry_name_facts:
  assumes "length e = 32"
  shows "0 \<notin> set (entry_name e)" "length (entry_name e) \<le> 57"
proof -
  show "0 \<notin> set (entry_name e)" by (auto simp: entry_name_def name_char_def dest: set_takeWhileD)
  show "length (entry_name e) \<le> 57"
    using length_takeWhile_le [of name_char e] length_takeWhile_le [of name_char "drop 8 e"] assms by (simp add: entry_name_def)
qed

lemma relative_filename_named:
  assumes "bytes_at m p e" "entry_ok e" "outside p 32 out"
  shows "fat16_get_full_relative_filename p out 108 m = Some (named m out (entry_name e))"
proof -
  have len: "length e = 32" and stop: "\<exists>c \<in> set (drop 8 e). \<not> name_char c" using assms(2) by (simp_all add: entry_ok_def)
  have stop': "\<exists>c \<in> set e. \<not> name_char c" using stop set_drop_subset [of 8 e] by blast
  let ?b = "takeWhile name_char e"
  have b8: "bytes_at m (p + 8) (drop 8 e)"
    using assms(1) bytes_at_append [of m p "take 8 e" "drop 8 e"] len by (simp add: min_def)
  have o8: "outside (p + 8) 24 out"
    unfolding outside_def
  proof (intro allI impI)
    fix i :: nat
    assume "i < 24"
    then have "8 + i < 32" by simp
    with assms(3) have "\<not> unat (p + of_nat (8 + i) - out) < 108" unfolding outside_def by blast
    then show "\<not> unat (p + 8 + of_nat i - out) < 108" by (simp add: add.assoc)
  qed
  have "\<forall>i < 32. m (p + of_nat i) = e ! i" using assms(1) len by (simp add: bytes_at_nth)
  from spec [OF this, of 8] have e8: "m (p + 8) = e ! 8" by simp
  have out8: "\<not> unat (p + 8 - out) < 108" using o8 [unfolded outside_def, rule_format, of 0] by simp
  have bl: "length ?b \<le> 32" using length_takeWhile_le [of name_char e] len by simp
  have s1: "fat16_to_propper_string (named m out []) (out + of_nat (length ([] :: u8 list))) p = Some (named m out ?b, out + of_nat (length ?b))"
    using propper_string_named [of m p e out "[]"] assms(1,3) stop' len by simp
  show ?thesis
  proof (cases "name_char (e ! 8)")
    case False
    then show ?thesis using s1 e8 out8
      by (auto simp: fat16_get_full_relative_filename_def memset_named named_outside name_char_def entry_name_def)
  next
    case True
    have d: "(named m out ?b)(out + of_nat (length ?b) := 46) = named m out (?b @ [46])" using bl by (intro named_snoc) simp
    have "fat16_to_propper_string (named m out (?b @ [46])) (out + of_nat (length (?b @ [46]))) (p + 8) =
        Some (named m out ((?b @ [46]) @ takeWhile name_char (drop 8 e)), out + of_nat (length ((?b @ [46]) @ takeWhile name_char (drop 8 e))))"
      using b8 stop o8 len bl by (intro propper_string_named) simp_all
    then show ?thesis using s1 e8 out8 True d
      by (simp add: fat16_get_full_relative_filename_def memset_named named_outside name_char_def entry_name_def ac_simps)
  qed
qed

section \<open>A file found\<close>

definition file_item :: "mem \<Rightarrow> u32 \<Rightarrow> u32 \<Rightarrow> u8 list \<Rightarrow> bool" where
  "file_item m f c e \<longleftrightarrow> fitem_type m f = FAT_ITEM_TYPE_FILE \<and> fitem_ptr m f = c \<and> bytes_at m c e"

definition is_file :: "u8 list \<Rightarrow> bool" where
  "is_file e \<longleftrightarrow> (e ! 11) AND FAT_FILE_SUBDIRECTORY = 0"

lemma page_byte: "page_al p \<Longrightarrow> i < 4096 \<Longrightarrow> in_range (p + of_nat i) p 4096"
  using page_offset [of p i] by (simp add: in_range_def)

lemma bytes_at_kept:
  assumes "bytes_at m p e" "\<And>i. i < length e \<Longrightarrow> P (p + of_nat i)" "\<And>a. P a \<Longrightarrow> m' a = m a"
  shows "bytes_at m' p e"
  using assms by (intro bytes_at_cong [OF assms(1)]) blast

lemma file_item_cong:
  assumes "file_item m f c e" "page_al f" "page_al c" "length e \<le> 4096"
    and "\<And>a. in_range a f 4096 \<or> in_range a c 4096 \<Longrightarrow> m' a = m a"
  shows "file_item m' f c e"
proof -
  have f: "m' a = m a" if "in_range a f 4096" for a using assms(5) that by blast
  have "bytes_at m' c e"
  proof (rule bytes_at_kept [where m = m and P = "\<lambda>a. in_range a c 4096"])
    show "in_range (c + of_nat i) c 4096" if "i < length e" for i using that assms(3,4) by (intro page_byte) simp_all
  qed (use assms in \<open>auto simp: file_item_def\<close>)
  with assms(1) page_load_cong [of f m' m 0, OF f assms(2)] page_load_cong [of f m' m 1, OF f assms(2)] show ?thesis
    by (simp add: file_item_def fitem_type_def fitem_ptr_def)
qed

lemma kzalloc_block:
  assumes "kwf k" "0 < kroom k" "0 < unat n" "unat n \<le> 4096"
  obtains p k' where "kzalloc n k = Some (p, k')" "p \<noteq> 0" "grows {} k [p] k'" "page_al p"
    "\<And>a. kept k a \<Longrightarrow> \<not> in_range a p 4096" "\<And>a. in_range a p 4096 \<Longrightarrow> kept k' a"
    "\<And>a. in_range a p (unat n) \<Longrightarrow> mem k' a = 0"
proof -
  from grows_kzalloc [OF assms] obtain p k' where p: "kzalloc n k = Some (p, k')" "p \<noteq> 0" "grows {} k [p] k'"
    "\<And>a. in_range a p (unat n) \<Longrightarrow> mem k' a = 0" by blast
  note g = grows_page [OF p(3), of p, simplified]
  show ?thesis by (rule that [OF p(1-3) g(2) g(3) g(4) p(4)])
qed

lemma new_file_item:
  assumes wf: "kwf k" and room: "2 \<le> kroom k" and b: "bytes_at (mem k) item e" and len: "length e = 32"
    and kp: "\<And>i. i < 32 \<Longrightarrow> kept k (item + of_nat i)" and isf: "is_file e"
  obtains f c k' where "fat16_new_fat_item_for_directory_item disk item k = Some (f, k')" "f \<noteq> 0"
    "grows {} k [f, c] k'" "file_item (mem k') f c e"
proof -
  obtain f k1 where f: "kzalloc 8 k = Some (f, k1)" "f \<noteq> 0" "grows {} k [f] k1" and alf: "page_al f"
    and farf: "\<And>a. kept k a \<Longrightarrow> \<not> in_range a f 4096" and kf: "\<And>a. in_range a f 4096 \<Longrightarrow> kept k1 a"
    by (rule kzalloc_block [OF wf, of 8]) (use room in simp_all)
  let ?k2 = "k1\<lparr>mem := store32 (mem k1) (f + 4) 1\<rparr>"
  have g2: "grows {} k [f] ?k2"
    using f(3) node_store_frame [OF alf farf] by (intro grows_mem) simp_all
  have m2: "mem ?k2 a = mem k a" if "kept k a" for a using g2 that by (simp add: grows_def)
  have wf2: "kwf ?k2" and r2: "0 < kroom ?k2" using g2 room by (simp_all add: grows_def)
  obtain c k3 where c: "kzalloc 32 ?k2 = Some (c, k3)" "c \<noteq> 0" "grows {} ?k2 [c] k3" and alc: "page_al c"
    and farc: "\<And>a. kept ?k2 a \<Longrightarrow> \<not> in_range a c 4096" and kc: "\<And>a. in_range a c 4096 \<Longrightarrow> kept k3 a"
    by (rule kzalloc_block [OF wf2 r2, of 32]) simp_all
  have m3: "mem k3 a = mem ?k2 a" if "kept ?k2 a" for a using c(3) that by (simp add: grows_def)
  have item: "mem k3 (item + of_nat i) = e ! i" "mem k1 (item + of_nat i) = e ! i" if "i < 32" for i
  proof -
    have "mem k (item + of_nat i) = e ! i" using b len that by (simp add: bytes_at_nth)
    then show "mem k1 (item + of_nat i) = e ! i" "mem k3 (item + of_nat i) = e ! i"
      using kp [OF that] f(3) m2 m3 grows_kept [OF g2] by (simp_all add: grows_def)
  qed
  define m4 where "m4 = memcpy (mem k3) c item 32"
  have m4: "m4 a = (if unat (a - c) < 32 then mem k3 (item + (a - c)) else mem k3 a)" for a
  proof -
    have "c + of_nat i \<noteq> item + of_nat j" if "i < 32" "j < 32" for i j
      using page_byte [OF alc, of i] farc [OF grows_kept [OF g2 kp [OF that(2)]]] that by auto
    then show ?thesis unfolding m4_def memcpy_def by (subst memcpy_loop_eq) simp_all
  qed
  define m5 where "m5 = store32 m4 f c"
  have fc: "\<not> in_range a f 4096" if "in_range a c 4096" for a using that farc kf kept_mem by blast
  have c4: "m4 a = mem k3 a" if "\<not> in_range a c 4096" for a
  proof -
    have "\<not> unat (a - c) < 32" using that page_range [OF alc, of a] by simp
    then show ?thesis by (simp add: m4)
  qed
  have m5: "m5 a = m4 a" if "\<not> in_range a f 4096" for a using node_store_frame [OF alf that] by (simp add: m5_def)
  have "grows {} ?k2 [c] (k3\<lparr>mem := m4\<rparr>)" using c(3) c4 farc by (intro grows_mem) simp_all
  then have "grows {} k ([f] @ [c]) (k3\<lparr>mem := m4\<rparr>)" by (rule grows_trans [OF g2]) simp
  then have g: "grows {} k [f, c] (k3\<lparr>mem := m5\<rparr>)"
    using grows_mem [of "{}" k "[f, c]" "k3\<lparr>mem := m4\<rparr>" m5] m5 farf by simp
  have pf: "m4 a = mem ?k2 a" if "in_range a f 4096" for a using that kf farc c4 m3 kept_mem by metis
  have "load32 m5 (f + 4) = load32 m4 (f + 4)"
    unfolding m5_def using node_fields [OF alf] by (intro load32_store32_other) auto
  also have "\<dots> = 1" using page_load_cong [of f m4 "mem ?k2" 1, OF pf alf] by simp
  finally have "fitem_type m5 f = 1" by (simp add: fitem_type_def)
  moreover have "fitem_ptr m5 f = c" by (simp add: fitem_ptr_def m5_def)
  moreover have "m5 (c + of_nat i) = e ! i" if "i < 32" for i
  proof -
    have r: "in_range (c + of_nat i) c 4096" using that by (intro page_byte [OF alc]) simp
    have u: "unat (of_nat i :: u32) = i" using that by (intro unat_of_nat_u32) linarith
    have "m5 (c + of_nat i) = m4 (c + of_nat i)" using m5 fc [OF r] by blast
    also have "\<dots> = e ! i" using that u item(1) [OF that] by (simp add: m4)
    finally show ?thesis .
  qed
  ultimately have "file_item m5 f c e" by (simp add: file_item_def bytes_at_nth len)
  moreover have "fat16_new_fat_item_for_directory_item disk item k = Some (f, k3\<lparr>mem := m5\<rparr>)"
    using f(1,2) c(1,2) item(2) [of 11] isf
    by (simp add: fat16_new_fat_item_for_directory_item_def fat16_clone_directory_item_def item_attributes_def is_file_def m5_def m4_def)
  ultimately show ?thesis using that [OF _ f(2) g] by simp
qed

section \<open>Searching a directory\<close>

definition tmp_name :: "'a fs_machine_scheme \<Rightarrow> u32 set" where
  "tmp_name k = {a. unat (a - local_addr k Tmp_filename) < 108}"

text \<open>A byte no step of the search changes.\<close>

definition steady :: "'a fs_machine_scheme \<Rightarrow> u32 \<Rightarrow> bool" where
  "steady k a \<longleftrightarrow> kept k a \<and> a \<notin> tmp_name k"

text \<open>The directory at \<open>d\<close> lists the entries \<open>es\<close>.\<close>

definition listing :: "'a fs_machine_scheme \<Rightarrow> u32 \<Rightarrow> u8 list list \<Rightarrow> bool" where
  "listing k d es \<longleftrightarrow> unat d + 8 \<le> 4294967296 \<and> length es < 65536 \<and> dir_total (mem k) d = of_nat (length es) \<and>
     (\<forall>i < 8. steady k (d + of_nat i)) \<and>
     (\<forall>i < length es. entry_ok (es ! i) \<and> bytes_at (mem k) (dir_item (mem k) d + of_nat i * 32) (es ! i) \<and>
        (\<forall>j < 32. steady k (dir_item (mem k) d + of_nat i * 32 + of_nat j)))"

definition steady_string :: "'a fs_machine_scheme \<Rightarrow> u32 \<Rightarrow> u8 list \<Rightarrow> bool" where
  "steady_string k p s \<longleftrightarrow> c_string (mem k) p s \<and> (\<forall>i \<le> length s. steady k (p + of_nat i))"

text \<open>Names are compared up to case.\<close>

definition matches :: "u8 list \<Rightarrow> u8 list list \<Rightarrow> u8 list list" where
  "matches s es = filter (\<lambda>e. map toLower (entry_name e) = map toLower s) es"

lemma same_rest_fs:
  fixes k k' :: "'a fs_machine_scheme"
  assumes "same_rest k k'"
  shows "local_addr k' = local_addr k" "addr_disk k' = addr_disk k" "addr_fat16_fs k' = addr_fat16_fs k"
    "dev_b k' = dev_b k" "dev_w k' = dev_w k" "io_log k' = io_log k"
proof -
  have e: "k'\<lparr>kernel_heap := kernel_heap k, mem := mem k\<rparr> = k" using assms by (simp add: same_rest_def)
  show "local_addr k' = local_addr k" "addr_disk k' = addr_disk k" "addr_fat16_fs k' = addr_fat16_fs k"
    "dev_b k' = dev_b k" "dev_w k' = dev_w k" "io_log k' = io_log k"
    using arg_cong [OF e, of local_addr] arg_cong [OF e, of addr_disk] arg_cong [OF e, of addr_fat16_fs]
      arg_cong [OF e, of dev_b] arg_cong [OF e, of dev_w] arg_cong [OF e, of io_log] by simp_all
qed

lemma grows_same: "grows W k ps k' \<Longrightarrow> same_rest k k'"
  by (simp add: grows_def)

lemma tmp_name_grows: "grows W k ps k' \<Longrightarrow> tmp_name k' = tmp_name k" for k k' :: "'a fs_machine_scheme"
  by (simp add: tmp_name_def same_rest_fs(1) [OF grows_same])

text \<open>A later state, in which all that was steady is as it was.\<close>

definition stays :: "'a fs_machine_scheme \<Rightarrow> 'a fs_machine_scheme \<Rightarrow> bool" where
  "stays k k' \<longleftrightarrow> local_addr k' = local_addr k \<and> addr_disk k' = addr_disk k \<and> addr_fat16_fs k' = addr_fat16_fs k \<and>
     dev_b k' = dev_b k \<and> dev_w k' = dev_w k \<and> kgeom k' = kgeom k \<and> (\<forall>a. kept k a \<longrightarrow> kept k' a) \<and> (\<forall>a. steady k a \<longrightarrow> mem k' a = mem k a)"

lemma steady_stays:
  assumes "stays k k'" "steady k a"
  shows "steady k' a" "mem k' a = mem k a"
  using assms by (simp_all add: stays_def steady_def tmp_name_def)

lemma stays_trans:
  assumes "stays a b" "stays b c"
  shows "stays a c"
proof -
  have "mem c x = mem a x" if "steady a x" for x
    using steady_stays [OF assms(1) that] steady_stays [OF assms(2), of x] by simp
  with assms show ?thesis by (simp add: stays_def)
qed

lemma grows_stays:
  fixes k k' :: "'a fs_machine_scheme"
  assumes "grows (tmp_name k) k ps k'"
  shows "stays k k'"
  using same_rest_fs [OF grows_same [OF assms]] grows_kept [OF assms] assms by (simp add: stays_def steady_def grows_def)

lemma steady_load:
  assumes "stays k k'" "\<And>i. i < n \<Longrightarrow> steady k (d + of_nat i)" "j + 4 \<le> n"
  shows "load32 (mem k') (d + of_nat j) = load32 (mem k) (d + of_nat j)"
proof (rule load32_eqI)
  fix i :: nat
  assume "i < 4"
  with assms(3) have "steady k (d + of_nat (j + i))" by (intro assms(2)) simp
  from steady_stays(2) [OF assms(1) this] show "mem k' (d + of_nat j + of_nat i) = mem k (d + of_nat j + of_nat i)"
    by (simp add: add.assoc)
qed

lemma listing_stays:
  assumes g: "stays k k'" and l: "listing k d es"
  shows "listing k' d es" "dir_item (mem k') d = dir_item (mem k) d" "dir_total (mem k') d = dir_total (mem k) d"
proof -
  have s: "steady k (d + of_nat i)" if "i < 8" for i using l that by (simp add: listing_def)
  show i: "dir_item (mem k') d = dir_item (mem k) d" "dir_total (mem k') d = dir_total (mem k) d"
    using steady_load [OF g s, where j = 0] steady_load [OF g s, where j = 4] by (simp_all add: dir_item_def dir_total_def)
  have "bytes_at (mem k') (dir_item (mem k) d + of_nat i * 32) (es ! i)" if "i < length es" for i
  proof (rule bytes_at_kept [where m = "mem k" and P = "steady k"])
    show "bytes_at (mem k) (dir_item (mem k) d + of_nat i * 32) (es ! i)" using l that by (simp add: listing_def)
    fix j
    assume "j < length (es ! i)"
    then show "steady k (dir_item (mem k) d + of_nat i * 32 + of_nat j)" using l that by (simp add: listing_def entry_ok_def)
  qed (rule steady_stays(2) [OF g])
  then show "listing k' d es" using l i steady_stays(1) [OF g] by (simp add: listing_def)
qed

lemma steady_string_stays:
  assumes g: "stays k k'" and l: "steady_string k p s"
  shows "steady_string k' p s"
  using l c_string_cong [of "mem k" p s "mem k'"] steady_stays [OF g] by (simp add: steady_string_def)

lemma find_item_step:
  fixes k :: "'a fs_machine_scheme"
  assumes wf: "kwf k" and l: "listing k d es" and s: "steady_string k nm s" and sl: "length s < 108" and i: "i < length es"
    and tk: "\<And>a. a \<in> tmp_name k \<Longrightarrow> kept k a"
  obtains k1 where "grows (tmp_name k) k [] k1"
    "find_item_loop disk d nm (of_nat i) (Suc n) f k =
      (if map toLower (entry_name (es ! i)) = map toLower s
       then do { (f, k) \<leftarrow> fat16_new_fat_item_for_directory_item disk (dir_item (mem k) d + of_nat i * 32) k1;
                 find_item_loop disk d nm (of_nat (Suc i)) n f k }
       else find_item_loop disk d nm (of_nat (Suc i)) n f k1)"
proof -
  let ?out = "local_addr k Tmp_filename" and ?p = "dir_item (mem k) d + of_nat i * 32"
  let ?k1 = "k\<lparr>mem := named (mem k) ?out (entry_name (es ! i))\<rparr>"
  have e: "entry_ok (es ! i)" "bytes_at (mem k) ?p (es ! i)" "\<And>j. j < 32 \<Longrightarrow> steady k (?p + of_nat j)"
    using l i by (simp_all add: listing_def)
  have "outside ?p 32 ?out" using e(3) by (simp add: outside_def steady_def tmp_name_def)
  note nm = relative_filename_named [OF e(2,1) this]
  have g: "grows (tmp_name k) k [] ?k1"
    using grows_refl [OF wf] by (intro grows_mem) (auto simp: tmp_name_def named_outside)
  note en = entry_name_facts [of "es ! i"]
  have el: "length (es ! i) = 32" using e(1) by (simp add: entry_ok_def)
  have c1: "c_string (mem ?k1) ?out (entry_name (es ! i))" using en [OF el] by (simp add: named_string)
  have c2: "c_string (mem ?k1) nm s" using steady_string_stays [OF grows_stays [OF g] s] by (simp add: steady_string_def)
  have "istrncmp (mem ?k1) ?out nm 108 = 0 \<longleftrightarrow> map toLower (entry_name (es ! i)) = map toLower s"
    unfolding istrncmp_eq_0 [OF c1 c2] using en [OF el] sl by simp
  then show ?thesis using nm listing_stays(2) [OF grows_stays [OF g] l]
    by (intro that [OF g]) (simp add: Let_def add.commute split del: if_split cong: if_cong)
qed

text \<open>The last entry with the name is found. Each match before it leaves an item nobody frees.\<close>

definition found :: "'a fs_machine_scheme \<Rightarrow> u32 list \<Rightarrow> u32 \<Rightarrow> u8 list \<Rightarrow> bool" where
  "found k ps f e \<longleftrightarrow> (\<exists>c. f \<in> set ps \<and> c \<in> set ps \<and> f \<noteq> c \<and> file_item (mem k) f c e)"

lemma found_grows:
  fixes k k' :: "'a fs_machine_scheme"
  assumes "found k1 ps f e" "grows W k ps k1" "grows V k1 qs k'" "length e \<le> 4096" "\<And>a. a \<in> V \<Longrightarrow> kept k a"
  shows "found k' (ps @ qs) f e"
proof -
  from assms(1) obtain c where c: "f \<in> set ps" "c \<in> set ps" "f \<noteq> c" "file_item (mem k1) f c e" by (auto simp: found_def)
  note pf = grows_page [OF assms(2) c(1)] and pc = grows_page [OF assms(2) c(2)]
  have "mem k' a = mem k1 a" if "in_range a f 4096 \<or> in_range a c 4096" for a
  proof -
    have "kept k1 a" "a \<notin> V" using that pf(3,4) pc(3,4) assms(5) by auto
    then show ?thesis using assms(3) by (simp add: grows_def)
  qed
  with file_item_cong [OF c(4) pf(2) pc(2) assms(4)] have "file_item (mem k') f c e" by blast
  then show ?thesis using c by (auto simp: found_def)
qed

lemma find_item_loop_ok:
  fixes k :: "'a fs_machine_scheme"
  assumes "kwf k" "listing k d es" "steady_string k nm s" "length s < 108"
    and "\<And>a. a \<in> tmp_name k \<Longrightarrow> kept k a" "i + n = length es"
    and "2 * length (matches s (drop i es)) \<le> kroom k" "\<And>e. e \<in> set (matches s es) \<Longrightarrow> is_file e"
  shows "\<exists>f' ps k'. find_item_loop disk d nm (of_nat i) n f k = Some (f', k') \<and> grows (tmp_name k) k ps k' \<and>
    length ps = 2 * length (matches s (drop i es)) \<and>
    (if matches s (drop i es) = [] then f' = f else found k' ps f' (last (matches s (drop i es))))"
  using assms(1-7)
proof (induction n arbitrary: i k f)
  case 0
  then have "drop i es = []" by simp
  then show ?case using grows_refl [OF 0(1), of "tmp_name k"] by (auto simp: matches_def)
next
  case (Suc n)
  let ?e = "es ! i" and ?T = "tmp_name k"
  have i: "i < length es" using Suc.prems(6) by simp
  have dr: "drop i es = ?e # drop (Suc i) es" using i by (rule Cons_nth_drop_Suc [symmetric])
  obtain k1 where k1: "grows ?T k [] k1" "find_item_loop disk d nm (of_nat i) (Suc n) f k =
      (if map toLower (entry_name ?e) = map toLower s
       then do { (f, k) \<leftarrow> fat16_new_fat_item_for_directory_item disk (dir_item (mem k) d + of_nat i * 32) k1;
                 find_item_loop disk d nm (of_nat (Suc i)) n f k }
       else find_item_loop disk d nm (of_nat (Suc i)) n f k1)"
    by (rule find_item_step [OF Suc.prems(1-4) i Suc.prems(5)]) (assumption, rule that)
  note l1 = listing_stays [OF grows_stays [OF k1(1)] Suc.prems(2)] and s1 = steady_string_stays [OF grows_stays [OF k1(1)] Suc.prems(3)]
  have t1: "tmp_name k1 = ?T" by (rule tmp_name_grows [OF k1(1)])
  have wf1: "kwf k1" and r1: "kroom k1 = kroom k" using k1(1) by (simp_all add: grows_def)
  have tk1: "kept k1 a" if "a \<in> tmp_name k1" for a using that t1 Suc.prems(5) grows_kept [OF k1(1)] by simp
  have n: "Suc i + n = length es" using Suc.prems(6) by simp
  show ?case
  proof (cases "map toLower (entry_name ?e) = map toLower s")
    case False
    then have m: "matches s (drop i es) = matches s (drop (Suc i) es)" by (simp add: dr matches_def)
    have "2 * length (matches s (drop (Suc i) es)) \<le> kroom k1" using Suc.prems(7) r1 m by simp
    from Suc.IH [OF wf1 l1(1) s1 Suc.prems(4) tk1 n this, of f] obtain f' ps k' where
      f': "find_item_loop disk d nm (of_nat (Suc i)) n f k1 = Some (f', k')" "grows ?T k1 ps k'"
      "length ps = 2 * length (matches s (drop (Suc i) es))"
      "if matches s (drop (Suc i) es) = [] then f' = f else found k' ps f' (last (matches s (drop (Suc i) es)))"
      unfolding t1 by blast
    have "grows ?T k ([] @ ps) k'" using k1(1) f'(2) by (rule grows_trans)
    then show ?thesis using f' k1(2) False m by auto
  next
    case True
    let ?ms = "matches s (drop (Suc i) es)"
    have m: "matches s (drop i es) = ?e # ?ms" using True by (simp add: dr matches_def)
    have e: "entry_ok ?e" "bytes_at (mem k1) (dir_item (mem k) d + of_nat i * 32) ?e"
      "\<And>j. j < 32 \<Longrightarrow> kept k1 (dir_item (mem k) d + of_nat i * 32 + of_nat j)"
      using l1(1) i l1(2) by (simp_all add: listing_def steady_def)
    have el: "length ?e = 32" using e(1) by (simp add: entry_ok_def)
    have "is_file ?e" using True i by (intro assms(8)) (simp add: matches_def)
    moreover have "2 \<le> kroom k1" using Suc.prems(7) m r1 by simp
    ultimately obtain f1 c k2 where f1: "fat16_new_fat_item_for_directory_item disk (dir_item (mem k) d + of_nat i * 32) k1 = Some (f1, k2)"
      "f1 \<noteq> 0" "grows {} k1 [f1, c] k2" "file_item (mem k2) f1 c ?e"
      using new_file_item [OF wf1 _ e(2) el e(3)] by blast
    have g2: "grows ?T k [f1, c] k2" using grows_trans [OF k1(1) f1(3)] by simp
    have fd: "found k2 [f1, c] f1 ?e" using f1(3,4) by (auto simp: found_def grows_def)
    note l2 = listing_stays [OF grows_stays [OF g2] Suc.prems(2)] and s2 = steady_string_stays [OF grows_stays [OF g2] Suc.prems(3)] and t2 = tmp_name_grows [OF g2]
    have wf2: "kwf k2" and r2: "kroom k = kroom k2 + 2" using g2 by (simp_all add: grows_def)
    have tk2: "kept k2 a" if "a \<in> tmp_name k2" for a using that t2 Suc.prems(5) grows_kept [OF g2] by simp
    have "2 * length ?ms \<le> kroom k2" using Suc.prems(7) r2 m by simp
    from Suc.IH [OF wf2 l2(1) s2 Suc.prems(4) tk2 n this, of f1] obtain f' ps k' where
      f': "find_item_loop disk d nm (of_nat (Suc i)) n f1 k2 = Some (f', k')" "grows ?T k2 ps k'" "length ps = 2 * length ?ms"
      "if ?ms = [] then f' = f1 else found k' ps f' (last ?ms)"
      unfolding t2 by blast
    have g: "grows ?T k ([f1, c] @ ps) k'" using g2 f'(2) by (rule grows_trans)
    have "found k' ([f1, c] @ ps) f' (last (?e # ?ms))"
    proof (cases "?ms = []")
      case True
      with f'(4) found_grows [OF fd g2 f'(2) _ Suc.prems(5)] el show ?thesis by simp
    next
      case False
      with f'(4) show ?thesis by (auto simp: found_def)
    qed
    moreover have "find_item_loop disk d nm (of_nat i) (Suc n) f k = Some (f', k')" using k1(2) f1(1) f'(1) True by simp
    ultimately show ?thesis using g f'(3) m by (intro exI [of _ f'] exI [of _ "[f1, c] @ ps"] exI [of _ k']) simp
  qed
qed

lemma find_item_ok:
  fixes k :: "'a fs_machine_scheme"
  assumes "kwf k" "listing k d es" "steady_string k nm s" "length s < 108"
    and "\<And>a. a \<in> tmp_name k \<Longrightarrow> kept k a"
    and "2 * length (matches s es) \<le> kroom k" "\<And>e. e \<in> set (matches s es) \<Longrightarrow> is_file e"
  shows "\<exists>f ps k'. fat16_find_item_in_directory disk d nm k = Some (f, k') \<and> grows (tmp_name k) k ps k' \<and>
    length ps = 2 * length (matches s es) \<and> (if matches s es = [] then f = 0 else found k' ps f (last (matches s es)))"
proof -
  have l: "length es < 65536" "dir_total (mem k) d = of_nat (length es)" using assms(2) by (simp_all add: listing_def)
  have "nat (sint (dir_total (mem k) d)) = length es" using sint_small_int [of "int (length es)"] l by simp
  with find_item_loop_ok [OF assms(1-5) _ _ assms(7), of 0 "length es" disk 0] assms(6) show ?thesis
    by (simp add: fat16_find_item_in_directory_def split del: if_split cong: if_cong)
qed

section \<open>Opening in the file system\<close>

text \<open>The path is a single part \<open>s\<close> at the node \<open>pt\<close>: a file of the root directory.\<close>

definition one_part :: "'a fs_machine_scheme \<Rightarrow> u32 \<Rightarrow> u8 list \<Rightarrow> bool" where
  "one_part k pt s \<longleftrightarrow> (\<forall>i < 8. steady k (pt + of_nat i)) \<and> part_next (mem k) pt = 0 \<and>
     steady_string k (part_part (mem k) pt) s \<and> length s < 108"

lemma one_part_stays:
  assumes g: "stays k k'" and p: "one_part k pt s"
  shows "one_part k' pt s" "part_next (mem k') pt = part_next (mem k) pt"
proof -
  have s: "steady k (pt + of_nat i)" if "i < 8" for i using p that by (simp add: one_part_def)
  have "part_part (mem k') pt = part_part (mem k) pt" and n: "part_next (mem k') pt = part_next (mem k) pt"
    using steady_load [OF g s, where j = 0] steady_load [OF g s, where j = 4] by (simp_all add: part_part_def part_next_def)
  with p steady_stays(1) [OF g] steady_string_stays [OF g] show "one_part k' pt s" by (simp add: one_part_def)
  from n show "part_next (mem k') pt = part_next (mem k) pt" .
qed

lemma directory_entry_ok:
  fixes k :: "'a fs_machine_scheme"
  assumes "kwf k" "listing k (root_directory (disk_fs_private (mem k) disk)) es" "one_part k pt s"
    and "\<And>a. a \<in> tmp_name k \<Longrightarrow> kept k a"
    and "2 * length (matches s es) \<le> kroom k" "\<And>e. e \<in> set (matches s es) \<Longrightarrow> is_file e"
  shows "\<exists>f ps k'. fat16_get_directory_entry disk pt k = Some (f, k') \<and> grows (tmp_name k) k ps k' \<and>
    length ps = 2 * length (matches s es) \<and> (if matches s es = [] then f = 0 else f \<noteq> 0 \<and> found k' ps f (last (matches s es)))"
proof -
  have p: "steady_string k (part_part (mem k) pt) s" "length s < 108" "part_next (mem k) pt = 0"
    using assms(3) by (simp_all add: one_part_def)
  from find_item_ok [OF assms(1,2) p(1,2) assms(4-6), of disk] obtain f ps k' where
    f: "fat16_find_item_in_directory disk (root_directory (disk_fs_private (mem k) disk)) (part_part (mem k) pt) k = Some (f, k')"
      "grows (tmp_name k) k ps k'" "length ps = 2 * length (matches s es)"
      "if matches s es = [] then f = 0 else found k' ps f (last (matches s es))" by blast
  have n: "part_next (mem k') pt = 0" using one_part_stays(2) [OF grows_stays [OF f(2)] assms(3)] p(3) by simp
  show ?thesis
  proof (cases "matches s es = []")
    case True
    then show ?thesis using f by (auto simp: fat16_get_directory_entry_def)
  next
    case False
    then have "found k' ps f (last (matches s es))" using f(4) by simp
    moreover from this have "f \<noteq> 0" using grows_page(1) [OF f(2)] by (auto simp: found_def)
    moreover from this have "fat16_get_directory_entry disk pt k = Some (f, k')"
      using f(1) n by (simp add: fat16_get_directory_entry_def directory_entry_loop.simps)
    ultimately show ?thesis using f(2,3) False by (intro exI [of _ f] exI [of _ ps] exI [of _ k']) simp
  qed
qed

text \<open>An open file before it gets its number: the descriptor of the file system at position 0, the item, and
  the copy of the directory entry.\<close>

definition opened :: "'a fs_machine_scheme \<Rightarrow> u32 list \<Rightarrow> u32 \<Rightarrow> u8 list \<Rightarrow> bool" where
  "opened k ps d e \<longleftrightarrow> d \<in> set ps \<and> fdesc_pos (mem k) d = 0 \<and> found k ps (fdesc_item (mem k) d) e"

lemma fat16_open_ok:
  fixes k :: "'a fs_machine_scheme"
  assumes wf: "kwf k" and l: "listing k (root_directory (disk_fs_private (mem k) disk)) es" and p: "one_part k pt s"
    and tk: "\<And>a. a \<in> tmp_name k \<Longrightarrow> kept k a" and dk: "\<And>i. i < 20 \<Longrightarrow> steady k (disk + of_nat i)"
    and room: "2 * length (matches s es) + 1 \<le> kroom k" and fl: "\<And>e. e \<in> set (matches s es) \<Longrightarrow> is_file e"
    and len: "\<And>e. e \<in> set es \<Longrightarrow> length e = 32"
  shows "\<exists>d ps k'. fat16_open disk pt FILE_MODE_READ k = Some (if matches s es = [] then ERROR (- EIO) else d, k') \<and>
    grows (tmp_name k) k ps k' \<and> length ps = 2 * length (matches s es) + 1 \<and>
    (matches s es \<noteq> [] \<longrightarrow> opened k' ps d (last (matches s es)))"
proof -
  let ?T = "tmp_name k" and ?e = "last (matches s es)"
  obtain d k1 where d: "kzalloc 8 k = Some (d, k1)" "d \<noteq> 0" "grows {} k [d] k1" and ald: "page_al d"
    and fard: "\<And>a. kept k a \<Longrightarrow> \<not> in_range a d 4096" and kd: "\<And>a. in_range a d 4096 \<Longrightarrow> kept k1 a"
    by (rule kzalloc_block [OF wf, of 8]) (use room in simp_all)
  have g1: "grows ?T k [d] k1" using d(3) by (rule grows_mono) simp
  have wf1: "kwf k1" and r1: "2 * length (matches s es) \<le> kroom k1" using g1 room by (simp_all add: grows_def)
  have "disk_fs_private (mem k1) disk = disk_fs_private (mem k) disk"
    using steady_load [OF grows_stays [OF g1] dk, of 20 16] by (simp add: disk_fs_private_def)
  then have l1: "listing k1 (root_directory (disk_fs_private (mem k1) disk)) es" using listing_stays(1) [OF grows_stays [OF g1] l] by simp
  note t1 = tmp_name_grows [OF g1]
  have tk1: "kept k1 a" if "a \<in> tmp_name k1" for a using that t1 tk grows_kept [OF g1] by simp
  from directory_entry_ok [OF wf1 l1 one_part_stays(1) [OF grows_stays [OF g1] p] tk1 r1 fl] obtain f ps k2 where
    f: "fat16_get_directory_entry disk pt k1 = Some (f, k2)" "grows ?T k1 ps k2" "length ps = 2 * length (matches s es)"
      "if matches s es = [] then f = 0 else f \<noteq> 0 \<and> found k2 ps f ?e" unfolding t1 by blast
  define m3 where "m3 = store32 (mem k2) d f"
  define m4 where "m4 = (if f = 0 then m3 else store32 m3 (d + 4) 0)"
  have m4: "m4 a = mem k2 a" if "\<not> in_range a d 4096" for a
    using that node_store_frame [OF ald that] by (simp add: m4_def m3_def)
  have g2: "grows ?T k ([d] @ ps) k2" using g1 f(2) by (rule grows_trans)
  have g4: "grows ?T k (d # ps) (k2\<lparr>mem := m4\<rparr>)" using grows_mem [OF g2, of m4] m4 fard by simp
  have "fat16_open disk pt FILE_MODE_READ k = Some (if matches s es = [] then ERROR (- EIO) else d, k2\<lparr>mem := m4\<rparr>)"
    using d(1,2) f(1,4) by (auto simp: fat16_open_def m4_def m3_def Let_def split: if_splits)
  moreover have "opened (k2\<lparr>mem := m4\<rparr>) (d # ps) d ?e" if "matches s es \<noteq> []"
  proof -
    have fd: "f \<noteq> 0" "found k2 ps f ?e" using f(4) that by simp_all
    then obtain c where c: "f \<in> set ps" "c \<in> set ps" "f \<noteq> c" "file_item (mem k2) f c ?e" by (auto simp: found_def)
    have "m4 a = mem k2 a" if "in_range a f 4096 \<or> in_range a c 4096" for a
      using that kd grows_page(3) [OF f(2) c(1)] grows_page(3) [OF f(2) c(2)] by (intro m4) blast
    moreover have "?e \<in> set es" using that last_in_set [OF that] by (simp add: matches_def)
    ultimately have "file_item m4 f c ?e"
      using file_item_cong [OF c(4) grows_page(2) [OF f(2) c(1)] grows_page(2) [OF f(2) c(2)], of m4] len by simp
    moreover have "fdesc_item m4 d = f" using fd(1) by (simp add: fdesc_item_def m4_def m3_def part_next_store [OF ald])
    moreover have "fdesc_pos m4 d = 0" using fd(1) by (simp add: fdesc_pos_def m4_def)
    ultimately show ?thesis using c by (auto simp: opened_def found_def)
  qed
  ultimately show ?thesis using g4 f(3) by (intro exI [of _ d] exI [of _ "d # ps"] exI [of _ "k2\<lparr>mem := m4\<rparr>"]) simp
qed

section \<open>Opening by path\<close>

text \<open>The bytes the heap manages; the stack lies elsewhere.\<close>

definition heap_area :: "'a machine_scheme \<Rightarrow> u32 \<Rightarrow> bool" where
  "heap_area k a \<longleftrightarrow> in_range a (fst (kgeom k)) (4096 * snd (kgeom k))"

lemma not_heap_kept: "\<not> heap_area k a \<Longrightarrow> kept k a"
  by (simp add: heap_area_def kept_def)

definition mounted :: "'a fs_machine_scheme \<Rightarrow> (nat \<Rightarrow> u8) \<Rightarrow> fat_geom \<Rightarrow> u8 list list \<Rightarrow> bool" where
  "mounted k img g es \<longleftrightarrow> fat_volume k img g \<and> disk_filesystem (mem k) (addr_disk k) = addr_fat16_fs k \<and>
     addr_fat16_fs k \<noteq> 0 \<and> addr_disk k \<noteq> 0 \<and> listing k (root_directory (v_private g)) es \<and>
     (\<forall>a. fixed k g a \<or> scratch k g a \<longrightarrow> steady k a) \<and> (\<forall>a \<in> tmp_name k. \<not> heap_area k a)"

lemma fat_volume_stays:
  assumes s: "stays k k'" and v: "fat_volume k img g" and st: "\<And>a. fixed k g a \<or> scratch k g a \<Longrightarrow> steady k a"
  shows "fat_volume k' img g"
proof -
  have e: "addr_disk k' = addr_disk k" "local_addr k' = local_addr k" "dev_b k' = dev_b k" "dev_w k' = dev_w k"
    using s by (simp_all add: stays_def)
  have m: "mem k' a = mem k a" if "fixed k g a \<or> scratch k g a" for a using steady_stays(2) [OF s st [OF that]] .
  have sf: "scratch k' g = scratch k g" "fixed k' g = fixed k g" using e by (simp_all add: scratch_def fixed_def fun_eq_iff)
  have "volume_fields (mem k') (addr_disk k) g"
  proof (rule volume_fields_cong)
    show "volume_fields (mem k) (addr_disk k) g" "unat (addr_disk k) + 20 \<le> 4294967296" "unat (v_private g) + 92 \<le> 4294967296"
      using v by (simp_all add: fat_volume_def)
    show "mem k' a = mem k a" if "in_range a (addr_disk k) 20 \<or> in_range a (v_private g) 92" for a
      using that m [of a] by (simp add: fixed_def)
  qed
  moreover have "\<exists>q. stream_at k' p q" if q: "\<exists>q. stream_at k p q" and r: "\<And>a. in_range a p 8 \<Longrightarrow> scratch k g a" for p
  proof -
    from q obtain q where q: "stream_at k p q" by blast
    have "stream_at (k\<lparr>io_log := io_log k, mem := mem k'\<rparr>) p q" by (rule stream_at_cong [OF q]) (use r m in blast)
    then show ?thesis using e by (auto simp: stream_at_def)
  qed
  then have "\<exists>q. stream_at k' (v_fat g) q" "\<exists>q. stream_at k' (v_data g) q"
    using v by (simp_all add: fat_volume_def scratch_def)
  moreover have "ata_holds k' img" using v ata_holds_cong [OF e(3,4)] by (simp add: fat_volume_def)
  ultimately show ?thesis using v by (simp add: fat_volume_def e sf)
qed

lemma mounted_entry: "mounted k img g es \<Longrightarrow> e \<in> set es \<Longrightarrow> length e = 32"
  unfolding mounted_def listing_def entry_ok_def in_set_conv_nth by blast

lemma matches_entry: "e \<in> set (matches nm es) \<Longrightarrow> e \<in> set es"
  by (simp add: matches_def)

lemma mounted_stays:
  assumes s: "stays k k'" and v: "mounted k img g es"
  shows "mounted k' img g es"
proof -
  have e: "addr_disk k' = addr_disk k" "local_addr k' = local_addr k" "addr_fat16_fs k' = addr_fat16_fs k"
    using s by (simp_all add: stays_def)
  have st: "steady k a" if "fixed k g a \<or> scratch k g a" for a using v that unfolding mounted_def by blast
  have vol: "fat_volume k img g" using v by (simp add: mounted_def)
  have sf: "scratch k' g = scratch k g" "fixed k' g = fixed k g" using e by (simp_all add: scratch_def fixed_def fun_eq_iff)
  have dk: "steady k (addr_disk k + of_nat i)" if "i < 20" for i
    using vol range_byte [of "addr_disk k" 20 i] that by (intro st) (simp add: fixed_def fat_volume_def)
  have "disk_filesystem (mem k') (addr_disk k) = disk_filesystem (mem k) (addr_disk k)"
    using steady_load [OF s dk, of 20 12] by (simp add: disk_filesystem_def)
  then show ?thesis
    using v fat_volume_stays [OF s vol st] listing_stays(1) [OF s] steady_stays(1) [OF s] s
    by (simp add: mounted_def e sf tmp_name_def stays_def heap_area_def)
qed

lemma files_update [simp]:
  "kept (k\<lparr>file_descriptors := fs\<rparr>) = kept k" "steady (k\<lparr>file_descriptors := fs\<rparr>) = steady k"
  "stays k (k\<lparr>file_descriptors := fs\<rparr>)"
  by (simp_all add: kept_def kgeom_def klive_def steady_def tmp_name_def fun_eq_iff stays_def)

lemma files_mem: "k\<lparr>file_descriptors := fs, mem := m\<rparr> = k\<lparr>mem := m, file_descriptors := fs\<rparr>"
  for k :: "'a fs_machine_scheme"
  by (rule fs_machine.equality) simp_all

text \<open>The parsed path of a file in the root directory.\<close>

lemma parse_one:
  fixes k :: "'a fs_machine_scheme"
  assumes wf: "kwf k" and path: "kept_string k path (drive_prefix 48 s)" and s: "length s \<le> 105" "path_parts s = [nm]"
    and room: "4 \<le> kroom k" and tk: "\<And>a. a \<in> tmp_name k \<Longrightarrow> kept k a"
  obtains r k' pt ps where "pathparser_parse path 0 k = Some (r, k')" "r \<noteq> 0" "grows {} k ps k'" "length ps = 3"
    "root_drive_no (mem k') r = 0" "root_first (mem k') r = pt" "pt \<noteq> 0" "one_part k' pt nm"
    "\<And>i. i < 8 \<Longrightarrow> steady k' (r + of_nat i)"
proof -
  have "isdigit 48" "2 * length (path_parts s) + 2 \<le> kroom k" using room s(2) by (simp_all add: isdigit_def)
  from pathparser_parse_eq [OF wf path this(1) s(1) this(2), of 0, unfolded s(2)] obtain r ns k' where p: "pathparser_parse path 0 k = Some (r, k')" "r \<noteq> 0" "grows {} k (r # node_pages ns) k'"
    "root_drive_no (mem k') r = word_of_int (tonumericdigit 48)" "part_list (mem k') (root_first (mem k') r) ns"
    "map (snd \<circ> snd) ns = [nm]"
    by (elim exE conjE) (rule that)
  obtain pt q where ns: "ns = [(pt, q, nm)]" using p(6) by (cases ns) auto
  have g: "grows {} k [r, pt, q] k'" using p(3) by (simp add: ns node_pages_def)
  have n: "root_first (mem k') r = pt" "pt \<noteq> 0" "part_part (mem k') pt = q" "length nm < 108" "c_string (mem k') q nm"
    "part_next (mem k') pt = 0" using p(5) by (auto simp: ns)
  have st: "steady k' (x + of_nat i)" if "x \<in> set [r, pt, q]" "i < 4096" for x i
  proof -
    note gp = grows_page [OF g that(1)]
    have "in_range (x + of_nat i) x 4096" using page_byte [OF gp(2) that(2)] .
    then show ?thesis using gp(3,4) tk tmp_name_grows [OF g] by (auto simp: steady_def)
  qed
  have "one_part k' pt nm" using n st by (simp add: one_part_def steady_string_def)
  moreover have "steady k' (r + of_nat i)" if "i < 8" for i using that by (intro st) simp_all
  moreover have "root_drive_no (mem k') r = 0" using p(4) by (simp add: tonumericdigit_def)
  ultimately show ?thesis using that [OF p(1,2) g _ _ n(1,2)] by simp
qed

text \<open>The first cluster of an entry whose high word is 0, as FAT16 has it.\<close>

definition entry_cluster :: "u8 list \<Rightarrow> nat" where
  "entry_cluster e = unat (ucast (e ! 26) OR push_bit 8 (ucast (e ! 27)) :: u16)"

definition low_entry :: "u8 list \<Rightarrow> bool" where
  "low_entry e \<longleftrightarrow> e ! 20 = 0 \<and> e ! 21 = 0"

lemma first_cluster_entry:
  assumes "bytes_at m c e" "length e = 32" "low_entry e"
  shows "fat16_get_first_cluster m c = of_nat (entry_cluster e)" "entry_cluster e < 65536"
proof -
  have "\<forall>i < 32. m (c + of_nat i) = e ! i" using assms(1,2) by (simp add: bytes_at_nth)
  note b = this [rule_format, of 20] this [rule_format, of 21] this [rule_format, of 26] this [rule_format, of 27]
  show "entry_cluster e < 65536" by (simp add: entry_cluster_def unat_u16_lt)
  have "item_high_cluster m c = 0" using b(1,2) assms(3) by (simp add: item_high_cluster_def low_entry_def load16_def add.assoc)
  moreover have "item_low_cluster m c = ucast (e ! 26) OR push_bit 8 (ucast (e ! 27))"
    using b(3,4) by (simp add: item_low_cluster_def load16_def add.assoc)
  ultimately show "fat16_get_first_cluster m c = of_nat (entry_cluster e)"
    by (simp add: fat16_get_first_cluster_def entry_cluster_def)
qed

text \<open>The open files while something else is allocated.\<close>

lemma fd_table_kept:
  fixes k k' :: "'a fs_machine_scheme"
  assumes t: "fd_table k" and wf: "kwf k" and g: "grows W k ps k'" and W: "\<And>a. a \<in> W \<Longrightarrow> \<not> heap_area k a"
  shows "fd_table k'" "file_descriptors k' = file_descriptors k"
proof -
  show fs: "file_descriptors k' = file_descriptors k" by (rule same_rest_files [OF grows_same [OF g]])
  have "klive k' e = Some 1 \<and> desc_index (mem k') e = desc_index (mem k) e" if l: "klive k e = Some 1" for e
  proof
    show "klive k' e = Some 1" using l g by (auto simp: grows_def)
    have "page_al e" using kalloc.live_region [OF wf l] by (simp add: page_al_def)
    moreover have "mem k' a = mem k a" if "in_range a e 4096" for a
    proof -
      have "heap_area k a" using live_in_area [OF wf l, of a] that by (simp add: heap_area_def)
      then show ?thesis using W kept_live [OF l, of a] that g by (auto simp: grows_def)
    qed
    ultimately show "desc_index (mem k') e = desc_index (mem k) e" by (rule desc_index_frame)
  qed
  then show "fd_table k'" using t by (simp add: fd_table_def fs)
qed

lemma register_file:
  fixes k :: "'a fs_machine_scheme"
  assumes t: "fd_table k" and wf: "kwf k" and room: "0 < kroom k" and i: "first_null (file_descriptors k) = Some i"
  obtains desc k3 k4 where "file_new_descriptor k = Some (0, desc, k3)"
    "k4 = k3\<lparr>mem := store32 (store32 (store32 (mem k3) (desc + 4) fs) (desc + 8) pv) (desc + 12) dk\<rparr>"
    "desc \<noteq> 0" "stays k k3" "stays k k4" "kwf k4" "fd_table k4" "file_descriptors k4 = (file_descriptors k)[i := desc]"
    "desc_index (mem k4) desc = of_nat (i + 1)" "desc_filesystem (mem k4) desc = fs" "desc_private (mem k4) desc = pv"
    "desc_disk (mem k4) desc = dk" "\<And>a. kept k a \<Longrightarrow> mem k4 a = mem k a"
proof -
  have "length (file_descriptors k) = 512" using t by (simp add: fd_table_def)
  note il = first_null_Some [OF i, unfolded this]
  obtain desc k' where n: "file_new_descriptor k = Some (0, desc, k'\<lparr>file_descriptors := (file_descriptors k)[i := desc]\<rparr>)"
    "desc \<noteq> 0" "grows {} k [desc] k'" "desc_index (mem k') desc = of_nat (i + 1)"
    by (rule new_descriptor [OF t wf room i]) (rule that)
  have al: "page_al desc" and far: "\<And>a. kept k a \<Longrightarrow> \<not> in_range a desc 4096" using grows_page [OF n(3), of desc] by auto
  let ?fs = "(file_descriptors k)[i := desc]"
  let ?m = "store32 (store32 (store32 (mem k') (desc + 4) fs) (desc + 8) pv) (desc + 12) dk"
  have fr: "?m a = mem k' a" if "\<not> in_range a desc 4096" for a
    using store_entry_frame [OF al _ that, of 1] store_entry_frame [OF al _ that, of 2] store_entry_frame [OF al _ that, of 3] by simp
  have g: "grows {} k [desc] (k'\<lparr>mem := ?m\<rparr>)" using n(3) fr far by (intro grows_mem) simp_all
  have al4: "aligned4 desc" "aligned4 (desc + 4)" "aligned4 (desc + 8)" "aligned4 (desc + 12)"
    using entry_offset(2) [OF al, of 0] entry_offset(2) [OF al, of 1] entry_offset(2) [OF al, of 2] entry_offset(2) [OF al, of 3]
    by simp_all
  have ix: "desc_index ?m desc = of_nat (i + 1)" "desc_filesystem ?m desc = fs" "desc_private ?m desc = pv" "desc_disk ?m desc = dk"
    using n(4) al4 by (simp_all add: desc_index_def desc_filesystem_def desc_private_def desc_disk_def load32_store32_other)
  have s: "stays k (x\<lparr>file_descriptors := ?fs\<rparr>)" if "grows {} k [desc] x" for x
    using grows_stays [OF grows_mono [OF that]] files_update(3) stays_trans by blast
  have e: "k'\<lparr>file_descriptors := ?fs, mem := ?m\<rparr> = k'\<lparr>mem := ?m, file_descriptors := ?fs\<rparr>" by (rule files_mem)
  show ?thesis
  proof (rule that [of desc "k'\<lparr>file_descriptors := ?fs\<rparr>" "k'\<lparr>mem := ?m, file_descriptors := ?fs\<rparr>", OF n(1) _ n(2) s [OF n(3)] s [OF g]])
    show "fd_table (k'\<lparr>mem := ?m, file_descriptors := ?fs\<rparr>)"
      using fd_table_grows [OF t wf g n(2), of i] ix(1) il by simp
    show "mem (k'\<lparr>mem := ?m, file_descriptors := ?fs\<rparr>) a = mem k a" if "kept k a" for a
      using g that by (simp add: grows_def)
    show "kwf (k'\<lparr>mem := ?m, file_descriptors := ?fs\<rparr>)" using g by (simp add: grows_def kwf_def)
  qed (use e ix in simp_all)
qed

text \<open>The file made for entry \<open>e\<close>: its descriptor in the table, that of the file system, and the copy of \<open>e\<close>.\<close>

definition new_file :: "'a fs_machine_scheme \<Rightarrow> 'a fs_machine_scheme \<Rightarrow> nat \<Rightarrow> u8 list \<Rightarrow> u32 \<Rightarrow> u32 \<Rightarrow> u32 \<Rightarrow> bool" where
  "new_file k k' i e desc f c \<longleftrightarrow> file_descriptors k' = (file_descriptors k)[i := desc] \<and> desc \<noteq> 0 \<and>
     desc_filesystem (mem k') desc = addr_fat16_fs k' \<and> desc_disk (mem k') desc = addr_disk k' \<and>
     desc_private (mem k') desc = f \<and> fdesc_pos (mem k') f = 0 \<and> file_item (mem k') (fdesc_item (mem k') f) c e \<and>
     page_al f \<and> page_al c \<and> (\<forall>a. in_range a f 4096 \<or> in_range a c 4096 \<longrightarrow> \<not> kept k a)"

lemma fopen_ok:
  fixes k :: "'a fs_machine_scheme"
  assumes wf: "kwf k" and mt: "mounted k img g es" and tb: "fd_table k" and i: "first_null (file_descriptors k) = Some i"
    and path: "kept_string k path (drive_prefix 48 s)" "length s \<le> 105" "path_parts s = [nm]"
    and mode: "steady k mode" "mem k mode = 114"
    and room: "2 * length (matches nm es) + 5 \<le> kroom k" and fl: "\<And>e. e \<in> set (matches nm es) \<Longrightarrow> is_file e"
  obtains fd k' where "fopen path mode k = Some (fd, k')" "stays k k'" "kwf k'" "fd_table k'"
    "matches nm es = [] \<Longrightarrow> fd = 0 \<and> file_descriptors k' = file_descriptors k"
    "matches nm es \<noteq> [] \<Longrightarrow> fd = int (i + 1) \<and> (\<exists>desc f c. new_file k k' i (last (matches nm es)) desc f c)"
proof -
  let ?e = "last (matches nm es)" and ?D = "addr_disk k"
  have area: "\<not> heap_area k a" if "a \<in> tmp_name k" for a using mt that by (simp add: mounted_def)
  have tk: "kept k a" if "a \<in> tmp_name k" for a using not_heap_kept area that .
  obtain r k1 pt ps where p: "pathparser_parse path 0 k = Some (r, k1)" "r \<noteq> 0" "grows {} k ps k1" "length ps = 3"
    "root_drive_no (mem k1) r = 0" "root_first (mem k1) r = pt" "pt \<noteq> 0" "one_part k1 pt nm"
    "\<And>i. i < 8 \<Longrightarrow> steady k1 (r + of_nat i)"
    by (rule parse_one [OF wf path _ tk]) (use room in simp, assumption, rule that)
  have g1: "grows (tmp_name k) k ps k1" using p(3) by (rule grows_mono) simp
  note s1 = grows_stays [OF g1]
  have e1: "addr_disk k1 = ?D" "addr_fat16_fs k1 = addr_fat16_fs k" using s1 by (simp_all add: stays_def)
  have m1: "mounted k1 img g es" by (rule mounted_stays [OF s1 mt])
  have wf1: "kwf k1" and r1: "kroom k = kroom k1 + 3" using g1 p(4) by (simp_all add: grows_def)
  have md: "mem k1 mode = 114" using steady_stays(2) [OF s1 mode(1)] mode(2) by simp
  have tk1: "kept k1 a" if "a \<in> tmp_name k1" for a
    using that tk tmp_name_grows [OF g1] grows_kept [OF g1] by simp
  have v1: "fat_volume k1 img g" "disk_filesystem (mem k1) ?D = addr_fat16_fs k" "addr_fat16_fs k \<noteq> 0" "?D \<noteq> 0"
    "listing k1 (root_directory (disk_fs_private (mem k1) ?D)) es"
    using m1 e1 by (simp_all add: mounted_def fat_volume_def volume_fields_def)
  have st1: "steady k1 (?D + of_nat i)" if "i < 20" for i
  proof -
    have "unat ?D + 20 \<le> 4294967296" using v1(1) e1 by (simp add: fat_volume_def)
    then have "fixed k1 g (?D + of_nat i)" using range_byte [of ?D 20 i] that e1 by (simp add: fixed_def)
    then show ?thesis using m1 unfolding mounted_def by blast
  qed
  note len = mounted_entry [OF m1]
  have r1': "2 * length (matches nm es) + 1 \<le> kroom k1" using room r1 by simp
  from fat16_open_ok [OF wf1 v1(5) p(8) tk1 st1 r1' fl len] obtain d qs k2 where
    d: "fat16_open ?D pt FILE_MODE_READ k1 = Some (if matches nm es = [] then ERROR (- EIO) else d, k2)"
      "grows (tmp_name k1) k1 qs k2" "length qs = 2 * length (matches nm es) + 1"
      "matches nm es \<noteq> [] \<longrightarrow> opened k2 qs d ?e" by blast
  have g2: "grows (tmp_name k) k (ps @ qs) k2" using d(2) tmp_name_grows [OF g1] by (intro grows_trans [OF g1]) simp_all
  note s2 = grows_stays [OF g2]
  have t2: "fd_table k2" "file_descriptors k2 = file_descriptors k" by (rule fd_table_kept [OF tb wf g2], erule area)+
  have wf2: "kwf k2" and r2: "0 < kroom k2" using g2 room p(4) d(3) by (simp_all add: grows_def)
  have body: "fopen_body path mode k = (let private = (if matches nm es = [] then ERROR (- EIO) else d) in
      if ISERR (ERROR_I private) then Some (ERROR_I private, k2)
      else do {
        (res, desc, k) \<leftarrow> file_new_descriptor k2;
        if res < 0 then Some (res, k)
        else let m = store32 (mem k) (desc + 4) (disk_filesystem (mem k) ?D); m = store32 m (desc + 8) private; m = store32 m (desc + 12) ?D
             in Some (sint (desc_index m desc), k\<lparr>mem := m\<rparr>)
      })"
    using p(1,2,5,6,7) e1 v1(2-4) md d(1)
    by (simp add: fopen_body_def disk_get_def is_fat16_def file_get_mode_by_string_def Let_def split del: if_split cong: if_cong)
  show ?thesis
  proof (cases "matches nm es = []")
    case True
    have "sint (ERROR (- EIO)) = - EIO" by (simp add: ERROR_def status_simps)
    then have "fopen path mode k = Some (0, k2)" using body True by (simp add: fopen_def ISERR_def ERROR_I_def status_simps)
    with that s2 wf2 t2 True show ?thesis by blast
  next
    case False
    then have op: "opened k2 qs d ?e" using d(4) by simp
    then have dq: "d \<in> set qs" by (simp add: opened_def)
    note gd = grows_page [OF d(2) dq]
    have "sint d = int (unat d)" using gd(5) by (intro sint_eq_unat) simp
    then have ne: "\<not> ISERR (ERROR_I d)" by (simp add: ISERR_def ERROR_I_def)
    have i2: "first_null (file_descriptors k2) = Some i" using i t2(2) by simp
    have il: "i < 512" using first_null_Some [OF i] tb by (simp add: fd_table_def)
    obtain desc k3 k4 where n: "file_new_descriptor k2 = Some (0, desc, k3)"
      "k4 = k3\<lparr>mem := store32 (store32 (store32 (mem k3) (desc + 4) (addr_fat16_fs k)) (desc + 8) d) (desc + 12) ?D\<rparr>"
      "desc \<noteq> 0" "stays k2 k3" "stays k2 k4" "kwf k4" "fd_table k4" "file_descriptors k4 = (file_descriptors k2)[i := desc]"
      "desc_index (mem k4) desc = of_nat (i + 1)" "desc_filesystem (mem k4) desc = addr_fat16_fs k" "desc_private (mem k4) desc = d"
      "desc_disk (mem k4) desc = ?D" "\<And>a. kept k2 a \<Longrightarrow> mem k4 a = mem k2 a"
      by (rule register_file [OF t2(1) wf2 r2 i2]) (rule that)
    have s3: "stays k k3" "stays k k4" using n(4,5) s2 stays_trans by blast+
    have "disk_filesystem (mem k3) ?D = addr_fat16_fs k"
      using mounted_stays [OF s3(1) mt] s3(1) by (simp add: mounted_def stays_def)
    moreover have "sint (of_nat (i + 1) :: u32) = int (i + 1)" using sint_small_int [of "int (i + 1)"] il by simp
    ultimately have "fopen_body path mode k = Some (int (i + 1), k4)"
      using body False ne n(1,2,9) by (simp add: Let_def del: of_nat_Suc of_int_of_nat_eq of_nat_add)
    then have fo: "fopen path mode k = Some (int (i + 1), k4)" by (simp add: fopen_def)
    obtain c where c: "fdesc_item (mem k2) d \<in> set qs" "c \<in> set qs" "file_item (mem k2) (fdesc_item (mem k2) d) c ?e"
      using op by (auto simp: opened_def found_def)
    have pg: "mem k4 a = mem k2 a" if "in_range a x 4096" "x \<in> set qs" for a x
      using n(13) grows_page(4) [OF d(2) that(2,1)] .
    have "fdesc_item (mem k4) d = fdesc_item (mem k2) d" "fdesc_pos (mem k4) d = 0"
      using page_load_cong [of d "mem k4" "mem k2" 0, OF pg [OF _ dq] gd(2)] page_load_cong [of d "mem k4" "mem k2" 1, OF pg [OF _ dq] gd(2)]
        op by (simp_all add: fdesc_item_def fdesc_pos_def opened_def)
    moreover have "length ?e = 32" using len last_in_set [OF False] by (simp add: matches_def)
    then have "file_item (mem k4) (fdesc_item (mem k2) d) c ?e"
      using file_item_cong [OF c(3) grows_page(2) [OF d(2) c(1)] grows_page(2) [OF d(2) c(2)], of "mem k4"] pg c(1,2) by auto
    moreover have "\<not> kept k a" if "in_range a d 4096 \<or> in_range a c 4096" for a
      using that grows_page(3) [OF g2, of d a] grows_page(3) [OF g2, of c a] dq c(2) by auto
    moreover have "addr_fat16_fs k4 = addr_fat16_fs k" "addr_disk k4 = ?D" using s3(2) by (simp_all add: stays_def)
    ultimately have nf: "new_file k k4 i ?e desc d c"
      using n(3,8,10-12) t2(2) gd(2) grows_page(2) [OF d(2) c(2)] by (simp add: new_file_def)
    show ?thesis by (rule that [OF fo s3(2) n(6,7)]) (use False nf in blast)+
  qed
qed

text \<open>The hypotheses of an \<open>fopen\<close>: a mounted volume, the tables in order, memory for what is built, and a path
  of one part. \<open>i\<close> is the first free entry of the table of open files.\<close>

definition can_open :: "'a fs_machine_scheme \<Rightarrow> (nat \<Rightarrow> u8) \<Rightarrow> fat_geom \<Rightarrow> u8 list list \<Rightarrow> nat \<Rightarrow> u32 \<Rightarrow> u8 list \<Rightarrow> u32 \<Rightarrow> bool" where
  "can_open k img g es i path nm mode \<longleftrightarrow> kwf k \<and> mounted k img g es \<and> fd_table k \<and> first_null (file_descriptors k) = Some i \<and> i < 511 \<and>
     (\<exists>s. kept_string k path (drive_prefix 48 s) \<and> length s \<le> 105 \<and> path_parts s = [nm]) \<and> steady k mode \<and> mem k mode = 114 \<and>
     2 * length (matches nm es) + 5 \<le> kroom k \<and> (\<forall>e \<in> set (matches nm es). is_file e \<and> low_entry e)"

lemma fopen_opens:
  fixes k :: "'a fs_machine_scheme"
  assumes co: "can_open k img g es i path nm mode"
  obtains fd k' where "fopen path mode k = Some (fd, k')" "stays k k'" "mounted k' img g es" "kwf k'" "fd_table k'"
    "matches nm es = [] \<Longrightarrow> fd = 0 \<and> file_descriptors k' = file_descriptors k"
    "matches nm es \<noteq> [] \<Longrightarrow> fd = int i + 1 \<and> (\<forall>j. j \<noteq> fd \<longrightarrow> file_get_descriptor j k' = file_get_descriptor j k) \<and>
       (\<exists>f item. open_file k' fd f item (entry_cluster (last (matches nm es))) 0 \<and> unat f + 4096 \<le> 4294967296 \<and>
         unat item + 4096 \<le> 4294967296 \<and> (\<forall>a. in_range a f 4096 \<or> in_range a item 4096 \<longrightarrow> \<not> kept k a))"
proof -
  let ?e = "last (matches nm es)"
  obtain s where s: "kept_string k path (drive_prefix 48 s)" "length s \<le> 105" "path_parts s = [nm]"
    using co by (auto simp: can_open_def)
  have h: "kwf k" "mounted k img g es" "fd_table k" "first_null (file_descriptors k) = Some i" "i < 511" "steady k mode"
    "mem k mode = 114" "2 * length (matches nm es) + 5 \<le> kroom k"
    and fl: "\<And>e. e \<in> set (matches nm es) \<Longrightarrow> is_file e" and lo: "\<And>e. e \<in> set (matches nm es) \<Longrightarrow> low_entry e"
    using co by (simp_all add: can_open_def)
  obtain fd k' where k': "fopen path mode k = Some (fd, k')" "stays k k'" "kwf k'" "fd_table k'"
    "matches nm es = [] \<Longrightarrow> fd = 0 \<and> file_descriptors k' = file_descriptors k"
    "matches nm es \<noteq> [] \<Longrightarrow> fd = int (i + 1) \<and> (\<exists>desc f c. new_file k k' i ?e desc f c)"
    by (rule fopen_ok [OF h(1-4) s h(6-8) fl]) (assumption, rule that)
  have len: "length (file_descriptors k) = 512" using h(3) by (simp add: fd_table_def)
  show ?thesis
  proof (rule that [OF k'(1,2) mounted_stays [OF k'(2) h(2)] k'(3,4,5)])
    assume ne: "matches nm es \<noteq> []"
    from k'(6) [OF ne] obtain desc f c where fd: "fd = int (i + 1)" and d: "new_file k k' i ?e desc f c" by blast
    let ?it = "fdesc_item (mem k') f"
    note d = d [unfolded new_file_def]
    have em: "?e \<in> set (matches nm es)" using ne by simp
    note el = mounted_entry [OF h(2) matches_entry [OF em]]
    have bt: "bytes_at (mem k') c ?e" and it: "fitem_ptr (mem k') ?it = c" using d by (simp_all add: file_item_def)
    note cl = first_cluster_entry [OF bt el lo [OF em]]
    have fs: "file_descriptors k' = (file_descriptors k)[i := desc]" using d by blast
    have fg: "file_get_descriptor fd k' = desc" using fd fs h(5) len by (simp add: file_get_descriptor_def)
    have og: "file_get_descriptor j k' = file_get_descriptor j k" if "j \<noteq> fd" for j
      using that fd fs h(5) len by (auto simp: file_get_descriptor_def nth_list_update)
    have "open_file k' fd f c (entry_cluster ?e) 0"
      unfolding open_file_def Let_def fg is_fat16_def using fd d cl it by simp
    moreover have "unat f + 4096 \<le> 4294967296" "unat c + 4096 \<le> 4294967296" using d by (auto elim!: page_alE)
    moreover have "\<forall>a. in_range a f 4096 \<or> in_range a c 4096 \<longrightarrow> \<not> kept k a" using d by blast
    ultimately show "fd = int i + 1 \<and> (\<forall>j. j \<noteq> fd \<longrightarrow> file_get_descriptor j k' = file_get_descriptor j k) \<and>
      (\<exists>f item. open_file k' fd f item (entry_cluster ?e) 0 \<and> unat f + 4096 \<le> 4294967296 \<and>
         unat item + 4096 \<le> 4294967296 \<and> (\<forall>a. in_range a f 4096 \<or> in_range a item 4096 \<longrightarrow> \<not> kept k a))"
      using og fd by (intro conjI exI [of _ f] exI [of _ c]) simp_all
  qed
qed

section \<open>An example\<close>

text \<open>A root directory of two files, the second with 600 bytes from cluster 3 on.\<close>

definition readme_entry :: "u8 list" where
  "readme_entry = chars ''README     '' @ [0x20] @ replicate 14 0 @ [2, 0, 5, 0, 0, 0]"

definition hello_entry :: "u8 list" where
  "hello_entry = chars ''HELLO   TXT'' @ [0x20] @ replicate 14 0 @ [3, 0, 88, 2, 0, 0]"

definition fopen_mem :: mem where
  "fopen_mem = copy_out 0xB000 (readme_entry @ hello_entry) (copy_out 0xC000 (chars ''0:/hello.txt'' @ [0])
     ((fat_mem 0)(0x800D := 0x50, 0x6041 := 0xB0, 0x6044 := 2, 0xC100 := 114)))"

definition fopen_machine :: "(io_event list \<Rightarrow> u16 \<Rightarrow> u16) \<Rightarrow> fs_machine" where
  "fopen_machine dw = (fat_machine dw 0)\<lparr>mem := fopen_mem, local_addr := (\<lambda>_. 0x4000)(Tmp_filename := 0x4100),
     file_descriptors := replicate 512 0\<rparr>"

lemma copied_bytes: "length xs < 4294967296 \<Longrightarrow> bytes_at (copy_out p xs m) p xs"
  by (auto simp: bytes_at_nth copy_out_eq unat_of_nat_u32)

lemma copy_out_at:
  "length xs = n \<Longrightarrow> n < 4294967296 \<Longrightarrow> copy_out p xs m a = (if unat (a - p) < n then xs ! unat (a - p) else m a)"
  by (simp add: copy_out_eq)

lemma fopen_lengths: "length readme_entry = 32" "length hello_entry = 32" "length (chars ''0:/hello.txt'' @ [0]) = 13"
  by (simp_all add: readme_entry_def hello_entry_def chars_def)

lemma fopen_mem_eq:
  "fopen_mem a = (if unat (a - 0xB000) < 64 then (readme_entry @ hello_entry) ! unat (a - 0xB000)
     else if unat (a - 0xC000) < 13 then (chars ''0:/hello.txt'' @ [0]) ! unat (a - 0xC000)
     else ((fat_mem 0)(0x800D := 0x50, 0x6041 := 0xB0, 0x6044 := 2, 0xC100 := 114)) a)"
proof -
  have l: "length (readme_entry @ hello_entry) = 64" by (simp add: fopen_lengths)
  have n: "(64 :: nat) < 4294967296" "(13 :: nat) < 4294967296" by simp_all
  show ?thesis unfolding fopen_mem_def copy_out_at [OF l n(1)] copy_out_at [OF fopen_lengths(3) n(2)] by (rule refl)
qed

lemma fopen_entries:
  "bytes_at fopen_mem 0xB000 readme_entry" "bytes_at fopen_mem 0xB020 hello_entry"
proof -
  note l = fopen_lengths
  have "bytes_at fopen_mem 0xB000 (readme_entry @ hello_entry)" unfolding fopen_mem_def by (rule copied_bytes) (simp add: l)
  then show "bytes_at fopen_mem 0xB000 readme_entry" "bytes_at fopen_mem 0xB020 hello_entry"
    by (simp_all add: bytes_at_append l)
qed

lemma fopen_ok_entries: "entry_ok readme_entry" "entry_ok hello_entry"
  by (simp_all add: entry_ok_def readme_entry_def hello_entry_def chars_def name_char_def)

lemma fopen_geom: "kgeom (fopen_machine dw) = (0x01000000, 25600)"
  using kheap_init_rep [of machine4] by (simp add: kgeom_def fopen_machine_def fat_machine_def heap_rep_def)

lemma fopen_steady:
  assumes "unat a < 16777216" "\<not> in_range a 0x4100 108"
  shows "steady (fopen_machine dw) a"
proof -
  have "kept (fopen_machine dw) a" using assms(1) by (simp add: kept_def in_range_def fopen_geom)
  moreover have "unat (a - 0x4100) < 108 \<longleftrightarrow> in_range a 0x4100 108" using in_range_diff [of "0x4100" 108 a] by simp
  ultimately show ?thesis using assms(2) by (simp add: steady_def tmp_name_def fopen_machine_def)
qed

lemma fopen_names:
  "entry_name readme_entry = chars ''README''" "entry_name hello_entry = chars ''HELLO.TXT''"
  "matches (chars ''hello.txt'') [readme_entry, hello_entry] = [hello_entry]"
proof -
  show n: "entry_name readme_entry = chars ''README''" "entry_name hello_entry = chars ''HELLO.TXT''"
    by (simp_all add: entry_name_def readme_entry_def hello_entry_def chars_def name_char_def)
  show "matches (chars ''hello.txt'') [readme_entry, hello_entry] = [hello_entry]"
    by (simp add: matches_def n) (simp add: chars_def toLower_def)
qed

lemma fopen_machine_mounted:
  assumes ata: "ata_holds (fopen_machine dw) img"
  shows "mounted (fopen_machine dw) img sample_geom [readme_entry, hello_entry]"
proof -
  let ?k = "fopen_machine dw" and ?g = sample_geom
  have vf: "volume_fields (mem ?k) (addr_disk ?k) ?g"
    by (simp add: volume_fields_def fopen_machine_def fat_machine_def sample_geom_def disk_fs_private_def disk_sector_size_def fat_read_stream_def
        cluster_read_stream_def reserved_sectors_def sectors_per_cluster_def dir_ending_sector_pos_def load16u_def load8_def
        load16_def load32_def fopen_mem_eq fat_mem_def)
  have st: "stream_at ?k (v_fat ?g) 0" "stream_at ?k (v_data ?g) 0"
    by (simp_all add: stream_at_def aligned4_def sample_geom_def fopen_machine_def fat_machine_def stream_pos_def stream_disk_def load32_def
        fopen_mem_eq fat_mem_def)
  have ap: "fixed ?k ?g a \<longrightarrow> \<not> scratch ?k ?g a" for a
    by (auto simp: fixed_def scratch_def fopen_machine_def fat_machine_def sample_geom_def in_range_def)
  have vol: "fat_volume ?k img ?g"
    using ata vf st ap by (auto simp: fat_volume_def) (auto simp: sample_geom_def fopen_machine_def fat_machine_def in_range_def)
  have di: "dir_item (mem ?k) 0x6040 = 0xB000" "dir_total (mem ?k) 0x6040 = 2"
    by (simp_all add: dir_item_def dir_total_def load32_def fopen_machine_def fopen_mem_eq fat_mem_def)
  have ur: "steady ?k (p + of_nat i)" if "i < n" "unat p + n \<le> 16777216" "unat p \<ge> 0x4200" for p n i
  proof -
    have "in_range (p + of_nat i) p n" using that by (intro range_byte) simp_all
    then show ?thesis using that by (intro fopen_steady) (auto simp: in_range_def)
  qed
  have rd: "root_directory (0x6000 :: u32) = 0x6040" by simp
  have u6: "unat (0x6040 :: u32) = 0x6040" "unat (0xB000 :: u32) = 0xB000" "unat (0xB020 :: u32) = 0xB020" by simp_all
  have s6: "steady ?k (0x6040 + of_nat i)" if "i < 8" for i using that by (rule ur) simp_all
  have sB: "steady ?k (p + of_nat i)" if "i < 32" "p = 0xB000 \<or> p = 0xB020" for p i
    using that(1) by (rule ur) (use that(2) in auto)
  have mk: "mem ?k = fopen_mem" by (simp add: fopen_machine_def)
  have "listing ?k (root_directory 0x6000) [readme_entry, hello_entry]"
    unfolding listing_def rd di
  proof (intro conjI allI impI)
    fix i :: nat
    assume "i < length [readme_entry, hello_entry]"
    then have i: "i = 0 \<or> i = 1" by auto
    then show "entry_ok ([readme_entry, hello_entry] ! i)" using fopen_ok_entries by auto
    show "bytes_at (mem ?k) (0xB000 + of_nat i * 32) ([readme_entry, hello_entry] ! i)"
      using i fopen_entries(1,2) unfolding mk by (elim disjE) (simp_all only: of_nat_0 of_nat_1 mult_zero_left mult_1 nth_Cons_0 nth_Cons_Suc One_nat_def, simp_all)
    show "steady ?k (0xB000 + of_nat i * 32 + of_nat j)" if "j < 32" for j using i sB [OF that, of "0xB000"] sB [OF that, of "0xB020"] by auto
  qed (use s6 in \<open>simp_all add: u6\<close>)
  moreover have "steady ?k a" if "fixed ?k ?g a \<or> scratch ?k ?g a" for a
    using that by (intro fopen_steady) (auto simp: fixed_def scratch_def fopen_machine_def fat_machine_def sample_geom_def in_range_def)
  moreover have "\<not> heap_area ?k a" if "a \<in> tmp_name ?k" for a
  proof -
    have "in_range a 0x4100 108"
      using that in_range_diff [of "0x4100" 108 a] by (simp add: tmp_name_def fopen_machine_def)
    then show ?thesis by (simp add: heap_area_def in_range_def fopen_geom)
  qed
  moreover have "disk_filesystem (mem ?k) (addr_disk ?k) = addr_fat16_fs ?k" "addr_fat16_fs ?k \<noteq> 0" "addr_disk ?k \<noteq> 0"
    by (simp_all add: disk_filesystem_def fopen_machine_def fat_machine_def load32_def fopen_mem_eq fat_mem_def)
  ultimately show ?thesis using vol by (simp add: mounted_def) (simp add: sample_geom_def)
qed

lemma first_null_replicate: "0 < n \<Longrightarrow> first_null (replicate n 0) = Some 0"
  by (cases n) simp_all

lemma fopen_machine_can_open:
  assumes ata: "ata_holds (fopen_machine dw) img"
  shows "can_open (fopen_machine dw) img sample_geom [readme_entry, hello_entry] 0 0xC000 (chars ''hello.txt'') 0xC100"
proof -
  let ?k = "fopen_machine dw" and ?s = "chars ''hello.txt''"
  have mk: "mem ?k = fopen_mem" by (simp add: fopen_machine_def)
  have pre: "drive_prefix 48 ?s @ [0] = chars ''0:/hello.txt'' @ [0]" by (simp add: drive_prefix_def chars_def)
  have "bytes_at fopen_mem 0xC000 (chars ''0:/hello.txt'' @ [0])"
  proof -
    have "\<not> unat (0xC000 + of_nat i - 0xB000 :: u32) < 64 \<and> unat (0xC000 + of_nat i - 0xC000 :: u32) = i" if "i < 13" for i
    proof -
      have "unat (of_nat i :: u32) = i" using that by (intro unat_of_nat_u32) linarith
      moreover have "unat (0x1000 + of_nat i :: u32) = 0x1000 + i" using page_offset [of "0x1000" i] that by (simp add: page_al_def)
      ultimately show ?thesis by simp
    qed
    then show ?thesis unfolding bytes_at_nth fopen_lengths fopen_mem_eq by simp
  qed
  moreover have "0 \<notin> set (drive_prefix 48 ?s)" by (simp add: drive_prefix_def chars_def)
  ultimately have cs: "c_string (mem ?k) 0xC000 (drive_prefix 48 ?s)" by (simp only: c_string_def pre mk simp_thms)
  have "kept ?k (0xC000 + of_nat j)" if "j \<le> length (drive_prefix 48 ?s)" for j
  proof -
    have "j < 4096" using that by (simp add: drive_prefix_def chars_def)
    then have "unat (0xC000 + of_nat j :: u32) = 0xC000 + j" using page_offset [of "0xC000" j] by (simp add: page_al_def)
    then show ?thesis using \<open>j < 4096\<close> by (simp add: kept_def in_range_def fopen_geom)
  qed
  with cs have ks: "kept_string ?k 0xC000 (drive_prefix 48 ?s)" by (simp add: kept_string_def)
  have pp: "path_parts ?s = [?s]" by (simp add: path_parts.simps chars_def)
  have "kernel_heap ?k = kernel_heap (kheap_init machine4)" by (simp add: fopen_machine_def fat_machine_def)
  then have kw: "kwf ?k" "kroom ?k = 25600" using booted_machine by (simp_all add: kwf_def kroom_def)
  have fd: "fd_table ?k" "first_null (file_descriptors ?k) = Some 0"
    by (simp_all add: fd_table_def fopen_machine_def first_null_replicate)
  have md: "mem ?k 0xC100 = 114" "steady ?k 0xC100"
    using fopen_steady [of "0xC100" dw] by (simp_all add: mk fopen_mem_eq in_range_def)
  have en: "is_file hello_entry" "low_entry hello_entry"
    by (simp_all add: is_file_def low_entry_def hello_entry_def chars_def nth_append)
  have "\<exists>s. kept_string ?k 0xC000 (drive_prefix 48 s) \<and> length s \<le> 105 \<and> path_parts s = [?s]"
    using ks pp by (intro exI [of _ ?s]) (simp add: chars_def)
  then show ?thesis using kw fd md en fopen_machine_mounted [OF ata] by (simp add: can_open_def fopen_names)
qed

lemma fopen_machine_ata: "ata_holds (fopen_machine (drive_word img)) img"
  by (rule drive_holds) (simp_all add: fopen_machine_def fat_machine_def)

lemma hello_cluster: "entry_cluster hello_entry = 3"
  by (simp add: entry_cluster_def hello_entry_def chars_def nth_append)

section \<open>Properties\<close>

text \<open>C3. \<open>fopen\<close> on a path \<^verbatim>\<open>0:/name\<close> in mode \<^verbatim>\<open>r\<close> returns 0 when no entry of the root directory has the
  name up to case, and otherwise the lowest free number, now an open file at position 0 of the first cluster
  of the last such entry. The other open files, the volume and every byte in use stay as they are.\<close>

theorem fopen_correct:
  fixes k :: "'a fs_machine_scheme"
  assumes "can_open k img g es i path nm mode"
  shows "\<exists>fd k'. fopen path mode k = Some (fd, k') \<and> mounted k' img g es \<and> kwf k' \<and> fd_table k' \<and>
    (\<forall>a. steady k a \<longrightarrow> mem k' a = mem k a) \<and>
    (if matches nm es = [] then fd = 0 \<and> file_descriptors k' = file_descriptors k
     else fd = int i + 1 \<and> (\<forall>j. j \<noteq> fd \<longrightarrow> file_get_descriptor j k' = file_get_descriptor j k) \<and>
       (\<exists>f item. open_file k' fd f item (entry_cluster (last (matches nm es))) 0))"
proof -
  obtain fd k' where k': "fopen path mode k = Some (fd, k')" "stays k k'" "mounted k' img g es" "kwf k'" "fd_table k'"
    "matches nm es = [] \<Longrightarrow> fd = 0 \<and> file_descriptors k' = file_descriptors k"
    "matches nm es \<noteq> [] \<Longrightarrow> fd = int i + 1 \<and> (\<forall>j. j \<noteq> fd \<longrightarrow> file_get_descriptor j k' = file_get_descriptor j k) \<and>
       (\<exists>f item. open_file k' fd f item (entry_cluster (last (matches nm es))) 0 \<and> unat f + 4096 \<le> 4294967296 \<and>
         unat item + 4096 \<le> 4294967296 \<and> (\<forall>a. in_range a f 4096 \<or> in_range a item 4096 \<longrightarrow> \<not> kept k a))"
    by (rule fopen_opens [OF assms]) (rule that)
  have "mem k' a = mem k a" if "steady k a" for a using k'(2) that by (simp add: stays_def)
  moreover have "\<exists>f item. open_file k' fd f item (entry_cluster (last (matches nm es))) 0" if "matches nm es \<noteq> []"
    using k'(7) [OF that] by blast
  ultimately show ?thesis using k' by auto
qed

text \<open>C6. A file can be read by its name, as far as its first cluster goes (64 KB on the disk that
  \<^verbatim>\<open>src/boot/boot.asm\<close> describes): when the root directory has it, opening \<^verbatim>\<open>0:/name\<close> and reading from the number
  returned delivers the bytes of the file from its beginning into any buffer that is in use and not part of the
  volume.\<close>

theorem read_by_name:
  fixes k :: "'a fs_machine_scheme"
  assumes "can_open k img g es i path nm mode" "matches nm es \<noteq> []" "c = entry_cluster (last (matches nm es))"
    and "2 \<le> c" "c < v_clusters g" "0 < sz" "0 < m" "m * sz \<le> cluster_bytes g"
    and "buffer_ok k g out (m * sz)" "\<And>a. unat (a - out) < m * sz \<Longrightarrow> kept k a"
  shows "\<exists>k' k''. fopen path mode k = Some (int i + 1, k') \<and> fread out (of_nat sz) (of_nat m) (int i + 1) k' = Some (int m, k'') \<and>
    (\<forall>j < m * sz. mem k'' (out + of_nat j) = file_byte img g c j) \<and> fat_volume k'' img g"
proof -
  obtain fd k' where k': "fopen path mode k = Some (fd, k')" "stays k k'" "mounted k' img g es"
    "matches nm es \<noteq> [] \<Longrightarrow> fd = int i + 1 \<and> (\<forall>j. j \<noteq> fd \<longrightarrow> file_get_descriptor j k' = file_get_descriptor j k) \<and>
       (\<exists>f item. open_file k' fd f item (entry_cluster (last (matches nm es))) 0 \<and> unat f + 4096 \<le> 4294967296 \<and>
         unat item + 4096 \<le> 4294967296 \<and> (\<forall>a. in_range a f 4096 \<or> in_range a item 4096 \<longrightarrow> \<not> kept k a))"
    by (rule fopen_opens [OF assms(1)]) (rule that)
  from k'(4) [OF assms(2)] obtain f item where fd: "fd = int i + 1" and f: "open_file k' fd f item c 0" "unat f + 4096 \<le> 4294967296"
    "unat item + 4096 \<le> 4294967296" "\<And>a. in_range a f 4096 \<or> in_range a item 4096 \<Longrightarrow> \<not> kept k a"
    unfolding assms(3) by blast
  have sf: "scratch k' g = scratch k g" "fixed k' g = fixed k g"
    using k'(2) by (simp_all add: stays_def scratch_def fixed_def fun_eq_iff)
  have v: "fat_volume k' img g" using k'(3) by (simp add: mounted_def)
  have sk: "kept k a" if "scratch k g a" for a using assms(1) that by (auto simp: can_open_def mounted_def steady_def)
  have "file_apart k' g out (m * sz) f item"
    unfolding file_apart_def
  proof (intro conjI allI impI)
    fix a
    assume "in_range a item 32 \<or> in_range a f 8"
    then have "\<not> kept k a" by (intro f(4)) (auto simp: in_range_def)
    then show "\<not> scratch k' g a" "\<not> unat (a - out) < m * sz" using sk sf assms(10) by auto
  qed (use f in simp_all)
  moreover have "buffer_ok k' g out (m * sz)" using assms(9) by (simp add: buffer_ok_def sf)
  moreover have "0 + m * sz < 2147483648"
  proof -
    have "v_spc g < 256" using v by (simp add: fat_volume_def)
    then show ?thesis using assms(8) by (simp add: cluster_bytes_def)
  qed
  moreover have "in_step g (0 + j * sz) sz" if "j < m" for j
  proof -
    have "(j + 1) * sz \<le> m * sz" using that by (intro mult_le_mono1) simp
    then show ?thesis using first_cluster_step [of j sz g] assms(6,8) by simp
  qed
  moreover have "0 < m * sz" using assms(6,7) by simp
  note fc = first_cluster [OF assms(4,5) this assms(8)]
  moreover have "walk_covers img g c 0 (m * sz)" using walk_file(1) [of img g c 0 "m * sz"] fc by simp
  ultimately obtain k'' where "fread out (of_nat sz) (of_nat m) fd k' = Some (int m, k'')"
    "\<forall>j < m * sz. mem k'' (out + of_nat j) = walked_byte img g c (0 + j)" "fat_volume k'' img g"
    using fread_ok [OF v f(1) _ _ assms(6,7), of out] by blast
  moreover have "walked_byte img g c j = file_byte img g c j" if "j < m * sz" for j
    using walk_file(2) [of img g c 0 "m * sz" j] fc that by simp
  ultimately show ?thesis using k'(1) fd by auto
qed

text \<open>The second file of the example.\<close>

theorem fopen_correct_witness:
  "\<exists>k' f item. fopen 0xC000 0xC100 (fopen_machine (drive_word linked_image)) = Some (1, k') \<and> open_file k' 1 f item 3 0"
  using fopen_correct [OF fopen_machine_can_open [OF fopen_machine_ata, of linked_image]] by (auto simp: fopen_names hello_cluster)

theorem read_by_name_witness:
  "\<exists>k' k''. fopen 0xC000 0xC100 (fopen_machine (drive_word linked_image)) = Some (1, k') \<and>
     fread 0xA000 512 1 1 k' = Some (1, k'') \<and> mem k'' 0xA000 = 11 \<and> mem k'' (0xA000 + 511) = 11"
proof -
  let ?k = "fopen_machine (drive_word linked_image)" and ?g = sample_geom
  note co = fopen_machine_can_open [OF fopen_machine_ata]
  have ne: "matches (chars ''hello.txt'') [readme_entry, hello_entry] \<noteq> []" by (simp add: fopen_names)
  have cl: "3 = entry_cluster (last (matches (chars ''hello.txt'') [readme_entry, hello_entry]))" by (simp add: fopen_names hello_cluster)
  have range: "unat (a - 0xA000) < 1 * 512 \<longleftrightarrow> in_range a 0xA000 512" for a :: u32 using in_range_diff [of "0xA000" 512 a] by simp
  have ap: "buffer_ok ?k ?g 0xA000 (1 * 512)" unfolding buffer_ok_def range
    by (auto simp: scratch_def fixed_def sample_geom_def fopen_machine_def fat_machine_def in_range_def)
  have kp: "kept ?k a" if "unat (a - 0xA000) < 1 * 512" for a
    using that unfolding range by (auto simp: kept_def in_range_def fopen_geom)
  have c: "2 \<le> (3 :: nat)" "3 < v_clusters ?g" "0 < (512 :: nat)" "0 < (1 :: nat)" "1 * 512 \<le> cluster_bytes ?g"
    by (simp_all add: sample_geom_def cluster_bytes_def)
  have fb: "file_byte linked_image ?g 3 0 = 11" "file_byte linked_image ?g 3 511 = 11"
    by (simp_all add: file_byte_def cluster_bytes_def) (simp_all add: cluster_pos_def sample_geom_def linked_image_def)
  from read_by_name [OF co ne cl c ap kp] obtain k' k'' where
    k': "fopen 0xC000 0xC100 ?k = Some (1, k')" "fread 0xA000 512 1 1 k' = Some (1, k'')"
    "\<forall>i < 512. mem k'' (0xA000 + of_nat i) = file_byte linked_image ?g 3 i" by auto
  then show ?thesis using k'(3) [rule_format, of 0] k'(3) [rule_format, of 511] fb by auto
qed

end
