(* ===== verification/Mount.thy ===== *)
theory Mount
  imports Fopen
begin

text \<open>
  Mounting the disk, \<open>disk_search_and_init\<close> of \<^verbatim>\<open>src/disk/disk.c\<close> down to \<open>fat16_resolve\<close> of
  \<^verbatim>\<open>src/fs/fat/fat16.c\<close>: from a disk image with a FAT16 header to the mounted volume that \<open>fopen\<close> and
  \<open>fread\<close> work on.
\<close>

section \<open>The image\<close>

definition root_sector :: "(nat \<Rightarrow> u8) \<Rightarrow> nat" where
  "root_sector img = unat (img 16) * unat (image_word img 22) + unat (image_word img 14)"

definition root_entries :: "(nat \<Rightarrow> u8) \<Rightarrow> nat" where
  "root_entries img = unat (image_word img 17)"

definition root_entry :: "(nat \<Rightarrow> u8) \<Rightarrow> nat \<Rightarrow> u8 list" where
  "root_entry img i = map (\<lambda>j. img (root_sector img * 512 + 32 * i + j)) [0..<32]"

text \<open>The number of the first \<open>n\<close> entries that are not deleted. The search looks at as many entries from the
  beginning of the table, deleted ones among them.\<close>

definition live_entries :: "(nat \<Rightarrow> u8) \<Rightarrow> nat \<Rightarrow> nat" where
  "live_entries img n = length (filter (\<lambda>i. img (root_sector img * 512 + 32 * i) \<noteq> 0xE5) [0..<n])"

definition root_listing :: "(nat \<Rightarrow> u8) \<Rightarrow> nat \<Rightarrow> u8 list list" where
  "root_listing img n = map (root_entry img) [0..<live_entries img n]"

text \<open>A volume whose root directory has \<open>n\<close> entries and fits in a block of the heap, and whose first \<open>N\<close>
  clusters can be addressed.\<close>

definition fat_image :: "(nat \<Rightarrow> u8) \<Rightarrow> nat \<Rightarrow> nat \<Rightarrow> bool" where
  "fat_image img n N \<longleftrightarrow> img 38 = PEACHOS_FAT16_SIGNATURE \<and> img 13 \<noteq> 0 \<and> 0 < root_entries img \<and> root_entries img \<le> 128 \<and>
     n \<le> root_entries img \<and> (\<forall>i < n. img (root_sector img * 512 + 32 * i) \<noteq> 0) \<and> img (root_sector img * 512 + 32 * n) = 0 \<and>
     (\<forall>e \<in> set (root_listing img n). entry_ok e) \<and> N \<le> 65536 \<and> unat (image_word img 14) * 1024 * N < 2147483136 \<and>
     (root_sector img + 9 + N * unat (img 13)) * 512 < 2147483136"

lemma live_entries_le: "live_entries img n \<le> n"
  using length_filter_le [of _ "[0..<n]"] by (simp add: live_entries_def)

section \<open>Steps that only read the disk\<close>

definition touches :: "'a io_machine_scheme \<Rightarrow> u32 set \<Rightarrow> 'a io_machine_scheme \<Rightarrow> bool" where
  "touches k W k' \<longleftrightarrow> k' = k\<lparr>io_log := io_log k', mem := mem k'\<rparr> \<and> (\<forall>a. a \<notin> W \<longrightarrow> mem k' a = mem k a)"

lemma touches_refl: "touches k W k"
  by (simp add: touches_def)

lemma touches_trans:
  assumes "touches k W k1" "touches k1 V k2"
  shows "touches k (W \<union> V) k2"
proof -
  have e: "k1 = k\<lparr>io_log := io_log k1, mem := mem k1\<rparr>" "k2 = k1\<lparr>io_log := io_log k2, mem := mem k2\<rparr>"
    using assms by (simp_all add: touches_def)
  have "k2 = k\<lparr>io_log := io_log k2, mem := mem k2\<rparr>" by (subst e(2), subst e(1)) simp
  then show ?thesis using assms by (simp add: touches_def)
qed

lemma touches_mono: "touches k W k' \<Longrightarrow> W \<subseteq> V \<Longrightarrow> touches k V k'"
  by (auto simp: touches_def)

lemma touches_mem: "(\<And>a. a \<notin> W \<Longrightarrow> m a = mem k a) \<Longrightarrow> touches k W (k\<lparr>mem := m\<rparr>)" for k :: "'a io_machine_scheme"
  by (simp add: touches_def)

lemma touches_same:
  assumes "touches k W k'"
  shows "addr_disk k' = addr_disk k" "kwf k' = kwf k" "klive k' = klive k" "kroom k' = kroom k" "kgeom k' = kgeom k" "kept k' = kept k"
    "ata_holds k' img = ata_holds k img"
proof -
  have e: "k' = k\<lparr>io_log := io_log k', mem := mem k'\<rparr>" using assms by (simp add: touches_def)
  show "addr_disk k' = addr_disk k" using arg_cong [OF e, of addr_disk] by simp
  have h: "kernel_heap k' = kernel_heap k" using arg_cong [OF e, of kernel_heap] by simp
  then show "kwf k' = kwf k" "klive k' = klive k" "kroom k' = kroom k" "kgeom k' = kgeom k" by (simp_all add: kwf_def klive_def kroom_def kgeom_def)
  then show "kept k' = kept k" by (simp add: kept_def fun_eq_iff)
  have "dev_b k' = dev_b k" "dev_w k' = dev_w k" using arg_cong [OF e, of dev_b] arg_cong [OF e, of dev_w] by simp_all
  then show "ata_holds k' img = ata_holds k img" by (rule ata_holds_cong)
qed

text \<open>The heap has grown, and the history of the ports.\<close>

definition mgrows :: "u32 set \<Rightarrow> 'a io_machine_scheme \<Rightarrow> u32 list \<Rightarrow> 'a io_machine_scheme \<Rightarrow> bool" where
  "mgrows W k ps k' \<longleftrightarrow> grows W k ps (k'\<lparr>io_log := io_log k\<rparr>)"

lemma io_log_heap [simp]:
  "kwf (k\<lparr>io_log := l\<rparr>) = kwf k" "klive (k\<lparr>io_log := l\<rparr>) = klive k" "kroom (k\<lparr>io_log := l\<rparr>) = kroom k"
  "kgeom (k\<lparr>io_log := l\<rparr>) = kgeom k" "kept (k\<lparr>io_log := l\<rparr>) = kept k"
  by (simp_all add: kwf_def klive_def kroom_def kgeom_def kept_def fun_eq_iff)

lemma same_rest_log: "same_rest k k' \<Longrightarrow> same_rest (k\<lparr>io_log := l\<rparr>) (k'\<lparr>io_log := l\<rparr>)" for k k' :: "'a io_machine_scheme"
proof -
  assume "same_rest k k'"
  then have e: "k'\<lparr>kernel_heap := kernel_heap k, mem := mem k\<rparr> = k" by (simp add: same_rest_def)
  have "k'\<lparr>io_log := l\<rparr>\<lparr>kernel_heap := kernel_heap k, mem := mem k\<rparr> = k'\<lparr>kernel_heap := kernel_heap k, mem := mem k\<rparr>\<lparr>io_log := l\<rparr>"
    by (rule io_machine.equality) simp_all
  then show ?thesis using e by (simp add: same_rest_def)
qed

lemma grows_log: "grows W k ps k' \<Longrightarrow> grows W (k\<lparr>io_log := l\<rparr>) ps (k'\<lparr>io_log := l\<rparr>)" for k k' :: "'a io_machine_scheme"
  using same_rest_log [of k k' l] by (simp add: grows_def fun_eq_iff)

lemma grows_io_log: "grows W k ps k' \<Longrightarrow> io_log k' = io_log k" for k k' :: "'a io_machine_scheme"
proof -
  assume "grows W k ps k'"
  then have "k'\<lparr>kernel_heap := kernel_heap k, mem := mem k\<rparr> = k" by (simp add: grows_def same_rest_def)
  from arg_cong [OF this, of io_log] show ?thesis by simp
qed

lemma mgrows_refl: "kwf k \<Longrightarrow> mgrows W k [] k" for k :: "'a io_machine_scheme"
  using grows_refl [of k W] by (simp add: mgrows_def)

lemma mgrows_grows:
  fixes k k1 k2 :: "'a io_machine_scheme"
  assumes "mgrows W k ps k1" "grows V k1 qs k2" "\<And>a. kept k a \<Longrightarrow> a \<in> V \<Longrightarrow> a \<in> W"
  shows "mgrows W k (ps @ qs) k2"
  using grows_trans [OF assms(1) [unfolded mgrows_def] grows_log [OF assms(2)] assms(3)] by (simp add: mgrows_def)

lemma mgrows_touches:
  assumes g: "mgrows W k ps k1" and t: "touches k1 V k2" and V: "\<And>a. kept k a \<Longrightarrow> a \<in> V \<Longrightarrow> a \<in> W"
  shows "mgrows W k ps k2"
proof -
  from t obtain l m where e: "k2 = k1\<lparr>io_log := l, mem := m\<rparr>" unfolding touches_def by blast
  have e2: "k2\<lparr>io_log := io_log k\<rparr> = (k1\<lparr>io_log := io_log k\<rparr>)\<lparr>mem := mem k2\<rparr>"
    by (rule io_machine.equality) (simp_all add: e)
  show ?thesis unfolding mgrows_def e2
    using g [unfolded mgrows_def] t V by (intro grows_mem) (auto simp: touches_def)
qed

lemma mgrows_page:
  assumes "mgrows W k ps k'" "p \<in> set ps"
  shows "p \<noteq> 0" "page_al p" "kept k a \<Longrightarrow> \<not> in_range a p 4096" "in_range a p 4096 \<Longrightarrow> kept k' a" "unat p + 4096 \<le> 2147483648"
  using grows_page [OF assms(1) [unfolded mgrows_def] assms(2)] by simp_all

section \<open>Streams\<close>

lemma stream_at_same:
  assumes "stream_at k s q" "addr_disk k' = addr_disk k" "\<And>a. in_range a s 8 \<Longrightarrow> mem k' a = mem k a"
  shows "stream_at k' s q"
proof -
  have u: "unat s + 8 \<le> 4294967296" using assms(1) by (simp add: stream_at_def)
  from range_load [OF u assms(3), where i = 0] range_load [OF u assms(3), where i = 4] assms(1,2) show ?thesis
    by (simp add: stream_at_def stream_pos_def stream_disk_def)
qed

lemma seek_touches:
  assumes "stream_at k s q" "p < 2147483648"
  obtains k' where "diskstreamer_seek s (int p) k = (0, k')" "touches k {a. in_range a s 8} k'" "stream_at k' s p"
proof -
  let ?m = "store32 (mem k) s (word_of_int (int p))"
  have "touches k {a. in_range a s 8} (k\<lparr>mem := ?m\<rparr>)"
    using store32_frame [OF stream_addr(1) [OF assms(1)]] by (intro touches_mem) (auto simp: in_range_def)
  moreover have "stream_at (k\<lparr>mem := ?m\<rparr>) s p"
    using stream_at_moved [OF assms, of "mem k" "io_log k"] by simp
  ultimately show ?thesis by (intro that [of "k\<lparr>mem := ?m\<rparr>"]) (simp_all add: diskstreamer_seek_def)
qed

lemma read_touches:
  assumes ata: "ata_holds k img" and st: "stream_at k s p" and pn: "p + n < 2147483136"
    and ap: "\<And>a. unat (a - out) < n \<Longrightarrow> \<not> in_range a s 8"
  obtains k' where "diskstreamer_read s out (int n) k = Some (0, k')"
    "touches k ({a. in_range a s 8} \<union> {a. unat (a - out) < n}) k'" "stream_at k' s (p + n)"
    "\<And>i. i < n \<Longrightarrow> mem k' (out + of_nat i) = img (p + i)"
proof -
  let ?M = "image_at out n img p (mem k)"
  let ?m = "store32 ?M s (word_of_int (int (p + n)))"
  from diskstreamer_read_image [OF ata st pn ap] obtain l where
    l: "diskstreamer_read s out (int n) k = Some (0, k\<lparr>io_log := l, mem := ?m\<rparr>)" by blast
  have al: "aligned4 s" using stream_addr(1) [OF st] .
  have f: "?m a = ?M a" if "\<not> in_range a s 8" for a using that by (intro store32_frame [OF al]) (auto simp: in_range_def)
  have "?M a = mem k a" if "in_range a s 8" for a using ap that by (auto simp: image_at_def)
  then have "stream_at (k\<lparr>io_log := l, mem := ?m\<rparr>) s (p + n)" using pn by (intro stream_at_moved [OF st]) simp_all
  moreover have "touches k ({a. in_range a s 8} \<union> {a. unat (a - out) < n}) (k\<lparr>io_log := l, mem := ?m\<rparr>)"
    using f by (simp add: touches_def image_at_def)
  moreover have "?m (out + of_nat i) = img (p + i)" if "i < n" for i
  proof -
    have "unat (of_nat i :: u32) = i" using that pn by (intro unat_of_nat_u32) linarith
    then have u: "unat (out + of_nat i - out) = i" by simp
    then show ?thesis using f [of "out + of_nat i"] ap [of "out + of_nat i"] that by (simp add: image_at_def)
  qed
  ultimately show ?thesis using l by (intro that [of "k\<lparr>io_log := l, mem := ?m\<rparr>"]) simp_all
qed

text \<open>Counting the entries of a directory.\<close>

lemma total_items_loop_ok:
  fixes k :: "'a fs_machine_scheme"
  assumes "ata_holds k img" "stream_at k s (p + 32 * j)" "j \<le> n" "p + 32 * n + 32 < 2147483136"
    and "\<And>a. unat (a - local_addr k Directory_item) < 32 \<Longrightarrow> \<not> in_range a s 8"
    and "\<forall>i < n. img (p + 32 * i) \<noteq> 0" "img (p + 32 * n) = 0"
  shows "\<exists>k'. total_items_loop s c k = Some (c + int (length (filter (\<lambda>i. img (p + 32 * i) \<noteq> 0xE5) [j..<n])), k') \<and>
    touches k ({a. in_range a s 8} \<union> {a. unat (a - local_addr k Directory_item) < 32}) k' \<and> (\<exists>q. stream_at k' s q)"
  using assms(1-5)
proof (induction "n - j" arbitrary: j k c)
  case 0
  then have j: "j = n" by simp
  let ?it = "local_addr k Directory_item"
  have "p + 32 * j + 32 < 2147483136" using 0(5) j by simp
  from read_touches [OF 0(2,3) this 0(6)] obtain k1 where k1: "diskstreamer_read s ?it (int 32) k = Some (0, k1)"
    "touches k ({a. in_range a s 8} \<union> {a. unat (a - ?it) < 32}) k1" "stream_at k1 s (p + 32 * j + 32)"
    "\<And>i. i < 32 \<Longrightarrow> mem k1 (?it + of_nat i) = img (p + 32 * j + i)" by blast
  have "mem k1 ?it = 0" using k1(4) [of 0] assms(7) j by simp
  then have "total_items_loop s c k = Some (c, k1)" using k1(1) by (subst total_items_loop.simps) simp
  then show ?case using k1(2,3) j by auto
next
  case (Suc x)
  let ?it = "local_addr k Directory_item"
  have j: "j < n" using Suc(2) by simp
  then have "p + 32 * j + 32 < 2147483136" using Suc(6) by linarith
  from read_touches [OF Suc(3,4) this Suc(7)] obtain k1 where k1: "diskstreamer_read s ?it (int 32) k = Some (0, k1)"
    "touches k ({a. in_range a s 8} \<union> {a. unat (a - ?it) < 32}) k1" "stream_at k1 s (p + 32 * j + 32)"
    "\<And>i. i < 32 \<Longrightarrow> mem k1 (?it + of_nat i) = img (p + 32 * j + i)" by blast
  have m: "mem k1 ?it = img (p + 32 * j)" using k1(4) [of 0] by simp
  have e: "k1 = k\<lparr>io_log := io_log k1, mem := mem k1\<rparr>" using k1(2) by (simp add: touches_def)
  have it: "local_addr k1 = local_addr k" using arg_cong [OF e, of local_addr] by simp
  let ?c = "if img (p + 32 * j) = 0xE5 then c else c + 1"
  have st: "total_items_loop s c k = total_items_loop s ?c k1"
    using k1(1) m assms(6) j by (subst total_items_loop.simps) simp
  have "x = n - Suc j" "ata_holds k1 img" "stream_at k1 s (p + 32 * Suc j)" "Suc j \<le> n"
    using Suc(2,3) j touches_same(7) [OF k1(2)] k1(3) by (simp_all add: ac_simps)
  from Suc(1) [OF this Suc(6), unfolded it, OF Suc(7), of ?c] obtain k' where
    k': "total_items_loop s ?c k1 = Some (?c + int (length (filter (\<lambda>i. img (p + 32 * i) \<noteq> 0xE5) [Suc j..<n])), k')"
    "touches k1 ({a. in_range a s 8} \<union> {a. unat (a - ?it) < 32}) k'" "\<exists>q. stream_at k' s q" by blast
  from touches_trans [OF k1(2) k'(2)] have "touches k ({a. in_range a s 8} \<union> {a. unat (a - ?it) < 32}) k'" by simp
  moreover have "[j..<n] = j # [Suc j..<n]" using j by (rule upt_conv_Cons)
  ultimately show ?case using st k'(1,3) by auto
qed

section \<open>The private structure\<close>

definition page_set :: "u32 \<Rightarrow> u32 set" where
  "page_set p = {a. in_range a p 4096}"

text \<open>A stream made and stored in word \<open>j\<close> of a page in use.\<close>

lemma new_stream_field:
  fixes k :: "'a io_machine_scheme"
  assumes wf: "kwf k" and room: "0 < kroom k" and d: "addr_disk k \<noteq> 0" and al: "page_al fp"
    and kp: "\<And>a. a \<in> page_set fp \<Longrightarrow> kept k a" and j: "j < 1024"
  obtains s k1 k' where "diskstreamer_new 0 k = Some (s, k1)" "k' = k1\<lparr>mem := store32 (mem k1) (fp + 4 * of_nat j) s\<rparr>"
    "grows (page_set fp) k [s] k'" "stream_at k' s 0" "load32 (mem k') (fp + 4 * of_nat j) = s"
    "\<And>i. i < 1024 \<Longrightarrow> i \<noteq> j \<Longrightarrow> load32 (mem k') (fp + 4 * of_nat i) = load32 (mem k) (fp + 4 * of_nat i)"
proof -
  from diskstreamer_new_at [OF wf room d] obtain s k1 where s: "diskstreamer_new 0 k = Some (s, k1)" "grows {} k [s] k1" "stream_at k1 s 0" by blast
  let ?m = "store32 (mem k1) (fp + 4 * of_nat j) s"
  have far: "\<not> in_range a s 4096" if "a \<in> page_set fp" for a using grows_page(3) [OF s(2), of s a] kp [OF that] by simp
  have fr: "?m a = mem k1 a" if "a \<notin> page_set fp" for a using store_entry_frame [OF al j] that by (simp add: page_set_def)
  have "grows (page_set fp) k [s] (k1\<lparr>mem := ?m\<rparr>)" using s(2) fr by (intro grows_mem grows_mono [OF s(2)]) auto
  moreover have "stream_at (k1\<lparr>mem := ?m\<rparr>) s 0"
  proof (rule stream_at_same [OF s(3)])
    show "mem (k1\<lparr>mem := ?m\<rparr>) a = mem k1 a" if "in_range a s 8" for a
    proof -
      have "in_range a s 4096" using that by (simp add: in_range_def)
      then have "a \<notin> page_set fp" using far by blast
      then show ?thesis using fr by simp
    qed
  qed simp
  moreover have "load32 ?m (fp + 4 * of_nat i) = load32 (mem k) (fp + 4 * of_nat i)" if "i < 1024" "i \<noteq> j" for i
  proof -
    have "load32 ?m (fp + 4 * of_nat i) = load32 (mem k1) (fp + 4 * of_nat i)"
      using entry_offset [OF al that(1)] entry_offset [OF al j] that(2) by (intro load32_store32_other) auto
    also have "\<dots> = load32 (mem k) (fp + 4 * of_nat i)"
      using s(2) kp by (intro page_load_cong [OF _ al that(1)]) (simp add: grows_def page_set_def)
    finally show ?thesis .
  qed
  ultimately show ?thesis by (intro that [OF s(1) refl]) simp_all
qed

lemma stream_at_grows:
  fixes k k' :: "'a io_machine_scheme"
  assumes "stream_at k s q" "grows W k ps k'" "\<And>a. in_range a s 8 \<Longrightarrow> kept k a \<and> a \<notin> W"
  shows "stream_at k' s q"
proof (rule stream_at_same [OF assms(1)])
  show "mem k' a = mem k a" if "in_range a s 8" for a using assms(2,3) that by (simp add: grows_def)
  have "k'\<lparr>kernel_heap := kernel_heap k, mem := mem k\<rparr> = k" using assms(2) by (simp add: grows_def same_rest_def)
  from arg_cong [OF this, of addr_disk] show "addr_disk k' = addr_disk k" by simp
qed

lemma grows_disk: "grows W k ps k' \<Longrightarrow> addr_disk k' = addr_disk k" for k k' :: "'a io_machine_scheme"
proof -
  assume "grows W k ps k'"
  then have "k'\<lparr>kernel_heap := kernel_heap k, mem := mem k\<rparr> = k" by (simp add: grows_def same_rest_def)
  from arg_cong [OF this, of addr_disk] show ?thesis by simp
qed

lemma init_private_ok:
  fixes k :: "'a fs_machine_scheme"
  assumes wf: "kwf k" and room: "3 \<le> kroom k" and d: "addr_disk k \<noteq> 0" and al: "page_al fp"
    and kp: "\<And>a. a \<in> page_set fp \<Longrightarrow> kept k a"
    and dk: "\<And>a. in_range a disk 20 \<Longrightarrow> kept k a \<and> a \<notin> page_set fp" and du: "unat disk + 20 \<le> 4294967296" and id: "disk_id (mem k) disk = 0"
  obtains s1 s2 s3 k' where "fat16_init_private disk fp k = Some k'" "grows (page_set fp) k [s1, s2, s3] k'"
    "cluster_read_stream (mem k') fp = s1" "fat_read_stream (mem k') fp = s2" "directory_stream (mem k') fp = s3"
    "stream_at k' s1 0" "stream_at k' s2 0" "stream_at k' s3 0"
proof -
  let ?P = "page_set fp"
  have dd: "disk_id (mem x) disk = 0" if "\<And>a. kept k a \<Longrightarrow> a \<notin> ?P \<Longrightarrow> mem x a = mem k a" for x :: "'a fs_machine_scheme"
    using range_load [OF du, of "mem x" "mem k" 8] that dk id by (simp add: disk_id_def)
  let ?k0 = "k\<lparr>mem := memset (mem k) fp 0 92\<rparr>"
  have m0: "mem ?k0 a = mem k a" if "a \<notin> ?P" for a
  proof -
    have "\<not> unat (a - fp) < 4096" using that page_range [OF al, of a] by (simp add: page_set_def)
    then show ?thesis by (simp add: memset_eq)
  qed
  have g0: "grows ?P k [] ?k0" using m0 by (intro grows_mem grows_refl [OF wf]) simp
  have al4: "fp + 4 * of_nat 20 = fp + 80" "fp + 4 * of_nat 21 = fp + 84" "fp + 4 * of_nat 22 = fp + 88" by simp_all
  obtain s1 a1 k1 where 1: "diskstreamer_new 0 ?k0 = Some (s1, a1)" "k1 = a1\<lparr>mem := store32 (mem a1) (fp + 4 * of_nat 20) s1\<rparr>"
    "grows ?P ?k0 [s1] k1" "stream_at k1 s1 0" "load32 (mem k1) (fp + 4 * of_nat 20) = s1"
    by (rule new_stream_field [of ?k0 fp 20]) (use wf room d al kp in simp_all)
  have g1: "grows ?P k ([] @ [s1]) k1" by (rule grows_trans [OF g0 1(3)])
  have k1: "kwf k1" "2 \<le> kroom k1" "addr_disk k1 \<noteq> 0" "\<And>a. a \<in> ?P \<Longrightarrow> kept k1 a"
    using g1 room d grows_disk [OF g1] kp grows_kept [OF g1] by (simp_all add: grows_def)
  obtain s2 a2 k2 where 2: "diskstreamer_new 0 k1 = Some (s2, a2)" "k2 = a2\<lparr>mem := store32 (mem a2) (fp + 4 * of_nat 21) s2\<rparr>"
    "grows ?P k1 [s2] k2" "stream_at k2 s2 0" "load32 (mem k2) (fp + 4 * of_nat 21) = s2"
    "\<And>i. i < 1024 \<Longrightarrow> i \<noteq> 21 \<Longrightarrow> load32 (mem k2) (fp + 4 * of_nat i) = load32 (mem k1) (fp + 4 * of_nat i)"
    by (rule new_stream_field [of k1 fp 21]) (use k1 al in simp_all)
  have g2: "grows ?P k (([] @ [s1]) @ [s2]) k2" by (rule grows_trans [OF g1 2(3)])
  have k2: "kwf k2" "1 \<le> kroom k2" "addr_disk k2 \<noteq> 0" "\<And>a. a \<in> ?P \<Longrightarrow> kept k2 a"
    using g2 room d grows_disk [OF g2] kp grows_kept [OF g2] by (simp_all add: grows_def)
  obtain s3 a3 k3 where 3: "diskstreamer_new 0 k2 = Some (s3, a3)" "k3 = a3\<lparr>mem := store32 (mem a3) (fp + 4 * of_nat 22) s3\<rparr>"
    "grows ?P k2 [s3] k3" "stream_at k3 s3 0" "load32 (mem k3) (fp + 4 * of_nat 22) = s3"
    "\<And>i. i < 1024 \<Longrightarrow> i \<noteq> 22 \<Longrightarrow> load32 (mem k3) (fp + 4 * of_nat i) = load32 (mem k2) (fp + 4 * of_nat i)"
    by (rule new_stream_field [of k2 fp 22]) (use k2 al in simp_all)
  have g3: "grows ?P k ((([] @ [s1]) @ [s2]) @ [s3]) k3" by (rule grows_trans [OF g2 3(3)])
  have pg: "kept x a \<and> a \<notin> ?P" if "grows ?P k ps x" "s \<in> set ps" "in_range a s 8" for x :: "'a fs_machine_scheme" and ps s a
    using grows_page(3,4) [OF that(1,2), of a] that(3) kp [of a] by (auto simp: in_range_def)
  have st: "stream_at k3 s1 0" "stream_at k3 s2 0"
  proof -
    have "stream_at k2 s1 0" by (rule stream_at_grows [OF 1(4) 2(3)]) (rule pg [OF g1], simp_all)
    then show "stream_at k3 s1 0" by (rule stream_at_grows [OF _ 3(3)]) (rule pg [OF g2], simp_all)
    show "stream_at k3 s2 0" by (rule stream_at_grows [OF 2(4) 3(3)]) (rule pg [OF g2], simp_all)
  qed
  have ld: "load32 (mem k3) (fp + 80) = s1" "load32 (mem k3) (fp + 84) = s2" "load32 (mem k3) (fp + 88) = s3"
    using 1(5) 2(5) 2(6) [of 20] 3(5) 3(6) [of 20] 3(6) [of 21] by (simp_all only: al4)
  have gk: "mem x a = mem k a" if "grows ?P k ps x" "kept k a" "a \<notin> ?P" for x :: "'a fs_machine_scheme" and ps a
    using that by (simp add: grows_def)
  have di: "disk_id (mem ?k0) disk = 0" "disk_id (mem k1) disk = 0" "disk_id (mem k2) disk = 0"
    using dd [OF gk [OF g0]] dd [OF gk [OF g1]] dd [OF gk [OF g2]] by simp_all
  have "fat16_init_private disk fp k = Some k3"
    using 1(1,2) 2(1,2) 3(1,2) di by (simp add: fat16_init_private_def Let_def)
  then show ?thesis using g3 st ld 3(4)
    by (intro that [of k3 s1 s2 s3]) (simp_all add: cluster_read_stream_def fat_read_stream_def directory_stream_def)
qed

section \<open>Blocks in use\<close>

lemma live_page:
  assumes "kwf k" "klive k p = Some 1"
  shows "p \<noteq> 0" "page_al p" "a \<in> page_set p \<Longrightarrow> kept k a" "a \<in> page_set p \<Longrightarrow> heap_area k a" "unat p + 4096 \<le> 2147483648"
    "klive k q = Some 1 \<Longrightarrow> q \<noteq> p \<Longrightarrow> a \<in> page_set p \<Longrightarrow> a \<notin> page_set q"
proof -
  show "p \<noteq> 0" "page_al p" "unat p + 4096 \<le> 2147483648" using kalloc.live_region [OF assms] by (simp_all add: page_al_def)
  show "a \<in> page_set p \<Longrightarrow> kept k a" using kept_live [OF assms(2), of a] by (simp add: page_set_def)
  show "a \<in> page_set p \<Longrightarrow> heap_area k a" using live_in_area [OF assms, of a] by (simp add: page_set_def heap_area_def)
  show "klive k q = Some 1 \<Longrightarrow> q \<noteq> p \<Longrightarrow> a \<in> page_set p \<Longrightarrow> a \<notin> page_set q"
    using kalloc.live_disjoint [OF assms, of q 1 a] by (auto simp: page_set_def)
qed

lemma in_page_set: "in_range a p n \<Longrightarrow> n \<le> 4096 \<Longrightarrow> a \<in> page_set p"
  by (simp add: page_set_def in_range_def)

lemma grows_live: "grows W k ps k' \<Longrightarrow> klive k p = Some j \<Longrightarrow> klive k' p = Some j \<and> p \<notin> set ps"
  by (auto simp: grows_def)

text \<open>The variables of the kernel that mounting uses lie outside the heap and apart from each other.\<close>

definition item_local :: "'a fs_machine_scheme \<Rightarrow> u32 set" where
  "item_local k = {a. unat (a - local_addr k Directory_item) < 32}"

definition statics :: "'a fs_machine_scheme \<Rightarrow> bool" where
  "statics k \<longleftrightarrow> aligned4 (addr_disk k) \<and> addr_disk k \<noteq> 0 \<and> unat (addr_disk k) + 20 \<le> 4294967296 \<and> addr_fat16_fs k \<noteq> 0 \<and>
     unat (local_addr k Fat_entry) + 2 \<le> 4294967296 \<and>
     (\<forall>a. in_range a (addr_disk k) 20 \<or> in_range a (local_addr k Fat_entry) 2 \<or> a \<in> tmp_name k \<or> a \<in> item_local k \<longrightarrow> \<not> heap_area k a) \<and>
     (\<forall>a. in_range a (addr_disk k) 20 \<longrightarrow> \<not> in_range a (local_addr k Fat_entry) 2 \<and> a \<notin> tmp_name k \<and> a \<notin> item_local k) \<and>
     (\<forall>a. in_range a (local_addr k Fat_entry) 2 \<longrightarrow> a \<notin> tmp_name k)"

section \<open>The root directory\<close>

text \<open>The structure with its header read and its streams made.\<close>

definition header_read :: "'a fs_machine_scheme \<Rightarrow> (nat \<Rightarrow> u8) \<Rightarrow> u32 \<Rightarrow> u32 \<Rightarrow> u32 \<Rightarrow> u32 \<Rightarrow> bool" where
  "header_read k img fp s1 s2 s3 \<longleftrightarrow> kwf k \<and> ata_holds k img \<and> distinct [fp, s1, s2, s3] \<and> (\<forall>p \<in> {fp, s1, s2, s3}. klive k p = Some 1) \<and>
     (\<forall>i < 62. mem k (fp + of_nat i) = img i) \<and> cluster_read_stream (mem k) fp = s1 \<and> fat_read_stream (mem k) fp = s2 \<and>
     directory_stream (mem k) fp = s3 \<and> (\<forall>s \<in> {s1, s2, s3}. \<exists>q. stream_at k s q) \<and>
     disk_id (mem k) (addr_disk k) = 0 \<and> disk_sector_size (mem k) (addr_disk k) = 512 \<and> disk_fs_private (mem k) (addr_disk k) = fp \<and>
     disk_filesystem (mem k) (addr_disk k) = addr_fat16_fs k"

lemma header_fields:
  assumes "\<forall>i < 62. m (fp + of_nat i) = img i"
  shows "fat_copies m fp * sectors_per_fat m fp + reserved_sectors m fp = of_nat (root_sector img)"
    "root_dir_entries m fp * 32 = of_nat (32 * root_entries img)" "header_signature m fp = img 38"
    "reserved_sectors m fp = of_nat (unat (image_word img 14))" "sectors_per_cluster m fp = of_nat (unat (img 13))"
proof -
  note b = assms [rule_format]
  have w: "load16 m (fp + 14) = image_word img 14" "load16 m (fp + 17) = image_word img 17" "load16 m (fp + 22) = image_word img 22"
    using b [of 14] b [of 15] b [of 17] b [of 18] b [of 22] b [of 23] by (simp_all add: load16_def image_word_def add.assoc)
  show "header_signature m fp = img 38" "reserved_sectors m fp = of_nat (unat (image_word img 14))"
    "sectors_per_cluster m fp = of_nat (unat (img 13))"
    using b [of 38] b [of 13] w by (simp_all add: header_signature_def reserved_sectors_def load16u_def sectors_per_cluster_def load8_def)
  show "fat_copies m fp * sectors_per_fat m fp + reserved_sectors m fp = of_nat (root_sector img)"
    "root_dir_entries m fp * 32 = of_nat (32 * root_entries img)"
    using b [of 16] w by (simp_all add: fat_copies_def sectors_per_fat_def reserved_sectors_def root_dir_entries_def load16u_def load8_def
        root_sector_def root_entries_def)
qed

lemma header_keep:
  assumes h: "header_read k img fp s1 s2 s3" and "kwf k'" "addr_disk k' = addr_disk k" "addr_fat16_fs k' = addr_fat16_fs k" "ata_holds k' img"
    and lv: "\<And>p. p \<in> {fp, s1, s2, s3} \<Longrightarrow> klive k p = Some 1 \<Longrightarrow> klive k' p = Some 1"
    and f: "\<And>i. i < 92 \<Longrightarrow> i < 64 \<or> 80 \<le> i \<Longrightarrow> mem k' (fp + of_nat i) = mem k (fp + of_nat i)"
    and d: "\<And>a. in_range a (addr_disk k) 20 \<Longrightarrow> mem k' a = mem k a" "unat (addr_disk k) + 20 \<le> 4294967296"
    and s: "\<And>s. s \<in> {s1, s2, s3} \<Longrightarrow> \<exists>q. stream_at k' s q"
  shows "header_read k' img fp s1 s2 s3"
proof -
  have dl: "load32 (mem k') (addr_disk k + of_nat i) = load32 (mem k) (addr_disk k + of_nat i)" if "i + 4 \<le> 20" for i
    using range_load [OF d(2,1) that] by simp
  have fl: "load32 (mem k') (fp + of_nat i) = load32 (mem k) (fp + of_nat i)" if "80 \<le> i" "i + 4 \<le> 92" for i
  proof (rule load32_eqI)
    fix j :: nat
    assume "j < 4"
    then show "mem k' (fp + of_nat i + of_nat j) = mem k (fp + of_nat i + of_nat j)"
      using f [of "i + j"] that by (simp add: add.assoc)
  qed
  have "cluster_read_stream (mem k') fp = s1" "fat_read_stream (mem k') fp = s2" "directory_stream (mem k') fp = s3"
    using h fl [of 80] fl [of 84] fl [of 88]
    by (simp_all add: header_read_def cluster_read_stream_def fat_read_stream_def directory_stream_def)
  moreover have "disk_id (mem k') (addr_disk k) = 0" "disk_sector_size (mem k') (addr_disk k) = 512" "disk_fs_private (mem k') (addr_disk k) = fp"
    "disk_filesystem (mem k') (addr_disk k) = addr_fat16_fs k"
    using h dl [of 8] dl [of 4] dl [of 16] dl [of 12]
    by (simp_all add: header_read_def disk_id_def disk_sector_size_def disk_fs_private_def disk_filesystem_def)
  moreover have "mem k' (fp + of_nat i) = img i" if "i < 62" for i using h f [of i] that by (simp add: header_read_def)
  ultimately show ?thesis using h lv s assms(2-5) by (simp add: header_read_def)
qed

lemma total_items_ok:
  assumes h: "header_read k img fp s1 s2 s3" and im: "fat_image img n N" and st: "statics k"
  shows "\<exists>k'. fat16_get_total_items_for_directory (addr_disk k) (of_nat (root_sector img)) k = Some (int (live_entries img n), k') \<and>
    touches k (page_set s3 \<union> item_local k) k' \<and> (\<exists>q. stream_at k' s3 q)"
proof -
  have hf: "kwf k" "ata_holds k img" "klive k s3 = Some 1" "directory_stream (mem k) fp = s3" "disk_sector_size (mem k) (addr_disk k) = 512"
    "disk_fs_private (mem k) (addr_disk k) = fp" using h by (simp_all add: header_read_def)
  from h obtain q where q: "stream_at k s3 q" by (auto simp: header_read_def)
  let ?r = "root_sector img * 512"
  have n: "n \<le> 128" using im by (simp add: fat_image_def)
  have r: "?r + 4608 < 2147483136" using im by (simp add: fat_image_def add_mult_distrib)
  have sp: "sint (of_nat (root_sector img) * 512 :: u32) = int ?r"
    using sint_small_int [of "int ?r"] r by simp
  have r0: "?r < 2147483648" using r by simp
  obtain k1 where k1: "diskstreamer_seek s3 (int ?r) k = (0, k1)" "touches k {a. in_range a s3 8} k1" "stream_at k1 s3 ?r"
    by (rule seek_touches [OF q r0]) (rule that)
  have e: "k1 = k\<lparr>io_log := io_log k1, mem := mem k1\<rparr>" using k1(2) by (simp add: touches_def)
  have it: "local_addr k1 = local_addr k" using arg_cong [OF e, of local_addr] by simp
  have ap: "\<not> in_range a s3 8" if "unat (a - local_addr k1 Directory_item) < 32" for a
  proof
    assume "in_range a s3 8"
    then have "heap_area k a" by (intro live_page(4) [OF hf(1,3)] in_page_set [of _ _ 8]) simp_all
    then show False using st that it by (auto simp: statics_def item_local_def)
  qed
  have ie: "\<forall>i < n. img (?r + 32 * i) \<noteq> 0" "img (?r + 32 * n) = 0" using im by (simp_all add: fat_image_def)
  have "ata_holds k1 img" "stream_at k1 s3 (?r + 32 * 0)" "?r + 32 * n + 32 < 2147483136"
    using touches_same(7) [OF k1(2)] hf(2) k1(3) r n by simp_all
  from total_items_loop_ok [OF this(1,2) le0 this(3) ap ie, of 0] obtain k2 where k2:
    "total_items_loop s3 0 k1 = Some (int (live_entries img n), k2)"
    "touches k1 ({a. in_range a s3 8} \<union> {a. unat (a - local_addr k1 Directory_item) < 32}) k2" "\<exists>q. stream_at k2 s3 q"
    by (auto simp: live_entries_def)
  have "touches k ({a. in_range a s3 8} \<union> ({a. in_range a s3 8} \<union> {a. unat (a - local_addr k1 Directory_item) < 32})) k2"
    by (rule touches_trans [OF k1(2) k2(2)])
  then have "touches k (page_set s3 \<union> item_local k) k2"
    by (rule touches_mono) (auto simp: item_local_def it intro: in_page_set [of _ _ 8])
  then show ?thesis using k1(1) k2(1,3) hf(4-6) sp
    by (simp add: fat16_get_total_items_for_directory_def Let_def status_simps)
qed

lemma grows_ata: "grows W k ps k' \<Longrightarrow> ata_holds k' img = ata_holds k img" for k k' :: "'a fs_machine_scheme"
proof -
  assume "grows W k ps k'"
  note s = same_rest_fs [OF grows_same [OF this]]
  show ?thesis by (rule ata_holds_cong) (simp_all add: s)
qed

lemma mgrows_fs:
  fixes k k' :: "'a fs_machine_scheme"
  assumes "mgrows W k ps k'"
  shows "local_addr k' = local_addr k" "addr_disk k' = addr_disk k" "addr_fat16_fs k' = addr_fat16_fs k"
    "ata_holds k' img = ata_holds k img" "kgeom k' = kgeom k" "kwf k'" "kroom k = kroom k' + length ps"
    "filesystems k' = filesystems k" "file_descriptors k' = file_descriptors k"
proof -
  note g = assms [unfolded mgrows_def]
  from same_rest_fs [OF grows_same [OF g]] same_rest_files [OF grows_same [OF g]]
  show "local_addr k' = local_addr k" "addr_disk k' = addr_disk k" "addr_fat16_fs k' = addr_fat16_fs k"
    "filesystems k' = filesystems k" "file_descriptors k' = file_descriptors k" by simp_all
  show "ata_holds k' img = ata_holds k img" using grows_ata [OF g] by simp
  show "kgeom k' = kgeom k" "kwf k'" "kroom k = kroom k' + length ps" using g by (simp_all add: grows_def)
qed

lemma root_fields: "root_directory fp + 4 = fp + 68" "root_directory fp + 8 = fp + 72" "root_directory fp + 12 = fp + 76"
  by simp_all

text \<open>Storing the fields of the root directory.\<close>

lemma store_root:
  fixes fp :: u32
  assumes h: "header_read k img fp s1 s2 s3" and du: "unat (addr_disk k) + 20 \<le> 4294967296"
    and nh: "\<And>a. in_range a (addr_disk k) 20 \<Longrightarrow> \<not> heap_area k a"
    and m: "m = store32 (store32 (store32 (store32 (mem k) (fp + 64) x) (fp + 68) y) (fp + 72) z) (fp + 76) w"
  shows "header_read (k\<lparr>mem := m\<rparr>) img fp s1 s2 s3"
    "dir_item m (root_directory fp) = x" "dir_total m (root_directory fp) = y" "dir_ending_sector_pos m (root_directory fp) = w"
    "\<And>a. a \<notin> page_set fp \<Longrightarrow> m a = mem k a"
    "disk_sector_size (store32 (store32 (store32 (mem k) (fp + 64) x) (fp + 68) y) (fp + 72) z) (addr_disk k) = 512"
proof -
  have hf: "kwf k" "klive k fp = Some 1" "disk_sector_size (mem k) (addr_disk k) = 512" using h by (simp_all add: header_read_def)
  note lf = live_page [OF hf(1,2)]
  have al: "aligned4 (fp + 64)" "aligned4 (fp + 68)" "aligned4 (fp + 72)" "aligned4 (fp + 76)"
    using entry_offset(2) [OF lf(2), of 16] entry_offset(2) [OF lf(2), of 17] entry_offset(2) [OF lf(2), of 18] entry_offset(2) [OF lf(2), of 19]
    by simp_all
  have e: "unat (fp + 64) = unat fp + 64" "unat (fp + 68) = unat fp + 68" "unat (fp + 72) = unat fp + 72" "unat (fp + 76) = unat fp + 76"
    using page_offset [OF lf(2), of 64] page_offset [OF lf(2), of 68] page_offset [OF lf(2), of 72] page_offset [OF lf(2), of 76] by simp_all
  have sf: "store32 f q v a = f a" if "a \<notin> page_set fp" "q \<in> {fp + 64, fp + 68, fp + 72, fp + 76}" for f q v a
  proof -
    have "\<not> in_range a q 4" using that e by (auto simp: page_set_def in_range_def)
    then show ?thesis using that(2) al by (intro store32_frame) auto
  qed
  show fr: "m a = mem k a" if "a \<notin> page_set fp" for a using sf [OF that] by (simp add: m)
  have nf: "a \<notin> page_set fp" if "in_range a (addr_disk k) 20" for a using nh [OF that] lf(4) by blast
  have "store32 (store32 (store32 (mem k) (fp + 64) x) (fp + 68) y) (fp + 72) z a = mem k a" if "in_range a (addr_disk k) 20" for a
    using sf [OF nf [OF that]] by simp
  from range_load [OF du this, where i = 4] hf(3)
  show "disk_sector_size (store32 (store32 (store32 (mem k) (fp + 64) x) (fp + 68) y) (fp + 72) z) (addr_disk k) = 512"
    by (simp add: disk_sector_size_def)
  have ne: "fp + 64 \<noteq> fp + 68" "fp + 64 \<noteq> fp + 72" "fp + 64 \<noteq> fp + 76" "fp + 68 \<noteq> fp + 72" "fp + 68 \<noteq> fp + 76" by simp_all
  show "dir_item m (root_directory fp) = x" "dir_total m (root_directory fp) = y" "dir_ending_sector_pos m (root_directory fp) = w"
    unfolding dir_item_def dir_total_def dir_ending_sector_pos_def root_fields m using al ne by (simp_all add: load32_store32_other)
  show "header_read (k\<lparr>mem := m\<rparr>) img fp s1 s2 s3"
  proof (rule header_keep [OF h])
    show "mem (k\<lparr>mem := m\<rparr>) (fp + of_nat i) = mem k (fp + of_nat i)" if "i < 92" "i < 64 \<or> 80 \<le> i" for i
    proof -
      have u: "unat (fp + of_nat i) = unat fp + i" using page_offset [OF lf(2), of i] that by simp
      have nr: "\<not> in_range (fp + of_nat i) q 4" if "q \<in> {fp + 64, fp + 68, fp + 72, fp + 76}" for q
        using that \<open>i < 64 \<or> 80 \<le> i\<close> by (auto simp: in_range_def u e)
      have sf: "store32 f q v (fp + of_nat i) = f (fp + of_nat i)" if "q \<in> {fp + 64, fp + 68, fp + 72, fp + 76}" for f q v
        using nr [OF that] that al by (intro store32_frame) auto
      show ?thesis by (simp add: m sf del: of_nat_eq_id)
    qed
    show "mem (k\<lparr>mem := m\<rparr>) a = mem k a" if "in_range a (addr_disk k) 20" for a using fr [OF nf [OF that]] by simp
    show "\<exists>q. stream_at (k\<lparr>mem := m\<rparr>) s q" if s: "s \<in> {s1, s2, s3}" for s
    proof -
      have l: "klive k s = Some 1" "s \<noteq> fp" "\<exists>q. stream_at k s q" using h s by (auto simp: header_read_def)
      have "mem (k\<lparr>mem := m\<rparr>) a = mem k a" if "in_range a s 8" for a
      proof -
        have "a \<in> page_set s" using that by (rule in_page_set) simp
        then have "a \<notin> page_set fp" using live_page(6) [OF hf(1) l(1) hf(2)] l(2) by blast
        then show ?thesis using fr by simp
      qed
      with l(3) stream_at_same [of k s _ "k\<lparr>mem := m\<rparr>"] show ?thesis by auto
    qed
  qed (use h du in \<open>simp_all add: header_read_def\<close>)
qed

lemma root_directory_ok:
  fixes k :: "'a fs_machine_scheme"
  assumes h: "header_read k img fp s1 s2 s3" and im: "fat_image img n N" and st: "statics k" and room: "2 \<le> kroom k"
  obtains dir st2 k' where "fat16_get_root_directory (addr_disk k) fp k = Some (0, k')"
    "mgrows (page_set fp \<union> page_set s3 \<union> item_local k) k [dir, st2] k'" "header_read k' img fp s1 s2 s3"
    "dir_item (mem k') (root_directory fp) = dir" "dir_total (mem k') (root_directory fp) = of_nat (live_entries img n)"
    "dir_ending_sector_pos (mem k') (root_directory fp) = of_nat (root_sector img + root_entries img div 16)"
    "\<And>i. i < 32 * root_entries img \<Longrightarrow> mem k' (dir + of_nat i) = img (root_sector img * 512 + i)"
proof -
  let ?D = "addr_disk k" and ?R = "root_directory fp" and ?r = "root_sector img * 512" and ?sz = "32 * root_entries img"
  have hf: "kwf k" "ata_holds k img" "klive k fp = Some 1" "klive k s1 = Some 1" "klive k s2 = Some 1" "klive k s3 = Some 1"
    "fp \<noteq> s3" "s1 \<noteq> s3" "s2 \<noteq> s3" "fp \<noteq> s1" "fp \<noteq> s2"
    "disk_sector_size (mem k) ?D = 512" "\<forall>i < 62. mem k (fp + of_nat i) = img i" using h by (auto simp: header_read_def)
  have si: "addr_disk k \<noteq> 0" "unat ?D + 20 \<le> 4294967296" "\<And>a. in_range a ?D 20 \<Longrightarrow> \<not> heap_area k a \<and> a \<notin> item_local k"
    "\<And>a. a \<in> item_local k \<Longrightarrow> \<not> heap_area k a" using st unfolding statics_def by blast+
  have im': "0 < root_entries img" "root_entries img \<le> 128" "?r + 4608 < 2147483136"
    using im by (simp_all add: fat_image_def add_mult_distrib)
  note hd = header_fields [OF hf(13)]
  from total_items_ok [OF h im st] obtain k2 q3 where k2:
    "fat16_get_total_items_for_directory ?D (of_nat (root_sector img)) k = Some (int (live_entries img n), k2)"
    "touches k (page_set s3 \<union> item_local k) k2" "stream_at k2 s3 q3" by blast
  note t2 = touches_same [OF k2(2)]
  let ?good = "\<lambda>a. kept k a \<and> a \<notin> page_set s3 \<and> a \<notin> item_local k"
  have g2: "mem k2 a = mem k a" if "?good a" for a using k2(2) that by (simp add: touches_def)
  have us: "unat (of_nat ?sz :: u32) = ?sz" using im' by (intro unat_of_nat_u32) linarith
  have "kwf k2" "0 < kroom k2" "0 < unat (of_nat ?sz :: u32)" "unat (of_nat ?sz :: u32) \<le> 4096"
    using t2 hf(1) room us im' by simp_all
  then obtain dir k3 where k3: "kzalloc (of_nat ?sz) k2 = Some (dir, k3)" "dir \<noteq> 0" "grows {} k2 [dir] k3" and ald: "page_al dir"
    and fard: "\<And>a. kept k2 a \<Longrightarrow> \<not> in_range a dir 4096" and kd: "\<And>a. in_range a dir 4096 \<Longrightarrow> kept k3 a"
    by (rule kzalloc_block) (rule that)
  have D3: "addr_disk k3 = ?D" using grows_disk [OF k3(3)] t2(1) by simp
  have "kwf k3" "0 < kroom k3" using k3(3) room t2(4) by (simp_all add: grows_def)
  from diskstreamer_new_at [OF this] D3 si(1) obtain st2 k4 where k4: "diskstreamer_new 0 k3 = Some (st2, k4)" "grows {} k3 [st2] k4" "stream_at k4 st2 0"
    by auto
  let ?W = "page_set fp \<union> page_set s3 \<union> item_local k"
  have "mgrows ?W k [] k2" by (rule mgrows_touches [OF mgrows_refl [OF hf(1)] k2(2)]) auto
  then have "mgrows ?W k ([] @ [dir]) k3" by (rule mgrows_grows [OF _ k3(3)]) simp
  then have "mgrows ?W k (([] @ [dir]) @ [st2]) k4" by (rule mgrows_grows [OF _ k4(2)]) simp
  then have G4: "mgrows ?W k [dir, st2] k4" by simp
  have r0: "?r < 2147483648" using im' by simp
  obtain k5 where k5: "diskstreamer_seek st2 (int ?r) k4 = (0, k5)" "touches k4 {a. in_range a st2 8} k5" "stream_at k5 st2 ?r"
    by (rule seek_touches [OF k4(3) r0]) (rule that)
  have a5: "ata_holds k5 img"
    using touches_same(7) [OF k5(2)] grows_ata [OF k4(2)] grows_ata [OF k3(3)] t2(7) hf(2) by simp
  have fars: "\<not> in_range a st2 8" if "kept k3 a" for a
    using grows_page(3) [OF k4(2), of st2 a] that by (auto simp: in_range_def)
  have szd: "in_range a dir 4096" if "unat (a - dir) < ?sz" for a using that im'(2) page_range [OF ald, of a] by simp
  have ap: "\<not> in_range a st2 8" if "unat (a - dir) < ?sz" for a using fars kd szd [OF that] by blast
  have rs: "?r + ?sz < 2147483136" using im' by simp
  obtain k6 where k6: "diskstreamer_read st2 dir (int ?sz) k5 = Some (0, k6)"
    "touches k5 ({a. in_range a st2 8} \<union> {a. unat (a - dir) < ?sz}) k6" "stream_at k6 st2 (?r + ?sz)"
    "\<And>i. i < ?sz \<Longrightarrow> mem k6 (dir + of_nat i) = img (?r + i)"
    by (rule read_touches [OF a5 k5(3) rs ap]) (assumption, rule that)
  have kk: "kept k3 a" "\<not> in_range a dir 4096" "kept k4 a" if "kept k a" for a
    using that t2(6) fard grows_kept [OF k3(3), of a] grows_kept [OF k4(2), of a] by simp_all
  have g32: "mem k3 a = mem k2 a" if "kept k a" for a using k3(3) that t2(6) by (simp add: grows_def)
  have g3: "mem k3 a = mem k a" if "?good a" for a using g32 g2 [OF that] that by simp
  have g62: "mem k6 a = mem k2 a" if "kept k a" for a
  proof -
    have k: "kept k3 a" "\<not> in_range a dir 4096" using that kk by blast+
    have "mem k6 a = mem k5 a" using k6(2) fars [OF k(1)] k(2) szd by (auto simp: touches_def)
    also have "\<dots> = mem k4 a" using k5(2) fars [OF k(1)] by (simp add: touches_def)
    also have "\<dots> = mem k3 a" using k4(2) k(1) by (simp add: grows_def)
    finally show ?thesis using g32 [OF that] by simp
  qed
  have g6: "mem k6 a = mem k a" if "?good a" for a using g62 g2 [OF that] that by simp
  have gd: "?good a" if "in_range a ?D 20" for a
    using si(3) [OF that] not_heap_kept [of k a] live_page(4) [OF hf(1,6), of a] by blast
  have l6: "load32 (mem k6) (?D + of_nat i) = load32 (mem k) (?D + of_nat i)" if "i + 4 \<le> 20" for i
    by (rule range_load [OF si(2) g6 [OF gd] that])
  have l3: "load32 (mem k3) (?D + of_nat i) = load32 (mem k) (?D + of_nat i)" if "i + 4 \<le> 20" for i
    by (rule range_load [OF si(2) g3 [OF gd] that])
  have g4: "mem k4 a = mem k a" if "?good a" for a
    using g3 [OF that] k4(2) kk(1) that by (simp add: grows_def)
  have l4: "load32 (mem k4) (?D + of_nat i) = load32 (mem k) (?D + of_nat i)" if "i + 4 \<le> 20" for i
    by (rule range_load [OF si(2) g4 [OF gd] that])
  have dz: "disk_sector_size (mem k6) ?D = 512" "disk_id (mem k3) ?D = 0" "disk_sector_size (mem k4) ?D = 512"
    using h l6 [of 4] l3 [of 8] l4 [of 4] by (simp_all add: header_read_def disk_sector_size_def disk_id_def)
  have g5m: "mgrows ?W k [dir, st2] k5" using fars kk(1) by (intro mgrows_touches [OF G4 k5(2)]) blast
  have g6m: "mgrows ?W k [dir, st2] k6" by (rule mgrows_touches [OF g5m k6(2)]) (use fars kk(1,2) szd in blast)
  have D6: "addr_disk k6 = ?D" using touches_same(1) [OF k6(2)] touches_same(1) [OF k5(2)] grows_disk [OF k4(2)] D3 by simp
  have h6: "header_read k6 img fp s1 s2 s3"
  proof (rule header_keep [OF h])
    note pg = live_page [OF hf(1)]
    have gp: "?good a" if "a \<in> page_set p" "klive k p = Some 1" "p \<noteq> s3" for p a
      using pg(3,4) [OF that(2,1)] pg(6) [OF that(2) hf(6) _ that(1)] that(3) si(4) by blast
    show "kwf k6" "addr_disk k6 = ?D" "addr_fat16_fs k6 = addr_fat16_fs k" "ata_holds k6 img"
      using g6m touches_same(1,7) [OF k6(2)] a5 D6 mgrows_fs [OF g6m] by (simp_all add: mgrows_def grows_def)
    show "klive k6 p = Some 1" if "klive k p = Some 1" for p using g6m that by (auto simp: mgrows_def grows_def)
    show "unat ?D + 20 \<le> 4294967296" by (rule si(2))
    show "mem k6 a = mem k a" if "in_range a ?D 20" for a by (rule g6 [OF gd [OF that]])
    show "mem k6 (fp + of_nat i) = mem k (fp + of_nat i)" if "i < 92" for i
      using that page_byte [OF pg(2) [OF hf(3)], of i] by (intro g6 gp [OF _ hf(3,7)]) (simp add: page_set_def)
    show "\<exists>q. stream_at k6 s q" if "s \<in> {s1, s2, s3}" for s
    proof (cases "s = s3")
      case True
      have "mem k6 a = mem k2 a" if "in_range a s3 8" for a by (rule g62, rule pg(3) [OF hf(6)], rule in_page_set [OF that]) simp
      then have "stream_at k6 s3 q3" using D6 t2(1) by (intro stream_at_same [OF k2(3)]) simp_all
      then show ?thesis using True by blast
    next
      case False
      with that have s: "s = s1 \<or> s = s2" by simp
      then have l: "klive k s = Some 1" "s \<noteq> s3" "\<exists>q. stream_at k s q" using hf(4,5) False h by (auto simp: header_read_def)
      have "mem k6 a = mem k a" if "in_range a s 8" for a by (rule g6, rule gp [OF _ l(1,2)], rule in_page_set [OF that]) simp
      with l(3) stream_at_same [of k s _ k6] D6 show ?thesis by auto
    qed
  qed
  have nh: "\<not> heap_area k6 a" if "in_range a ?D 20" for a
    using si(3) [OF that] g6m by (simp add: heap_area_def mgrows_def grows_def)
  define m where "m = store32 (store32 (store32 (store32 (mem k6) (fp + 64) dir) (fp + 68) (of_nat (live_entries img n)))
     (fp + 72) (of_nat (root_sector img))) (fp + 76) (of_nat (root_sector img + root_entries img div 16))"
  note sr = store_root [OF h6, unfolded D6, OF si(2) nh m_def]
  have ss: "sint (of_nat (root_sector img) * 512 :: u32) = int ?r" "sint (of_nat ?sz :: u32) = int ?sz"
    using sint_small_int [of "int ?r"] sint_small_int [of "int ?sz"] im' by simp_all
  have es: "of_nat (root_sector img) + word_of_int (int ?sz sdiv sint (512 :: u32)) = (of_nat (root_sector img + root_entries img div 16) :: u32)"
  proof -
    have "int ?sz sdiv sint (512 :: u32) = int (?sz div 512)" using sdiv_nat [of ?sz 512] by simp
    moreover have "?sz div 512 = root_entries img div 16" using div_mult_mult1 [of 32 "root_entries img" 16] by simp
    ultimately show ?thesis by simp
  qed
  have ew: "word_of_int (int x) = (of_nat x :: u32)" for x by simp
  have A: "fat16_get_root_directory ?D fp k = Some (0, k6\<lparr>mem := m\<rparr>)"
    unfolding fat16_get_root_directory_def Let_def hd(1,2) hf(12) k2(1) root_fields
    using k3(1,2) k4(1) dz k5(1) k6(1)
    by (simp only: Option.bind.bind_lunit prod.case ss es sr(6) ew status_simps of_nat_less_0_iff if_False fst_conv snd_conv m_def Let_def split_beta)
      (simp add: ss es sr(6))
  have B: "mgrows ?W k [dir, st2] (k6\<lparr>mem := m\<rparr>)"
    using sr(5) by (intro mgrows_touches [OF g6m touches_mem, of "page_set fp"]) auto
  have C: "m (dir + of_nat i) = img (?r + i)" if "i < ?sz" for i
  proof -
    have "in_range (dir + of_nat i) dir 4096" using that im' by (intro page_byte [OF ald]) simp
    then have "dir + of_nat i \<notin> page_set fp" using kk(2) live_page(3) [OF hf(1,3)] by blast
    then show ?thesis using sr(5) k6(4) [OF that] by simp
  qed
  show ?thesis by (rule that [OF A B sr(1)]) (use sr(2-4) C in simp_all)
qed

section \<open>Resolving the file system\<close>

lemma mgrows_trans:
  fixes k k1 k2 :: "'a io_machine_scheme"
  assumes "mgrows W k ps k1" "mgrows V k1 qs k2" "\<And>a. kept k a \<Longrightarrow> a \<in> V \<Longrightarrow> a \<in> W"
  shows "mgrows W k (ps @ qs) k2"
  using grows_trans [OF assms(1) [unfolded mgrows_def] grows_log [OF assms(2) [unfolded mgrows_def]] assms(3)] by (simp add: mgrows_def)

lemma mgrows_kept: "mgrows W k ps k' \<Longrightarrow> kept k a \<Longrightarrow> kept k' a"
  using grows_kept [of W k ps "k'\<lparr>io_log := io_log k\<rparr>" a] by (simp add: mgrows_def)

lemma mgrows_at: "mgrows W k ps k' \<Longrightarrow> kept k a \<Longrightarrow> a \<notin> W \<Longrightarrow> mem k' a = mem k a"
  by (simp add: mgrows_def grows_def)

lemma mgrows_live: "mgrows W k ps k' \<Longrightarrow> klive k' = (\<lambda>p. if p \<in> set ps then Some 1 else klive k p)" "mgrows W k ps k' \<Longrightarrow> distinct ps"
  by (simp_all add: mgrows_def grows_def)

lemma statics_same:
  assumes "statics k" "local_addr k' = local_addr k" "addr_disk k' = addr_disk k" "addr_fat16_fs k' = addr_fat16_fs k" "kgeom k' = kgeom k"
  shows "statics k'"
  using assms by (simp add: statics_def heap_area_def tmp_name_def item_local_def)

lemma statics_facts:
  assumes "statics k"
  shows "aligned4 (addr_disk k)" "addr_disk k \<noteq> 0" "unat (addr_disk k) + 20 \<le> 4294967296"
    "in_range a (addr_disk k) 20 \<Longrightarrow> \<not> heap_area k a \<and> a \<notin> item_local k"
    "a \<in> item_local k \<Longrightarrow> \<not> heap_area k a"
  using assms unfolding statics_def by blast+

text \<open>The structure of the disk when the file system is found.\<close>

lemma disk_fields_stored:
  assumes al: "aligned4 d" and du: "unat d + 20 \<le> 4294967296"
    and m'_def: "m' = store32 (store32 m (d + 16) fp) (d + 12) fs"
  shows "disk_id m' d = disk_id m d" "disk_sector_size m' d = disk_sector_size m d" "disk_fs_private m' d = fp" "disk_filesystem m' d = fs"
    "\<not> in_range a d 20 \<Longrightarrow> m' a = m a"
proof -
  have u: "unat (d + 16) = unat d + 16" "unat (d + 12) = unat d + 12" using du by (simp_all add: unat_add_small)
  have al': "aligned4 (d + 4)" "aligned4 (d + 8)" "aligned4 (d + 12)" "aligned4 (d + 16)"
    using al du by (simp_all add: aligned4_def unat_add_small) presburger+
  have ne: "d + 16 \<noteq> d + 12" "d + 4 \<noteq> d + 16" "d + 4 \<noteq> d + 12" "d + 8 \<noteq> d + 16" "d + 8 \<noteq> d + 12" by simp_all
  show "disk_id m' d = disk_id m d" "disk_sector_size m' d = disk_sector_size m d" "disk_fs_private m' d = fp" "disk_filesystem m' d = fs"
    unfolding disk_id_def disk_sector_size_def disk_fs_private_def disk_filesystem_def m'_def using al' ne
    by (simp_all add: load32_store32_other)
  show "m' a = m a" if "\<not> in_range a d 20"
  proof -
    have "\<not> in_range a (d + 12) 4" "\<not> in_range a (d + 16) 4" using that u by (auto simp: in_range_def)
    then show ?thesis using al' by (simp add: m'_def store32_frame)
  qed
qed

text \<open>From the stream on the first sector to the table of the root directory.\<close>

definition root_read :: "'a fs_machine_scheme \<Rightarrow> (nat \<Rightarrow> u8) \<Rightarrow> nat \<Rightarrow> u32 \<Rightarrow> u32 \<Rightarrow> bool" where
  "root_read k img n fp dir \<longleftrightarrow> dir_item (mem k) (root_directory fp) = dir \<and> dir_total (mem k) (root_directory fp) = of_nat (live_entries img n) \<and>
     dir_ending_sector_pos (mem k) (root_directory fp) = of_nat (root_sector img + root_entries img div 16) \<and>
     (\<forall>i < 32 * root_entries img. mem k (dir + of_nat i) = img (root_sector img * 512 + i))"

text \<open>The streams and the private structure, before the header is read.\<close>

lemma private_made:
  fixes k :: "'a fs_machine_scheme"
  assumes wf: "kwf k" and room: "4 \<le> kroom k" and st: "statics k"
    and id: "disk_id (mem k) (addr_disk k) = 0" "disk_sector_size (mem k) (addr_disk k) = 512"
  obtains fp k1 s1 s2 s3 k2 k3 where "kzalloc 92 k = Some (fp, k1)" "fat16_init_private (addr_disk k) fp k1 = Some k2"
    "k3 = k2\<lparr>mem := store32 (store32 (mem k2) (addr_disk k + 16) fp) (addr_disk k + 12) (addr_fat16_fs k)\<rparr>" "addr_fat16_fs k2 = addr_fat16_fs k"
    "mgrows {a. in_range a (addr_disk k) 20} k [fp, s1, s2, s3] k3"
    "cluster_read_stream (mem k3) fp = s1" "fat_read_stream (mem k3) fp = s2" "directory_stream (mem k3) fp = s3"
    "stream_at k3 s1 0" "stream_at k3 s2 0" "stream_at k3 s3 0" "disk_id (mem k3) (addr_disk k) = 0" "disk_sector_size (mem k3) (addr_disk k) = 512"
    "disk_fs_private (mem k3) (addr_disk k) = fp" "disk_filesystem (mem k3) (addr_disk k) = addr_fat16_fs k"
proof -
  let ?D = "addr_disk k" and ?V = "{a. in_range a (addr_disk k) 20}"
  note sf = statics_facts [OF st]
  have rk: "0 < kroom k" "0 < unat (92 :: u32)" "unat (92 :: u32) \<le> 4096" using room by simp_all
  obtain fp k1 where k1: "kzalloc 92 k = Some (fp, k1)" "fp \<noteq> 0" "grows {} k [fp] k1" and al: "page_al fp"
    and far: "\<And>a. kept k a \<Longrightarrow> \<not> in_range a fp 4096" and kp: "\<And>a. in_range a fp 4096 \<Longrightarrow> kept k1 a"
    by (rule kzalloc_block [OF wf rk]) (rule that)
  have D1: "addr_disk k1 = ?D" by (rule grows_disk [OF k1(3)])
  have dk: "kept k a" "a \<notin> page_set fp" if "in_range a ?D 20" for a
    using not_heap_kept [of k a] sf(4) [OF that] far [of a] by (simp_all add: page_set_def)
  have m1: "mem k1 a = mem k a" if "kept k a" for a using k1(3) that by (simp add: grows_def)
  have l1: "load32 (mem k1) (?D + of_nat i) = load32 (mem k) (?D + of_nat i)" if "i + 4 \<le> 20" for i
    by (rule range_load [OF sf(3) m1 [OF dk(1)] that])
  have 2: "kwf k1" "3 \<le> kroom k1" "addr_disk k1 \<noteq> 0" "\<And>a. a \<in> page_set fp \<Longrightarrow> kept k1 a" "disk_id (mem k1) ?D = 0"
    "\<And>a. in_range a ?D 20 \<Longrightarrow> kept k1 a \<and> a \<notin> page_set fp"
    using k1(3) room sf(2) D1 kp l1 [of 8] id(1) dk grows_kept [OF k1(3)] by (simp_all add: grows_def page_set_def disk_id_def)
  obtain s1 s2 s3 k2 where k2: "fat16_init_private ?D fp k1 = Some k2" "grows (page_set fp) k1 [s1, s2, s3] k2"
    "cluster_read_stream (mem k2) fp = s1" "fat_read_stream (mem k2) fp = s2" "directory_stream (mem k2) fp = s3"
    "stream_at k2 s1 0" "stream_at k2 s2 0" "stream_at k2 s3 0"
    by (rule init_private_ok [OF 2(1-3) al 2(4) 2(6) sf(3) 2(5)]) (assumption, assumption, rule that)
  define k3 where "k3 = k2\<lparr>mem := store32 (store32 (mem k2) (?D + 16) fp) (?D + 12) (addr_fat16_fs k)\<rparr>"
  have m3: "mem k3 = store32 (store32 (mem k2) (?D + 16) fp) (?D + 12) (addr_fat16_fs k)" by (simp add: k3_def)
  note d3 = disk_fields_stored [OF sf(1,3) m3]
  have "mgrows {} k [fp] k1" using mgrows_grows [OF mgrows_refl [OF wf] k1(3), of "{}"] by simp
  then have "mgrows {} k ([fp] @ [s1, s2, s3]) k2"
    by (rule mgrows_grows [OF _ k2(2)]) (use far in \<open>simp add: page_set_def\<close>)
  then have g2: "mgrows ?V k [fp, s1, s2, s3] k2" by (auto simp: mgrows_def intro: grows_mono)
  have "touches k2 ?V k3" unfolding k3_def by (rule touches_mem) (use d3(5) m3 in simp)
  then have g3: "mgrows ?V k [fp, s1, s2, s3] k3" by (rule mgrows_touches [OF g2]) simp
  have vf: "mem k3 a = mem k2 a" if "in_range a p 4096" "p \<in> {fp, s1, s2, s3}" for a p
  proof -
    have "\<not> kept k a" using mgrows_page(3) [OF g3, of p a] that by auto
    then show ?thesis using d3(5) dk(1) by blast
  qed
  have st3: "stream_at k3 s 0" if "stream_at k2 s 0" "s \<in> {s1, s2, s3}" for s
    using that(1)
  proof (rule stream_at_same)
    show "mem k3 a = mem k2 a" if "in_range a s 8" for a
      using that \<open>s \<in> {s1, s2, s3}\<close> by (intro vf [of a s]) (auto simp: in_range_def)
  qed (simp add: k3_def)
  have fl: "load32 (mem k3) (fp + 4 * of_nat i) = load32 (mem k2) (fp + 4 * of_nat i)" if "i < 1024" for i
    by (rule page_load_cong [OF vf [of _ fp] al that]) simp_all
  have fs: "cluster_read_stream (mem k3) fp = s1" "fat_read_stream (mem k3) fp = s2" "directory_stream (mem k3) fp = s3"
    using k2(3-5) fl [of 20] fl [of 21] fl [of 22] by (simp_all add: cluster_read_stream_def fat_read_stream_def directory_stream_def)
  have m2: "mem k2 a = mem k a" if "in_range a ?D 20" for a
    using k2(2) 2(6) [OF that] m1 [OF dk(1) [OF that]] by (simp add: grows_def)
  have l2: "load32 (mem k2) (?D + of_nat i) = load32 (mem k) (?D + of_nat i)" if "i + 4 \<le> 20" for i
    by (rule range_load [OF sf(3) m2 that])
  have dd: "disk_id (mem k3) ?D = 0" "disk_sector_size (mem k3) ?D = 512"
    using d3(1,2) id l2 [of 4] l2 [of 8] by (simp_all add: disk_id_def disk_sector_size_def)
  show ?thesis
    by (rule that [OF k1(1) k2(1) k3_def mgrows_fs(3) [OF g2] g3 fs st3 [OF k2(6)] st3 [OF k2(7)] st3 [OF k2(8)] dd d3(3,4)]) simp_all
qed

text \<open>Up to the test of the signature, which every drive passes through.\<close>

lemma header_ok:
  fixes k :: "'a fs_machine_scheme"
  assumes wf: "kwf k" and room: "5 \<le> kroom k" and ata: "ata_holds k img" and st: "statics k"
    and id: "disk_id (mem k) (addr_disk k) = 0" "disk_sector_size (mem k) (addr_disk k) = 512"
  obtains fp s1 s2 s3 s k5 where "fat16_resolve (addr_disk k) k = do {
      (res, h) \<leftarrow>
        (if header_signature (mem k5) fp \<noteq> PEACHOS_FAT16_SIGNATURE then Some (- EFSNOTUS, k5)
         else do {
           (r, h) \<leftarrow> fat16_get_root_directory (addr_disk k) fp k5;
           if r \<noteq> PEACHOS_ALL_OK then Some (- EIO, h) else Some (0, h)
         });
      let h = kfree s h;
      if res < 0 then let h = kfree fp h in Some (res, h\<lparr>mem := store32 (mem h) (addr_disk k + 16) 0\<rparr>) else Some (res, h)
    }"
    "mgrows {a. in_range a (addr_disk k) 20} k [fp, s1, s2, s3, s] k5" "header_read k5 img fp s1 s2 s3"
proof -
  let ?D = "addr_disk k" and ?V = "{a. in_range a (addr_disk k) 20}"
  note sf = statics_facts [OF st]
  have r4: "4 \<le> kroom k" using room by simp
  obtain fp k1 s1 s2 s3 k2 k3 where k3: "kzalloc 92 k = Some (fp, k1)" "fat16_init_private ?D fp k1 = Some k2"
    "k3 = k2\<lparr>mem := store32 (store32 (mem k2) (?D + 16) fp) (?D + 12) (addr_fat16_fs k)\<rparr>" "addr_fat16_fs k2 = addr_fat16_fs k"
    "mgrows ?V k [fp, s1, s2, s3] k3"
    "cluster_read_stream (mem k3) fp = s1" "fat_read_stream (mem k3) fp = s2" "directory_stream (mem k3) fp = s3"
    "stream_at k3 s1 0" "stream_at k3 s2 0" "stream_at k3 s3 0" "disk_id (mem k3) ?D = 0" "disk_sector_size (mem k3) ?D = 512"
    "disk_fs_private (mem k3) ?D = fp" "disk_filesystem (mem k3) ?D = addr_fat16_fs k"
    by (rule private_made [OF wf r4 st id]) (rule that)
  note f3 = mgrows_fs [OF k3(5)] and l3 = mgrows_live [OF k3(5)]
  have "0 < kroom k3" "addr_disk k3 \<noteq> 0" using f3(7,2) room sf(2) by simp_all
  from diskstreamer_new_at [OF f3(6) this] obtain s k4 where k4: "diskstreamer_new 0 k3 = Some (s, k4)" "s \<noteq> 0" "grows {} k3 [s] k4" "stream_at k4 s 0"
    by blast
  have g4: "mgrows ?V k ([fp, s1, s2, s3] @ [s]) k4" by (rule mgrows_grows [OF k3(5) k4(3)]) simp
  note f4 = mgrows_fs [OF g4]
  have fars: "\<not> in_range a s 4096" if "kept k3 a" for a using grows_page(3) [OF k4(3), of s a] that by simp
  have lf: "klive k3 p = Some 1" if "p \<in> {fp, s1, s2, s3}" for p using l3(1) that by auto
  have pf: "kept k3 a" if "in_range a p 4096" "p \<in> {fp, s1, s2, s3}" for a p using kept_live [OF lf [OF that(2)]] that(1) by simp
  have al: "page_al fp" using mgrows_page(2) [OF k3(5), of fp] by simp
  have fpr: "in_range a fp 4096" if "unat (a - fp) < 62" for a using that page_range [OF al, of a] by simp
  have ap: "\<not> in_range a s 8" if "unat (a - fp) < 62" for a
    using fars [OF pf [OF fpr [OF that]]] by (auto simp: in_range_def)
  have a4: "ata_holds k4 img" using f4(4) ata by simp
  have p0: "0 + 62 < (2147483136 :: nat)" by simp
  obtain k5 where k5: "diskstreamer_read s fp (int 62) k4 = Some (0, k5)"
    "touches k4 ({a. in_range a s 8} \<union> {a. unat (a - fp) < 62}) k5" "\<And>i. i < 62 \<Longrightarrow> mem k5 (fp + of_nat i) = img i"
    by (rule read_touches [OF a4 k4(4) p0 ap]) (assumption, rule that, simp_all)
  have g5: "mgrows ?V k [fp, s1, s2, s3, s] k5"
  proof (rule mgrows_touches [OF _ k5(2)])
    show "mgrows ?V k [fp, s1, s2, s3, s] k4" using g4 by simp
    show "a \<in> ?V" if "kept k a" "a \<in> {a. in_range a s 8} \<union> {a. unat (a - fp) < 62}" for a
      using that(2) fpr [of a] mgrows_page(3) [OF k3(5) _ that(1), of fp] fars [OF mgrows_kept [OF k3(5) that(1)]] by (auto simp: in_range_def)
  qed
  note f5 = mgrows_fs [OF g5] and l5 = mgrows_live [OF g5]
  have m5: "mem k5 a = mem k3 a" if "kept k3 a" "\<not> unat (a - fp) < 62" for a
  proof -
    have "mem k5 a = mem k4 a" using k5(2) fars [OF that(1)] that(2) by (auto simp: touches_def in_range_def)
    then show ?thesis using k4(3) that(1) by (simp add: grows_def)
  qed
  have dkk: "kept k a" if "in_range a ?D 20" for a using not_heap_kept [of k a] sf(4) [OF that] by simp
  have md: "mem k5 a = mem k3 a" if "in_range a ?D 20" for a
    using m5 [OF mgrows_kept [OF k3(5) dkk [OF that]]] mgrows_page(3) [OF k3(5) _ dkk [OF that], of fp] fpr [of a] by auto
  have h5: "header_read k5 img fp s1 s2 s3"
  proof -
    have ld: "load32 (mem k5) (?D + of_nat i) = load32 (mem k3) (?D + of_nat i)" if "i + 4 \<le> 20" for i by (rule range_load [OF sf(3) md that])
    have b: "mem k5 (fp + of_nat i) = mem k3 (fp + of_nat i)" if "62 \<le> i" "i < 92" for i
    proof (rule m5)
      have "unat (of_nat i :: u32) = i" using that by (intro unat_of_nat_u32) linarith
      then show "\<not> unat (fp + of_nat i - fp) < 62" using that by simp
      show "kept k3 (fp + of_nat i)" using that by (intro pf [of _ fp] page_byte [OF al]) simp_all
    qed
    have lb: "load32 (mem k5) (fp + of_nat i) = load32 (mem k3) (fp + of_nat i)" if "80 \<le> i" "i + 4 \<le> 92" for i
    proof (rule load32_eqI)
      fix j :: nat
      assume "j < 4"
      then show "mem k5 (fp + of_nat i + of_nat j) = mem k3 (fp + of_nat i + of_nat j)" using b [of "i + j"] that by (simp add: add.assoc)
    qed
    have s5: "\<exists>q. stream_at k5 p q" if "stream_at k3 p 0" "p \<in> {s1, s2, s3}" for p
    proof -
      have "stream_at k5 p 0" using that(1)
      proof (rule stream_at_same)
        show "addr_disk k5 = addr_disk k3" using f5(2) f3(2) by simp
        show "mem k5 a = mem k3 a" if "in_range a p 8" for a
        proof (rule m5)
          have i: "in_range a p 4096" using that by (simp add: in_range_def)
          then show "kept k3 a" using \<open>p \<in> {s1, s2, s3}\<close> by (intro pf) auto
          have "p \<noteq> fp" "klive k3 p = Some 1" "klive k3 fp = Some 1" using l3 \<open>p \<in> {s1, s2, s3}\<close> by auto
          then have "a \<notin> page_set fp" using live_page(6) [OF f3(6), of p fp a] i by (simp add: page_set_def)
          then show "\<not> unat (a - fp) < 62" using fpr by (auto simp: page_set_def)
        qed
      qed
      then show ?thesis by blast
    qed
    show ?thesis unfolding header_read_def
      using f5 ata l5 k5(3) ld [of 4] ld [of 8] ld [of 12] ld [of 16] lb [of 80] lb [of 84] lb [of 88] k3 s5
      by (auto simp: cluster_read_stream_def fat_read_stream_def directory_stream_def disk_id_def disk_sector_size_def disk_fs_private_def
          disk_filesystem_def)
  qed
  have m3: "store32 (store32 (mem k2) (?D + 16) fp) (?D + 12) (addr_fat16_fs k) = mem k3" "k2\<lparr>mem := mem k3\<rparr> = k3"
    by (simp_all add: k3(3))
  show ?thesis
    by (rule that [OF _ g5 h5])
      (use k3(1,2,4,12) m3 k4(1,2) k5(1) in
        \<open>simp add: fat16_resolve_def Let_def k3(3) [symmetric] diskstreamer_close_def status_simps split del: if_split cong: if_cong\<close>)
qed

lemma resolve_ok:
  fixes k :: "'a fs_machine_scheme"
  assumes wf: "kwf k" and room: "7 \<le> kroom k" and ata: "ata_holds k img" and st: "statics k" and im: "fat_image img n N"
    and id: "disk_id (mem k) (addr_disk k) = 0" "disk_sector_size (mem k) (addr_disk k) = 512"
  obtains fp s1 s2 s3 s dir s4 k6 where "fat16_resolve (addr_disk k) k = Some (0, kfree s k6)"
    "mgrows ({a. in_range a (addr_disk k) 20} \<union> item_local k) k [fp, s1, s2, s3, s, dir, s4] k6"
    "header_read k6 img fp s1 s2 s3" "root_read k6 img n fp dir"
proof -
  let ?D = "addr_disk k" and ?W = "{a. in_range a (addr_disk k) 20} \<union> item_local k"
  have r5: "5 \<le> kroom k" using room by simp
  obtain fp s1 s2 s3 s k5 where eq: "fat16_resolve (addr_disk k) k = do {
      (res, h) \<leftarrow>
        (if header_signature (mem k5) fp \<noteq> PEACHOS_FAT16_SIGNATURE then Some (- EFSNOTUS, k5)
         else do {
           (r, h) \<leftarrow> fat16_get_root_directory (addr_disk k) fp k5;
           if r \<noteq> PEACHOS_ALL_OK then Some (- EIO, h) else Some (0, h)
         });
      let h = kfree s h;
      if res < 0 then let h = kfree fp h in Some (res, h\<lparr>mem := store32 (mem h) (addr_disk k + 16) 0\<rparr>) else Some (res, h)
    }" and g5: "mgrows {a. in_range a (addr_disk k) 20} k [fp, s1, s2, s3, s] k5" and h5: "header_read k5 img fp s1 s2 s3"
    by (rule header_ok [OF wf r5 ata st id]) (rule that)
  note f5 = mgrows_fs [OF g5]
  have st5: "statics k5" by (rule statics_same [OF st f5(1-3,5)])
  have r2: "2 \<le> kroom k5" using f5(7) room by simp
  obtain dir s4 k6 where k6: "fat16_get_root_directory (addr_disk k5) fp k5 = Some (0, k6)"
    "mgrows (page_set fp \<union> page_set s3 \<union> item_local k5) k5 [dir, s4] k6" "header_read k6 img fp s1 s2 s3"
    "dir_item (mem k6) (root_directory fp) = dir" "dir_total (mem k6) (root_directory fp) = of_nat (live_entries img n)"
    "dir_ending_sector_pos (mem k6) (root_directory fp) = of_nat (root_sector img + root_entries img div 16)"
    "\<And>i. i < 32 * root_entries img \<Longrightarrow> mem k6 (dir + of_nat i) = img (root_sector img * 512 + i)"
    by (rule root_directory_ok [OF h5 im st5 r2]) (rule that)
  have "mgrows ?W k [fp, s1, s2, s3, s] k5" using g5 by (auto simp: mgrows_def intro: grows_mono)
  then have "mgrows ?W k ([fp, s1, s2, s3, s] @ [dir, s4]) k6"
  proof (rule mgrows_trans [OF _ k6(2)])
    show "a \<in> ?W" if "kept k a" "a \<in> page_set fp \<union> page_set s3 \<union> item_local k5" for a
      using that(2) mgrows_page(3) [OF g5 _ that(1), of fp] mgrows_page(3) [OF g5 _ that(1), of s3] f5(1)
      by (auto simp: page_set_def item_local_def)
  qed
  then have G: "mgrows ?W k [fp, s1, s2, s3, s, dir, s4] k6" by simp
  have "header_signature (mem k5) fp = PEACHOS_FAT16_SIGNATURE"
    using header_fields(3) [of "mem k5" fp img] h5 im by (simp add: fat_image_def header_read_def)
  then have "fat16_resolve ?D k = Some (0, kfree s k6)"
    using eq k6(1) f5(2) by (simp add: status_simps)
  moreover have "root_read k6 img n fp dir" using k6(4-7) by (simp add: root_read_def)
  ultimately show ?thesis using G k6(3) by (intro that) simp_all
qed

text \<open>A disk of another kind is refused.\<close>

lemma resolve_refused:
  fixes k :: "'a fs_machine_scheme"
  assumes wf: "kwf k" and room: "5 \<le> kroom k" and ata: "ata_holds k img" and st: "statics k" and im: "img 38 \<noteq> PEACHOS_FAT16_SIGNATURE"
    and id: "disk_id (mem k) (addr_disk k) = 0" "disk_sector_size (mem k) (addr_disk k) = 512"
  obtains fp s1 s2 s3 s k5 where "fat16_resolve (addr_disk k) k =
      Some (- EFSNOTUS, (kfree fp (kfree s k5))\<lparr>mem := store32 (mem k5) (addr_disk k + 16) 0\<rparr>)"
    "mgrows {a. in_range a (addr_disk k) 20} k [fp, s1, s2, s3, s] k5"
proof -
  obtain fp s1 s2 s3 s k5 where eq: "fat16_resolve (addr_disk k) k = do {
      (res, h) \<leftarrow>
        (if header_signature (mem k5) fp \<noteq> PEACHOS_FAT16_SIGNATURE then Some (- EFSNOTUS, k5)
         else do {
           (r, h) \<leftarrow> fat16_get_root_directory (addr_disk k) fp k5;
           if r \<noteq> PEACHOS_ALL_OK then Some (- EIO, h) else Some (0, h)
         });
      let h = kfree s h;
      if res < 0 then let h = kfree fp h in Some (res, h\<lparr>mem := store32 (mem h) (addr_disk k + 16) 0\<rparr>) else Some (res, h)
    }" and g: "mgrows {a. in_range a (addr_disk k) 20} k [fp, s1, s2, s3, s] k5" and h: "header_read k5 img fp s1 s2 s3"
    by (rule header_ok [OF wf room ata st id]) (rule that)
  have "header_signature (mem k5) fp \<noteq> PEACHOS_FAT16_SIGNATURE"
    using header_fields(3) [of "mem k5" fp img] h im by (simp add: header_read_def)
  then show ?thesis using eq by (intro that [OF _ g]) (simp add: status_simps Let_def)
qed

lemma grows_kfree:
  assumes "grows W k (xs @ p # ys) k'"
  shows "grows W k (xs @ ys) (kfree p k')"
proof -
  have l: "klive k' p = Some 1" and wf: "kwf k'" using assms by (simp_all add: grows_def)
  from kalloc.release_wf [OF wf l] kalloc.release_live [OF wf l] kalloc.page_release [OF wf l] assms
  show ?thesis by (auto simp: grows_def fun_eq_iff)
qed

lemma mgrows_kfree:
  assumes "mgrows W k (xs @ p # ys) k'"
  shows "mgrows W k (xs @ ys) (kfree p k')"
proof -
  have "(kfree p k')\<lparr>io_log := l\<rparr> = kfree p (k'\<lparr>io_log := l\<rparr>)" for l by (simp add: kfree_def)
  then show ?thesis using grows_kfree [OF assms [unfolded mgrows_def]] by (simp add: mgrows_def)
qed

lemma store32_load32: "store32 m p (load32 m p) = m"
proof -
  have nb: "bit w (numeral x + j) = False" if "8 \<le> (numeral x :: nat)" for w :: u8 and x j
    using bit_imp_le_length [of w "numeral x + j"] that by auto
  have b: "ucast (load32 m p) = m p" "ucast (drop_bit 8 (load32 m p)) = m (p + 1)"
    "ucast (drop_bit 16 (load32 m p)) = m (p + 2)" "ucast (drop_bit 24 (load32 m p)) = m (p + 3)"
    by (rule bit_word_eqI, simp add: load32_def bit_simps nb)+
  show ?thesis unfolding store32_def b by simp
qed

section \<open>The mounted volume\<close>

definition image_geom :: "(nat \<Rightarrow> u8) \<Rightarrow> nat \<Rightarrow> u32 \<Rightarrow> u32 \<Rightarrow> u32 \<Rightarrow> fat_geom" where
  "image_geom img N fp s1 s2 = \<lparr>v_private = fp, v_fat = s2, v_data = s1, v_reserved = unat (image_word img 14), v_spc = unat (img 13),
     v_start = root_sector img + root_entries img div 16, v_clusters = N\<rparr>"

lemma root_listing_at:
  assumes "i < length (root_listing img n)" "n \<le> root_entries img"
    and "\<And>i. i < 32 * root_entries img \<Longrightarrow> m (dir + of_nat i) = img (root_sector img * 512 + i)"
  shows "bytes_at m (dir + of_nat i * 32) (root_listing img n ! i)"
proof -
  have i: "i < live_entries img n" using assms(1) by (simp add: root_listing_def)
  then have e: "i < root_entries img" using live_entries_le [of img n] assms(2) by linarith
  have "m (dir + of_nat i * 32 + of_nat j) = root_entry img i ! j" if "j < 32" for j
  proof -
    have "32 * i + j < 32 * root_entries img" using e that by linarith
    from assms(3) [OF this] show ?thesis using that by (simp add: root_entry_def ac_simps)
  qed
  moreover have "root_listing img n ! i = root_entry img i" "length (root_entry img i) = 32"
    using i by (simp_all add: root_listing_def root_entry_def)
  ultimately show ?thesis unfolding bytes_at_nth by simp
qed

lemma header_mounted:
  assumes h: "header_read k img fp s1 s2 s3" and r: "root_read k img n fp dir" and d: "klive k dir = Some 1"
    and st: "statics k" and im: "fat_image img n N"
  shows "mounted k img (image_geom img N fp s1 s2) (root_listing img n)"
proof -
  let ?g = "image_geom img N fp s1 s2"
  note gd = image_geom_def
  have hf: "kwf k" "ata_holds k img" "klive k fp = Some 1" "klive k s1 = Some 1" "klive k s2 = Some 1" "fp \<noteq> s1" "fp \<noteq> s2" "s1 \<noteq> s2"
    "\<exists>q. stream_at k s1 q" "\<exists>q. stream_at k s2 q" "\<forall>i < 62. mem k (fp + of_nat i) = img i"
    using h by (auto simp: header_read_def)
  note hd = header_fields [OF hf(11)]
  note pg = live_page [OF hf(1)]
  have sp: "unat (local_addr k Fat_entry) + 2 \<le> 4294967296" "aligned4 (addr_disk k)" "addr_disk k \<noteq> 0" "unat (addr_disk k) + 20 \<le> 4294967296"
    "addr_fat16_fs k \<noteq> 0" using st by (simp_all add: statics_def)
  have nh: "\<not> heap_area k a" if "in_range a (addr_disk k) 20 \<or> in_range a (local_addr k Fat_entry) 2 \<or> a \<in> tmp_name k" for a
    using st that by (auto simp: statics_def)
  have fx: "in_range a (addr_disk k) 20 \<or> a \<in> page_set fp" if "fixed k ?g a" for a
    using that by (auto simp: fixed_def gd intro: in_page_set [of _ _ 92])
  have sc: "a \<in> page_set s1 \<or> a \<in> page_set s2 \<or> in_range a (local_addr k Fat_entry) 2" if "scratch k ?g a" for a
    using that by (auto simp: scratch_def gd intro: in_page_set [of _ _ 8])
  have ps: "steady k a" if "a \<in> page_set p" "klive k p = Some 1" for a p
    using pg(3,4) [OF that(2,1)] nh by (auto simp: steady_def)
  have ss: "steady k a" if used: "fixed k ?g a \<or> scratch k ?g a" for a
  proof -
    consider p where "a \<in> page_set p" "klive k p = Some 1" | "in_range a (addr_disk k) 20" | "in_range a (local_addr k Fat_entry) 2"
      using used fx [of a] sc [of a] hf(3-5) by blast
    then show ?thesis
    proof cases
      case 1
      then show ?thesis by (rule ps)
    next
      case 2
      then show ?thesis using st nh [of a] not_heap_kept [of k a] by (auto simp: steady_def statics_def)
    next
      case 3
      then show ?thesis using st nh [of a] not_heap_kept [of k a] by (auto simp: steady_def statics_def)
    qed
  qed
  have dj: "a \<notin> page_set p" if "in_range a (addr_disk k) 20 \<or> in_range a (local_addr k Fat_entry) 2" "klive k p = Some 1" for a p
    using nh [of a] that pg(4) [OF that(2), of a] by blast
  have fs: "\<not> scratch k ?g a" if "fixed k ?g a" for a
    using fx [OF that] sc [of a] dj [of a] hf(3-8) pg(6) [of fp s1 a] pg(6) [of fp s2 a] st by (auto simp: statics_def)
  have vf: "volume_fields (mem k) (addr_disk k) ?g"
    using h r hd by (simp add: volume_fields_def gd header_read_def root_read_def)
  have sz: "0 < unat (img 13)" "unat (img 13) < 256" using im unsigned_less [of "img 13", where 'a = nat] by (simp_all add: fat_image_def unat_gt_0)
  have "root_entries img \<le> 128" using im by (simp add: fat_image_def)
  then have re: "root_entries img div 16 \<le> 8" using div_le_mono [of "root_entries img" 128 16] by simp
  have bd: "(root_sector img + root_entries img div 16 + N * unat (img 13)) * 512 < 2147483136"
    using im re by (simp add: fat_image_def algebra_simps)
  have s8: "a \<in> page_set s" if "in_range a s 8" for a s using that by (rule in_page_set) simp
  have vol: "fat_volume k img ?g"
    unfolding fat_volume_def
  proof (intro conjI allI impI)
    show "\<not> scratch k ?g a" if "fixed k ?g a" for a using that by (rule fs)
    show "\<not> in_range a (v_data ?g) 8" if "in_range a (v_fat ?g) 8" for a
      using that s8 [of a s1] s8 [of a s2] pg(6) [OF hf(4,5), of a] hf(8) by (auto simp: gd)
    show "\<not> in_range a (local_addr k Fat_entry) 2" if "in_range a (v_fat ?g) 8" for a
      using that s8 [of a s2] dj [OF _ hf(5), of a] by (auto simp: gd)
    show "\<not> in_range a (local_addr k Fat_entry) 2" if "in_range a (v_data ?g) 8" for a
      using that s8 [of a s1] dj [OF _ hf(4), of a] by (auto simp: gd)
    show "unat (v_private ?g) + 92 \<le> 4294967296" using pg(5) [OF hf(3)] by (simp add: gd)
    show "v_fat ?g \<noteq> 0" using pg(1) [OF hf(5)] by (simp add: gd)
  qed (use hf vf sz bd sp im in \<open>simp_all add: gd fat_image_def\<close>)
  have ls: "listing k (root_directory (v_private ?g)) (root_listing img n)"
    unfolding listing_def
  proof (intro conjI allI impI)
    have dm: "dir_item (mem k) (root_directory (v_private ?g)) = dir" using r by (simp add: root_read_def gd)
    have al: "page_al fp" "page_al dir" using pg(2) hf(3) d by blast+
    have ln: "length (root_listing img n) \<le> 128" "n \<le> root_entries img" "root_entries img \<le> 128" "length (root_listing img n) \<le> n"
      using live_entries_le [of img n] im by (auto simp: root_listing_def fat_image_def)
    show "unat (root_directory (v_private ?g)) + 8 \<le> 4294967296" using page_offset [OF al(1), of 64] pg(5) [OF hf(3)] by (simp add: gd)
    show "length (root_listing img n) < 65536" using ln by simp
    show "dir_total (mem k) (root_directory (v_private ?g)) = of_nat (length (root_listing img n))"
      using r by (simp add: root_read_def gd root_listing_def)
    show "steady k (root_directory (v_private ?g) + of_nat i)" if "i < 8" for i
      using ps [OF _ hf(3), of "fp + of_nat (64 + i)"] page_byte [OF al(1), of "64 + i"] that by (simp add: gd page_set_def add.assoc)
    fix i :: nat
    assume i: "i < length (root_listing img n)"
    show "entry_ok (root_listing img n ! i)" using im i by (simp add: fat_image_def)
    show "bytes_at (mem k) (dir_item (mem k) (root_directory (v_private ?g)) + of_nat i * 32) (root_listing img n ! i)"
      unfolding dm by (rule root_listing_at [OF i ln(2)]) (use r in \<open>simp add: root_read_def\<close>)
    show "steady k (dir_item (mem k) (root_directory (v_private ?g)) + of_nat i * 32 + of_nat j)" if "j < 32" for j
      using ps [OF _ d, of "dir + of_nat (i * 32 + j)"] page_byte [OF al(2), of "i * 32 + j"] that i ln(1) unfolding dm
      by (simp add: page_set_def add.assoc)
  qed
  show ?thesis using vol ls ss sp(3,5) h nh by (simp add: mounted_def header_read_def)
qed

text \<open>The structure of the disk before the search.\<close>

lemma disk_cleared:
  fixes k :: "'a fs_machine_scheme"
  assumes st: "statics k"
    and m: "m = store32 (store32 (store32 (memset (mem k) (addr_disk k) 0 20) (addr_disk k) PEACHOS_DISK_TYPE_REAL)
      (addr_disk k + 4) PEACHOS_SECTOR_SIZE) (addr_disk k + 8) 0"
  shows "disk_id m (addr_disk k) = 0" "disk_sector_size m (addr_disk k) = 512" "\<not> in_range a (addr_disk k) 20 \<Longrightarrow> m a = mem k a"
    "statics (k\<lparr>mem := m\<rparr>)"
proof -
  let ?D = "addr_disk k"
  have al: "aligned4 ?D" and du: "unat ?D + 20 \<le> 4294967296" using st by (simp_all add: statics_def)
  have u: "unat (?D + 4) = unat ?D + 4" "unat (?D + 8) = unat ?D + 8" using du by (simp_all add: unat_add_small)
  have al': "aligned4 (?D + 4)" "aligned4 (?D + 8)" using al du by (simp_all add: aligned4_def unat_add_small) presburger+
  show "disk_id m ?D = 0" "disk_sector_size m ?D = 512"
    unfolding disk_id_def disk_sector_size_def m using al' by (simp_all add: load32_store32_other)
  show "m a = mem k a" if "\<not> in_range a ?D 20"
  proof -
    have "\<not> in_range a ?D 4" "\<not> in_range a (?D + 4) 4" "\<not> in_range a (?D + 8) 4" using that u by (auto simp: in_range_def)
    moreover have "\<not> unat (a - ?D) < 20" using that in_range_diff [of ?D 20 a] du by simp
    ultimately show ?thesis using al al' by (simp add: m store32_frame memset_eq)
  qed
  show "statics (k\<lparr>mem := m\<rparr>)" using st by (rule statics_same) (simp_all add: kgeom_def)
qed

lemma mgrows_start:
  fixes k :: "'a fs_machine_scheme"
  assumes "mgrows W (k\<lparr>mem := m\<rparr>) ps k'" "\<And>a. a \<notin> W \<Longrightarrow> m a = mem k a"
  shows "mgrows W k ps k'"
proof -
  have e: "k'\<lparr>io_log := io_log k, kernel_heap := kernel_heap k, mem := m\<rparr> = k\<lparr>mem := m\<rparr>"
    using assms(1) by (simp add: mgrows_def grows_def same_rest_def)
  have "k'\<lparr>io_log := io_log k, kernel_heap := kernel_heap k, mem := mem k\<rparr> = k"
    using arg_cong [OF e, of "mem_update (\<lambda>_. mem k)"] by simp
  then show ?thesis using assms by (simp add: mgrows_def grows_def same_rest_def cong: if_cong)
qed

lemma mount_ok:
  fixes k :: "'a fs_machine_scheme"
  assumes wf: "kwf k" and room: "7 \<le> kroom k" and ata: "ata_holds k img" and st: "statics k"
    and fs: "filesystems k = addr_fat16_fs k # rest" and im: "fat_image img n N"
  obtains fp s1 s2 s3 dir s4 k' where "disk_search_and_init k = Some k'"
    "mgrows ({a. in_range a (addr_disk k) 20} \<union> item_local k) k [fp, s1, s2, s3, dir, s4] k'"
    "mounted k' img (image_geom img N fp s1 s2) (root_listing img n)"
proof -
  let ?D = "addr_disk k" and ?W = "{a. in_range a (addr_disk k) 20} \<union> item_local k"
  define m where "m = store32 (store32 (store32 (memset (mem k) ?D 0 20) ?D PEACHOS_DISK_TYPE_REAL) (?D + 4) PEACHOS_SECTOR_SIZE) (?D + 8) 0"
  note dc = disk_cleared [OF st m_def]
  let ?k = "k\<lparr>mem := m\<rparr>"
  have pre: "kwf ?k" "7 \<le> kroom ?k" "ata_holds ?k img" "disk_id (mem ?k) (addr_disk ?k) = 0" "disk_sector_size (mem ?k) (addr_disk ?k) = 512"
    using wf room ata dc(1,2) by simp_all
  obtain fp s1 s2 s3 s dir s4 k6 where k6: "fat16_resolve (addr_disk ?k) ?k = Some (0, kfree s k6)"
    "mgrows ({a. in_range a (addr_disk ?k) 20} \<union> item_local ?k) ?k [fp, s1, s2, s3, s, dir, s4] k6"
    "header_read k6 img fp s1 s2 s3" "root_read k6 img n fp dir"
    by (rule resolve_ok [OF pre(1-3) dc(4) im pre(4,5)]) (rule that)
  let ?k' = "kfree s k6"
  have g: "mgrows ?W k ([fp, s1, s2, s3] @ s # [dir, s4]) k6"
  proof (rule mgrows_start)
    show "mgrows ?W (k\<lparr>mem := m\<rparr>) ([fp, s1, s2, s3] @ s # [dir, s4]) k6" using k6(2) by (simp add: item_local_def)
    show "m a = mem k a" if "a \<notin> ?W" for a using dc(3) [of a] that by simp
  qed
  have g': "mgrows ?W k [fp, s1, s2, s3, dir, s4] ?k'" using mgrows_kfree [OF g] by simp
  note f6 = mgrows_fs [OF g] and f = mgrows_fs [OF g'] and l = mgrows_live [OF g']
  have st': "statics ?k'" by (rule statics_same [OF st f(1-3,5)])
  have l1: "klive ?k' p = Some 1" if "p \<in> {fp, s1, s2, s3, dir}" for p using l(1) that by auto
  have h: "header_read ?k' img fp s1 s2 s3"
  proof (rule header_keep [OF k6(3)])
    show "kwf ?k'" "addr_disk ?k' = addr_disk k6" "addr_fat16_fs ?k' = addr_fat16_fs k6" "ata_holds ?k' img"
      using f f6 ata by simp_all
    show "klive ?k' p = Some 1" if "p \<in> {fp, s1, s2, s3}" for p using l1 that by auto
    show "unat (addr_disk k6) + 20 \<le> 4294967296" using statics_facts(3) [OF st] f6(2) by simp
    fix p
    assume "p \<in> {s1, s2, s3}"
    then obtain q where q: "stream_at k6 p q" using k6(3) by (auto simp: header_read_def)
    have "stream_at ?k' p q" by (rule stream_at_same [OF q]) (use f f6 in simp_all)
    then show "\<exists>q. stream_at ?k' p q" by blast
  qed simp_all
  have r: "root_read ?k' img n fp dir" using k6(4) by (simp add: root_read_def)
  have d: "klive ?k' dir = Some 1" by (rule l1) simp
  have ff: "addr_fat16_fs k \<noteq> 0" using st by (simp add: statics_def)
  have fsp: "load32 (mem k6) (?D + 12) = addr_fat16_fs k" using h f(2,3) by (simp add: header_read_def disk_filesystem_def)
  have same: "?k'\<lparr>mem := store32 (mem k6) (?D + 12) (addr_fat16_fs k)\<rparr> = ?k'"
    using store32_load32 [of "mem k6" "?D + 12"] fsp by (intro fs_machine.equality) simp_all
  have "disk_search_and_init k = Some ?k'"
    using k6(1) fs ff by (simp add: disk_search_and_init_def Let_def m_def [symmetric] fs_resolve_def is_fat16_def same)
  then show ?thesis by (rule that [OF _ g' header_mounted [OF h r d st' im]])
qed

lemma refuse_ok:
  fixes k :: "'a fs_machine_scheme"
  assumes wf: "kwf k" and room: "5 \<le> kroom k" and ata: "ata_holds k img" and st: "statics k"
    and fs: "filesystems k = addr_fat16_fs k # replicate j 0" and im: "img 38 \<noteq> PEACHOS_FAT16_SIGNATURE"
  obtains s1 s2 s3 k' where "disk_search_and_init k = Some k'"
    "mgrows {a. in_range a (addr_disk k) 20} k [s1, s2, s3] k'" "disk_filesystem (mem k') (addr_disk k) = 0" "disk_fs_private (mem k') (addr_disk k) = 0"
proof -
  let ?D = "addr_disk k" and ?V = "{a. in_range a (addr_disk k) 20}"
  define m where "m = store32 (store32 (store32 (memset (mem k) ?D 0 20) ?D PEACHOS_DISK_TYPE_REAL) (?D + 4) PEACHOS_SECTOR_SIZE) (?D + 8) 0"
  note dc = disk_cleared [OF st m_def]
  let ?k = "k\<lparr>mem := m\<rparr>"
  have pre: "kwf ?k" "5 \<le> kroom ?k" "ata_holds ?k img" "disk_id (mem ?k) (addr_disk ?k) = 0" "disk_sector_size (mem ?k) (addr_disk ?k) = 512"
    using wf room ata dc(1,2) by simp_all
  obtain fp s1 s2 s3 s k5 where k5: "fat16_resolve (addr_disk ?k) ?k =
      Some (- EFSNOTUS, (kfree fp (kfree s k5))\<lparr>mem := store32 (mem k5) (addr_disk ?k + 16) 0\<rparr>)"
    "mgrows {a. in_range a (addr_disk ?k) 20} ?k [fp, s1, s2, s3, s] k5"
    by (rule resolve_refused [OF pre(1-3) dc(4) im pre(4,5)]) (rule that)
  let ?k' = "(kfree fp (kfree s k5))\<lparr>mem := store32 (store32 (mem k5) (?D + 16) 0) (?D + 12) 0\<rparr>"
  have g: "mgrows ?V k ([fp, s1, s2, s3] @ s # []) k5"
  proof (rule mgrows_start)
    show "mgrows ?V (k\<lparr>mem := m\<rparr>) ([fp, s1, s2, s3] @ s # []) k5" using k5(2) by simp
    show "m a = mem k a" if "a \<notin> ?V" for a using dc(3) [of a] that by simp
  qed
  have "mgrows ?V k ([] @ fp # [s1, s2, s3]) (kfree s k5)" using mgrows_kfree [OF g] by simp
  from mgrows_kfree [OF this] have g': "mgrows ?V k [s1, s2, s3] (kfree fp (kfree s k5))" by simp
  note sd = disk_fields_stored [OF statics_facts(1,3) [OF st] refl, where m = "mem k5" and fp = 0 and fs = 0]
  have t: "touches (kfree fp (kfree s k5)) ?V ?k'" using sd(5) by (intro touches_mem) simp
  have G: "mgrows ?V k [s1, s2, s3] ?k'" by (rule mgrows_touches [OF g' t]) simp
  have rest: "fs_resolve_loop d (replicate j 0) h = Some (0, h)" for d and h :: "'a fs_machine_scheme" by (induction j) simp_all
  have ff: "addr_fat16_fs k \<noteq> 0" using st by (simp add: statics_def)
  have "disk_search_and_init k = Some ?k'"
    using k5(1) fs ff rest by (simp add: disk_search_and_init_def Let_def m_def [symmetric] fs_resolve_def is_fat16_def status_simps)
  then show ?thesis using sd(3,4) by (intro that [OF _ G]) simp_all
qed

section \<open>An example\<close>

text \<open>The header of \<^verbatim>\<open>src/boot/boot.asm\<close> and a root directory of two files.\<close>

definition boot_header :: "u8 list" where
  "boot_header = [0xEB, 0x3C, 0x90] @ chars ''PEACHOS '' @ [0, 2, 0x80, 200, 0, 2, 0x40, 0, 0, 0, 0xF8, 0, 1, 0x20, 0, 0x40, 0,
     0, 0, 0, 0, 0x94, 0x35, 0x77, 0, 0x80, 0, 0x29, 0x05, 0xD1, 0, 0] @ chars ''PEACHOS BOO'' @ chars ''FAT16   ''"

definition boot_image :: "nat \<Rightarrow> u8" where
  "boot_image i = (if i < 62 then boot_header ! i
     else if 364544 \<le> i \<and> i < 364608 then (readme_entry @ hello_entry) ! (i - 364544) else 0)"

definition mount_machine :: "(nat \<Rightarrow> u8) \<Rightarrow> fs_machine" where
  "mount_machine img = (fat_machine (drive_word img) 0)\<lparr>local_addr := (\<lambda>_. 0x4000)(Tmp_filename := 0x4100),
     filesystems := 0x5000 # replicate 11 0, file_descriptors := replicate 512 0\<rparr>"

lemma boot_bytes: "boot_image 13 = 0x80" "boot_image 14 = 200" "boot_image 15 = 0" "boot_image 16 = 2" "boot_image 17 = 0x40"
  "boot_image 18 = 0" "boot_image 22 = 0" "boot_image 23 = 1" "boot_image 38 = 0x29"
  by (simp_all add: boot_image_def boot_header_def chars_def)

lemma boot_sizes: "root_sector boot_image = 712" "root_entries boot_image = 64" "unat (image_word boot_image 14) = 200"
  by (simp_all add: root_sector_def root_entries_def image_word_def boot_bytes)

lemma boot_entry: "root_entry boot_image 0 = readme_entry" "root_entry boot_image 1 = hello_entry"
proof -
  note l = fopen_lengths(1,2)
  show "root_entry boot_image 0 = readme_entry"
    by (rule nth_equalityI) (simp_all add: root_entry_def boot_sizes boot_image_def nth_append l)
  show "root_entry boot_image 1 = hello_entry"
    by (rule nth_equalityI) (simp_all add: root_entry_def boot_sizes boot_image_def nth_append l)
qed

lemma boot_first: "boot_image 364544 = 82" "boot_image 364576 = 72" "boot_image 364608 = 0"
  by (simp_all add: boot_image_def readme_entry_def hello_entry_def chars_def nth_append)

lemma boot_root: "root_listing boot_image 2 = [readme_entry, hello_entry]"
proof -
  have u: "[0..<2] = [0, 1 :: nat]" by (simp add: upt_rec)
  have "live_entries boot_image 2 = 2" unfolding live_entries_def u boot_sizes by (simp add: boot_first)
  then show ?thesis by (simp add: root_listing_def u boot_entry [simplified])
qed

lemma boot_volume: "fat_image boot_image 2 10000"
proof -
  have "boot_image (712 * 512 + 32 * i) \<noteq> 0" if "i < 2" for i :: nat
    using that boot_first by (cases i) (simp_all add: less_Suc_eq)
  then show ?thesis unfolding fat_image_def boot_sizes boot_root
    using fopen_ok_entries by (simp add: boot_bytes boot_first)
qed

lemma mount_machine_ok:
  "kwf (mount_machine img)" "kroom (mount_machine img) = 25600" "ata_holds (mount_machine img) img" "statics (mount_machine img)"
  "filesystems (mount_machine img) = addr_fat16_fs (mount_machine img) # replicate 11 0"
proof -
  have h: "kernel_heap (mount_machine img) = kernel_heap (kheap_init machine4)" by (simp add: mount_machine_def fat_machine_def)
  then show "kwf (mount_machine img)" "kroom (mount_machine img) = 25600" using booted_machine by (simp_all add: kwf_def kroom_def)
  show "ata_holds (mount_machine img) img" by (rule drive_holds) (simp_all add: mount_machine_def fat_machine_def)
  show "filesystems (mount_machine img) = addr_fat16_fs (mount_machine img) # replicate 11 0" by (simp add: mount_machine_def fat_machine_def)
  have g: "kgeom (mount_machine img) = (0x01000000, 25600)"
    using kheap_init_rep [of machine4] h by (simp add: kgeom_def heap_rep_def)
  have r: "unat (a - 0x4100) < 108 \<longleftrightarrow> in_range a 0x4100 108" "unat (a - 0x4000) < 32 \<longleftrightarrow> in_range a 0x4000 32" for a :: u32
    using in_range_diff [of "0x4100" 108 a] in_range_diff [of "0x4000" 32 a] by simp_all
  show "statics (mount_machine img)"
    unfolding statics_def heap_area_def g tmp_name_def item_local_def
    by (auto simp: mount_machine_def fat_machine_def r aligned4_def in_range_def)
qed

section \<open>Properties\<close>

text \<open>C5. Mounting works: with a drive that holds a FAT16 image whose root directory has at most 128 places, an end and
  names that end (\<open>fat_image\<close>), the statics and the local variables where nothing else lies (\<open>statics\<close>) and seven free
  blocks, \<open>disk_search_and_init\<close> makes the volume that opening and reading files rely on. Its root
  directory lists as many entries, from the first of the table on, as there are entries that are not deleted. Six
  blocks of the heap stay in use, the one of the stream over the root directory, which nothing refers to any more,
  among them; nothing else that was in use has changed but the structure of the disk and the buffer for an
  entry.\<close>

theorem mount_correct:
  fixes k :: "'a fs_machine_scheme"
  assumes "kwf k" "7 \<le> kroom k" "ata_holds k img" "statics k" "filesystems k = addr_fat16_fs k # rest" "fat_image img n N"
  shows "\<exists>k' fp s1 s2 s3 dir s4. disk_search_and_init k = Some k' \<and>
    mounted k' img (image_geom img N fp s1 s2) (root_listing img n) \<and> kwf k' \<and> kroom k = kroom k' + 6 \<and>
    klive k' = (\<lambda>p. if p \<in> {fp, s1, s2, s3, dir, s4} then Some 1 else klive k p) \<and>
    filesystems k' = filesystems k \<and> file_descriptors k' = file_descriptors k \<and>
    (\<forall>a. kept k a \<longrightarrow> \<not> in_range a (addr_disk k) 20 \<longrightarrow> a \<notin> item_local k \<longrightarrow> mem k' a = mem k a)"
proof -
  obtain fp s1 s2 s3 dir s4 k' where k': "disk_search_and_init k = Some k'"
    "mgrows ({a. in_range a (addr_disk k) 20} \<union> item_local k) k [fp, s1, s2, s3, dir, s4] k'"
    "mounted k' img (image_geom img N fp s1 s2) (root_listing img n)"
    by (rule mount_ok [OF assms]) (rule that)
  then show ?thesis using mgrows_fs [OF k'(2)] mgrows_live [OF k'(2)] mgrows_at [OF k'(2)]
    by (intro exI [of _ k'] exI [of _ fp] exI [of _ s1] exI [of _ s2] exI [of _ s3] exI [of _ dir] exI [of _ s4]) simp
qed

text \<open>C40. A disk whose header does not have the signature is refused: the disk is left without a file system and
  the memory of the kernel is as before, but the three streams of the attempt stay allocated.\<close>

theorem mount_refused:
  fixes k :: "'a fs_machine_scheme"
  assumes "kwf k" "5 \<le> kroom k" "ata_holds k img" "statics k" "filesystems k = addr_fat16_fs k # replicate j 0"
    and "img 38 \<noteq> PEACHOS_FAT16_SIGNATURE"
  shows "\<exists>k' s1 s2 s3. disk_search_and_init k = Some k' \<and> disk_filesystem (mem k') (addr_disk k') = 0 \<and>
    disk_fs_private (mem k') (addr_disk k') = 0 \<and> kwf k' \<and> kroom k = kroom k' + 3 \<and>
    klive k' = (\<lambda>p. if p \<in> {s1, s2, s3} then Some 1 else klive k p) \<and>
    (\<forall>a. kept k a \<longrightarrow> \<not> in_range a (addr_disk k) 20 \<longrightarrow> mem k' a = mem k a)"
proof -
  obtain s1 s2 s3 k' where k': "disk_search_and_init k = Some k'" "mgrows {a. in_range a (addr_disk k) 20} k [s1, s2, s3] k'"
    "disk_filesystem (mem k') (addr_disk k) = 0" "disk_fs_private (mem k') (addr_disk k) = 0"
    by (rule refuse_ok [OF assms]) (rule that)
  then show ?thesis using mgrows_fs [OF k'(2)] mgrows_live [OF k'(2)] mgrows_at [OF k'(2)]
    by (intro exI [of _ k'] exI [of _ s1] exI [of _ s2] exI [of _ s3]) simp
qed

theorem mount_correct_witness:
  "\<exists>k' fp s1 s2. disk_search_and_init (mount_machine boot_image) = Some k' \<and>
     mounted k' boot_image (image_geom boot_image 10000 fp s1 s2) [readme_entry, hello_entry]"
proof -
  have "7 \<le> kroom (mount_machine boot_image)" by (simp add: mount_machine_ok)
  from mount_correct [OF mount_machine_ok(1) this mount_machine_ok(3-5) boot_volume] show ?thesis unfolding boot_root by blast
qed

theorem mount_refused_witness:
  "\<exists>k'. disk_search_and_init (mount_machine (\<lambda>_. 0)) = Some k' \<and> disk_filesystem (mem k') (addr_disk k') = 0"
proof -
  have "5 \<le> kroom (mount_machine (\<lambda>_. 0))" by (simp add: mount_machine_ok)
  from mount_refused [OF mount_machine_ok(1) this mount_machine_ok(3-5)] show ?thesis by auto
qed

end
