(* ===== verification/Layout.thy ===== *)
theory Layout
  imports Kernel Tasklist
begin

text \<open>
  The structures of the program as their headers declare them, and the layout the i386 ABI gives them.
  The component theories read and write structures in raw memory at numeric offsets; the lemmas of this
  theory compute those offsets from the declarations.
\<close>

section \<open>C types and their layout\<close>

text \<open>A scalar has its size in bytes; the flag of a structure is \<^verbatim>\<open>__attribute__((packed))\<close>. A member with
  an empty name is an anonymous union, whose members belong to the structure around it.\<close>

datatype ctype =
    Scalar nat
  | Array ctype nat
  | Struct bool "(string \<times> ctype) list"
  | Union "(string \<times> ctype) list"

definition round_up :: "nat \<Rightarrow> nat \<Rightarrow> nat" where
  "round_up o' a = (o' + a - 1) div a * a"

fun align_of :: "ctype \<Rightarrow> nat" and align_members :: "(string \<times> ctype) list \<Rightarrow> nat" where
  "align_of (Scalar n) = n"
| "align_of (Array t n) = align_of t"
| "align_of (Struct packed fs) = (if packed then 1 else align_members fs)"
| "align_of (Union fs) = align_members fs"
| "align_members [] = 1"
| "align_members ((n, t) # fs) = (if align_members fs \<le> align_of t then align_of t else align_members fs)"

text \<open>The offset at which a member of type \<open>t\<close> starts when \<open>o'\<close> bytes are taken.\<close>

definition member_start :: "bool \<Rightarrow> nat \<Rightarrow> ctype \<Rightarrow> nat" where
  "member_start packed o' t = (if packed then o' else round_up o' (align_of t))"

fun size_of :: "ctype \<Rightarrow> nat" and end_of :: "bool \<Rightarrow> nat \<Rightarrow> (string \<times> ctype) list \<Rightarrow> nat"
  and widest :: "(string \<times> ctype) list \<Rightarrow> nat" where
  "size_of (Scalar n) = n"
| "size_of (Array t n) = n * size_of t"
| "size_of (Struct packed fs) = round_up (end_of packed 0 fs) (if packed then 1 else align_members fs)"
| "size_of (Union fs) = round_up (widest fs) (align_members fs)"
| "end_of packed o' [] = o'"
| "end_of packed o' ((n, t) # fs) = end_of packed (member_start packed o' t + size_of t) fs"
| "widest [] = 0"
| "widest ((n, t) # fs) = (if widest fs \<le> size_of t then size_of t else widest fs)"

fun find_in_union :: "string \<Rightarrow> (string \<times> ctype) list \<Rightarrow> (nat \<times> ctype) option" where
  "find_in_union name [] = None"
| "find_in_union name ((n, t) # fs) = (if n = name then Some (0, t) else find_in_union name fs)"

fun find_anonymous :: "string \<Rightarrow> string \<Rightarrow> ctype \<Rightarrow> (nat \<times> ctype) option" where
  "find_anonymous name n (Union us) = (if n = [] then find_in_union name us else None)"
| "find_anonymous name n t = None"

fun find_member :: "bool \<Rightarrow> nat \<Rightarrow> string \<Rightarrow> (string \<times> ctype) list \<Rightarrow> (nat \<times> ctype) option" where
  "find_member packed o' name [] = None"
| "find_member packed o' name ((n, t) # fs) =
     (if n = name then Some (member_start packed o' t, t)
      else case find_anonymous name n t of
          Some (i, u) \<Rightarrow> Some (member_start packed o' t + i, u)
        | None \<Rightarrow> find_member packed (member_start packed o' t + size_of t) name fs)"

datatype selector = Member string | Index nat

fun place :: "ctype \<Rightarrow> selector list \<Rightarrow> (nat \<times> ctype) option" where
  "place t [] = Some (0, t)"
| "place (Struct packed fs) (Member n # path) =
     (case find_member packed 0 n fs of Some (i, t) \<Rightarrow> map_option (\<lambda>(j, u). (i + j, u)) (place t path) | None \<Rightarrow> None)"
| "place (Union fs) (Member n # path) =
     (case find_in_union n fs of Some (i, t) \<Rightarrow> place t path | None \<Rightarrow> None)"
| "place (Array t n) (Index i # path) =
     (if i < n then map_option (\<lambda>(j, u). (i * size_of t + j, u)) (place t path) else None)"
| "place t path = None"

text \<open>Reading a scalar member of the structure at \<open>p\<close>, as an unsigned number of its width.\<close>

definition read_member :: "mem \<Rightarrow> u32 \<Rightarrow> ctype \<Rightarrow> selector list \<Rightarrow> u32 option" where
  "read_member m p t path =
     (case place t path of
        Some (i, Scalar n) \<Rightarrow>
          if n = 4 then Some (load32 m (p + of_nat i))
          else if n = 2 then Some (ucast (load16 m (p + of_nat i)))
          else if n = 1 then Some (ucast (m (p + of_nat i))) else None
      | _ \<Rightarrow> None)"

definition address_of_member :: "u32 \<Rightarrow> ctype \<Rightarrow> selector list \<Rightarrow> u32 option" where
  "address_of_member p t path = map_option (\<lambda>(i, _). p + of_nat i) (place t path)"

abbreviation (input) uint8_t :: ctype where "uint8_t \<equiv> Scalar 1"
abbreviation (input) uint16_t :: ctype where "uint16_t \<equiv> Scalar 2"
abbreviation (input) uint32_t :: ctype where "uint32_t \<equiv> Scalar 4"
abbreviation (input) c_int :: ctype where "c_int \<equiv> Scalar 4"
abbreviation (input) pointer :: ctype where "pointer \<equiv> Scalar 4"

lemmas layout_simps = place.simps find_member.simps find_anonymous.simps find_in_union.simps member_start_def round_up_def

section \<open>Tasks and processes\<close>

definition struct_registers :: ctype where
  "struct_registers = Struct False
     [(''edi'', uint32_t), (''esi'', uint32_t), (''ebp'', uint32_t), (''ebx'', uint32_t), (''edx'', uint32_t),
      (''ecx'', uint32_t), (''eax'', uint32_t), (''ip'', uint32_t), (''cs'', uint32_t), (''flags'', uint32_t),
      (''esp'', uint32_t), (''ss'', uint32_t)]"

definition struct_task :: ctype where
  "struct_task = Struct False
     [(''page_directory'', pointer), (''registers'', struct_registers), (''process'', pointer),
      (''next'', pointer), (''prev'', pointer)]"

definition struct_process_allocation :: ctype where
  "struct_process_allocation = Struct False [(''ptr'', pointer), (''size'', uint32_t)]"

definition struct_command_argument :: ctype where
  "struct_command_argument = Struct False [(''argument'', Array uint8_t 512), (''next'', pointer)]"

definition struct_process_arguments :: ctype where
  "struct_process_arguments = Struct False [(''argc'', c_int), (''argv'', pointer)]"

definition struct_process :: ctype where
  "struct_process = Struct False
     [(''id'', uint16_t), (''filename'', Array uint8_t 108), (''filetype'', uint8_t), (''task'', pointer),
      (''allocations'', Array struct_process_allocation 1024),
      ('''', Union [(''ptr'', pointer), (''elf_file'', pointer)]),
      (''stack'', pointer), (''size'', uint32_t),
      (''keyboard'', Struct False [(''buf'', Array uint8_t 4096), (''tail'', c_int), (''head'', c_int)]),
      (''arguments'', struct_process_arguments)]"

lemma task_layout:
  "size_of struct_task = 64" "size_of struct_registers = 48"
  "read_member m t struct_task [Member ''page_directory''] = Some (task_page_directory m t)"
  "address_of_member t struct_task [Member ''registers''] = Some (task_registers t)"
  "read_member m t struct_task [Member ''process''] = Some (task_process m t)"
  "read_member m t struct_task [Member ''next''] = Some (task_next m t)"
  "read_member m t struct_task [Member ''prev''] = Some (task_prev m t)"
  "read_member m t struct_registers [Member ''esp''] = Some (reg_esp m t)"
  by (simp_all add: struct_task_def struct_registers_def layout_simps read_member_def address_of_member_def
      task_page_directory_def task_registers_def task_process_def task_next_def task_prev_def reg_esp_def)

lemma process_layout:
  "size_of struct_process = 12432"
  "read_member m p struct_process [Member ''filetype''] = Some (ucast (proc_filetype m p))"
  "read_member m p struct_process [Member ''task''] = Some (proc_task m p)"
  "i < 1024 \<Longrightarrow> read_member m p struct_process [Member ''allocations'', Index i, Member ''ptr''] = Some (alloc_ptr m p i)"
  "i < 1024 \<Longrightarrow> read_member m p struct_process [Member ''allocations'', Index i, Member ''size''] = Some (alloc_size m p i)"
  "read_member m p struct_process [Member ''ptr''] = Some (proc_ptr m p)"
  "read_member m p struct_process [Member ''elf_file''] = Some (proc_elf_file m p)"
  "read_member m p struct_process [Member ''stack''] = Some (proc_stack m p)"
  "read_member m p struct_process [Member ''size''] = Some (proc_size m p)"
  "read_member m p struct_process [Member ''keyboard'', Member ''tail''] = Some (kb_tail m p)"
  "read_member m p struct_process [Member ''keyboard'', Member ''head''] = Some (kb_head m p)"
  "read_member m p struct_process [Member ''arguments'', Member ''argc''] = Some (proc_argc m p)"
  "read_member m p struct_process [Member ''arguments'', Member ''argv''] = Some (proc_argv m p)"
  "read_member m p struct_command_argument [Member ''next''] = Some (arg_next m p)"
  by (simp_all add: struct_process_def struct_process_allocation_def struct_process_arguments_def struct_command_argument_def
      layout_simps read_member_def
      proc_filetype_def proc_task_def alloc_ptr_def alloc_size_def alloc_slot_def proc_ptr_def proc_elf_file_def proc_stack_def
      proc_size_def kb_tail_def kb_head_def proc_argc_def proc_argv_def arg_next_def ac_simps)

section \<open>Disk, files and paths\<close>

definition struct_disk :: ctype where
  "struct_disk = Struct False
     [(''type'', uint32_t), (''sector_size'', c_int), (''id'', c_int), (''filesystem'', pointer),
      (''fs_private'', pointer)]"

definition struct_disk_stream :: ctype where
  "struct_disk_stream = Struct False
     [(''pos'', c_int), (''disk'', pointer)]"

definition struct_file_stat :: ctype where
  "struct_file_stat = Struct False
     [(''flags'', uint32_t), (''file_size'', uint32_t)]"

definition struct_filesystem :: ctype where
  "struct_filesystem = Struct False
     [(''resolve'', pointer), (''open'', pointer), (''read'', pointer), (''seek'', pointer),
      (''stat'', pointer), (''close'', pointer), (''name'', Array uint8_t 20)]"

definition struct_file_descriptor :: ctype where
  "struct_file_descriptor = Struct False
     [(''index'', c_int), (''filesystem'', pointer), (''private'', pointer), (''disk'', pointer)]"

definition struct_path_root :: ctype where
  "struct_path_root = Struct False
     [(''drive_no'', c_int), (''first'', pointer)]"

definition struct_path_part :: ctype where
  "struct_path_part = Struct False
     [(''part'', pointer), (''next'', pointer)]"

section \<open>FAT16\<close>

definition struct_fat_header_extended :: ctype where
  "struct_fat_header_extended = Struct True
     [(''drive_number'', uint8_t), (''win_nt_bit'', uint8_t), (''signature'', uint8_t),
      (''volume_id'', uint32_t), (''volume_id_string'', Array uint8_t 11),
      (''sustem_id_string'', Array uint8_t 8)]"

definition struct_fat_header :: ctype where
  "struct_fat_header = Struct True
     [(''short_jmp_ins'', Array uint8_t 3), (''oem_identifier'', Array uint8_t 8),
      (''bytes_per_sector'', uint16_t), (''sectors_per_cluster'', uint8_t),
      (''reserved_sectors'', uint16_t), (''fat_copies'', uint8_t), (''root_dir_entries'', uint16_t),
      (''number_of_sectors'', uint16_t), (''media_type'', uint8_t), (''sectors_per_fat'', uint16_t),
      (''sectors_per_track'', uint16_t), (''number_of_heads'', uint16_t), (''hidden_setors'', uint32_t),
      (''sectors_big'', uint32_t)]"

definition struct_fat_h :: ctype where
  "struct_fat_h = Struct False
     [(''primary_header'', struct_fat_header), (''shared'', Union [(''extended_header'', struct_fat_header_extended)])]"

definition struct_fat_directory_item :: ctype where
  "struct_fat_directory_item = Struct True
     [(''filename'', Array uint8_t 8), (''ext'', Array uint8_t 3), (''attributes'', uint8_t),
      (''reserved'', uint8_t), (''creation_time_tenths_of_a_sec'', uint8_t),
      (''creation_time'', uint16_t), (''creation_date'', uint16_t), (''last_access'', uint16_t),
      (''high_16_bits_first_cluster'', uint16_t), (''last_mod_time'', uint16_t),
      (''last_mod_date'', uint16_t), (''low_16_bits_fist_cluster'', uint16_t), (''file_size'', uint32_t)]"

definition struct_fat_directory :: ctype where
  "struct_fat_directory = Struct False
     [(''item'', pointer), (''total'', c_int), (''sector_pos'', c_int), (''ending_sector_pos'', c_int)]"

definition struct_fat_item :: ctype where
  "struct_fat_item = Struct False [('''', Union [(''item'', pointer), (''directory'', pointer)]), (''type'', uint32_t)]"

definition struct_fat_file_descriptor :: ctype where
  "struct_fat_file_descriptor = Struct False
     [(''item'', pointer), (''pos'', uint32_t)]"

definition struct_fat_private :: ctype where
  "struct_fat_private = Struct False
     [(''header'', struct_fat_h), (''root_directory'', struct_fat_directory),
      (''cluster_read_stream'', pointer), (''fat_read_stream'', pointer), (''directory_stream'', pointer)]"

section \<open>ELF files\<close>

definition struct_elf32_phdr :: ctype where
  "struct_elf32_phdr = Struct True
     [(''p_type'', uint32_t), (''p_offset'', c_int), (''p_vaddr'', uint32_t), (''p_paddr'', uint32_t),
      (''p_filesz'', uint32_t), (''p_memsz'', uint32_t), (''p_flags'', uint32_t), (''p_align'', uint32_t)]"

definition struct_elf32_shdr :: ctype where
  "struct_elf32_shdr = Struct True
     [(''sh_name'', uint32_t), (''sh_type'', uint32_t), (''sh_flags'', uint32_t),
      (''sh_addr'', uint32_t), (''sh_offset'', c_int), (''sh_size'', uint32_t), (''sh_link'', uint32_t),
      (''sh_info'', uint32_t), (''sh_addralign'', uint32_t), (''sh_entsize'', uint32_t)]"

definition struct_elf_header :: ctype where
  "struct_elf_header = Struct True
     [(''e_ident'', Array uint8_t 16), (''e_type'', uint16_t), (''e_machine'', uint16_t),
      (''e_version'', uint32_t), (''e_entry'', uint32_t), (''e_phoff'', c_int), (''e_shoff'', c_int),
      (''e_flags'', uint32_t), (''e_ehsize'', uint16_t), (''e_phentsize'', uint16_t),
      (''e_phnum'', uint16_t), (''e_shentsize'', uint16_t), (''e_shnum'', uint16_t),
      (''e_shstrndx'', uint16_t)]"

definition struct_elf32_dyn :: ctype where
  "struct_elf32_dyn = Struct True
     [(''d_tag'', c_int), (''d_un'', (Union [(''d_val'', uint32_t), (''d_ptr'', uint32_t)]))]"

definition struct_elf32_sym :: ctype where
  "struct_elf32_sym = Struct True
     [(''st_name'', uint32_t), (''st_value'', uint32_t), (''st_size'', uint32_t), (''st_info'', uint8_t),
      (''st_other'', uint8_t), (''st_shndx'', uint16_t)]"

definition struct_elf_file :: ctype where
  "struct_elf_file = Struct False
     [(''filename'', Array uint8_t 108), (''in_memory_size'', c_int), (''elf_memory'', pointer),
      (''virtual_base_address'', pointer), (''virtual_end_address'', pointer),
      (''physical_base_address'', pointer), (''physical_end_address'', pointer)]"

section \<open>Descriptor tables, frames and devices\<close>

definition struct_idt_desc :: ctype where
  "struct_idt_desc = Struct True
     [(''offset_1'', uint16_t), (''selector'', uint16_t), (''zero'', uint8_t), (''type_attr'', uint8_t),
      (''offset_2'', uint16_t)]"

definition struct_idtr_desc :: ctype where
  "struct_idtr_desc = Struct True
     [(''limit'', uint16_t), (''base'', uint32_t)]"

definition struct_interupt_frame :: ctype where
  "struct_interupt_frame = Struct True
     [(''edi'', uint32_t), (''esi'', uint32_t), (''ebp'', uint32_t), (''reserved'', uint32_t),
      (''ebx'', uint32_t), (''edx'', uint32_t), (''ecx'', uint32_t), (''eax'', uint32_t),
      (''ip'', uint32_t), (''cs'', uint32_t), (''flags'', uint32_t), (''esp'', uint32_t),
      (''ss'', uint32_t)]"

definition struct_tss :: ctype where
  "struct_tss = Struct True
     [(''link'', uint32_t), (''esp0'', uint32_t), (''ss0'', uint32_t), (''esp1'', uint32_t),
      (''esp2'', uint32_t), (''ss2'', uint32_t), (''cr3'', uint32_t), (''eip'', uint32_t),
      (''eflags'', uint32_t), (''eax'', uint32_t), (''ecx'', uint32_t), (''edx'', uint32_t),
      (''ebx'', uint32_t), (''esp'', uint32_t), (''ebp'', uint32_t), (''esi'', uint32_t),
      (''edi'', uint32_t), (''es'', uint32_t), (''cs'', uint32_t), (''ss'', uint32_t),
      (''ds'', uint32_t), (''fs'', uint32_t), (''gs'', uint32_t), (''ldtr'', uint32_t),
      (''iopb'', uint32_t)]"

definition struct_gdt :: ctype where
  "struct_gdt = Struct True
     [(''segment'', uint16_t), (''base_first'', uint16_t), (''base'', uint8_t), (''access'', uint8_t),
      (''high_flags'', uint8_t), (''base_24_31_bits'', uint8_t)]"

definition struct_keyboard :: ctype where
  "struct_keyboard = Struct False
     [(''init'', pointer), (''name'', Array uint8_t 20), (''next'', pointer)]"

definition struct_paging_4gb_chunk :: ctype where
  "struct_paging_4gb_chunk = Struct False
     [(''directory_entry'', pointer)]"

section \<open>The accessors follow the declarations\<close>

lemma disk_layout:
  "size_of struct_disk = 20"
  "read_member m p struct_disk [Member ''type''] = Some (disk_type m p)"
  "read_member m p struct_disk [Member ''sector_size''] = Some (disk_sector_size m p)"
  "read_member m p struct_disk [Member ''id''] = Some (disk_id m p)"
  "read_member m p struct_disk [Member ''filesystem''] = Some (disk_filesystem m p)"
  "read_member m p struct_disk [Member ''fs_private''] = Some (disk_fs_private m p)"
  "size_of struct_disk_stream = 8"
  "read_member m p struct_disk_stream [Member ''pos''] = Some (load32 m p)"
  "read_member m p struct_disk_stream [Member ''disk''] = Some (stream_disk m p)"
  by (simp_all add: struct_disk_def struct_disk_stream_def disk_type_def disk_sector_size_def disk_id_def disk_filesystem_def disk_fs_private_def stream_disk_def layout_simps read_member_def)

lemma file_layout:
  "size_of struct_file_stat = 8"
  "read_member m p struct_file_stat [Member ''flags''] = Some (stat_flags m p)"
  "read_member m p struct_file_stat [Member ''file_size''] = Some (stat_file_size m p)"
  "size_of struct_filesystem = 44"
  "size_of struct_file_descriptor = 16"
  "read_member m p struct_file_descriptor [Member ''index''] = Some (desc_index m p)"
  "read_member m p struct_file_descriptor [Member ''filesystem''] = Some (desc_filesystem m p)"
  "read_member m p struct_file_descriptor [Member ''private''] = Some (desc_private m p)"
  "read_member m p struct_file_descriptor [Member ''disk''] = Some (desc_disk m p)"
  "size_of struct_path_root = 8"
  "read_member m p struct_path_root [Member ''drive_no''] = Some (root_drive_no m p)"
  "read_member m p struct_path_root [Member ''first''] = Some (root_first m p)"
  "size_of struct_path_part = 8"
  "read_member m p struct_path_part [Member ''part''] = Some (part_part m p)"
  "read_member m p struct_path_part [Member ''next''] = Some (part_next m p)"
  by (simp_all add: struct_file_stat_def struct_filesystem_def struct_file_descriptor_def struct_path_root_def struct_path_part_def
      stat_flags_def stat_file_size_def desc_index_def desc_filesystem_def desc_private_def desc_disk_def
      root_drive_no_def root_first_def part_part_def part_next_def layout_simps read_member_def)

lemma fat_layout:
  "size_of struct_fat_h = 62"
  "size_of struct_fat_private = 92"
  "size_of struct_fat_directory_item = 32"
  "size_of struct_fat_directory = 16"
  "size_of struct_fat_item = 8"
  "size_of struct_fat_file_descriptor = 8"
  "read_member m p struct_fat_private [Member ''header'', Member ''primary_header'', Member ''sectors_per_cluster''] = Some (sectors_per_cluster m p)"
  "read_member m p struct_fat_private [Member ''header'', Member ''primary_header'', Member ''reserved_sectors''] = Some (reserved_sectors m p)"
  "read_member m p struct_fat_private [Member ''header'', Member ''primary_header'', Member ''fat_copies''] = Some (fat_copies m p)"
  "read_member m p struct_fat_private [Member ''header'', Member ''primary_header'', Member ''root_dir_entries''] = Some (root_dir_entries m p)"
  "read_member m p struct_fat_private [Member ''header'', Member ''primary_header'', Member ''sectors_per_fat''] = Some (sectors_per_fat m p)"
  "read_member m p struct_fat_private [Member ''header'', Member ''shared'', Member ''extended_header'', Member ''signature''] = Some (ucast (header_signature m p))"
  "address_of_member p struct_fat_private [Member ''root_directory''] = Some (root_directory p)"
  "read_member m p struct_fat_private [Member ''cluster_read_stream''] = Some (cluster_read_stream m p)"
  "read_member m p struct_fat_private [Member ''fat_read_stream''] = Some (fat_read_stream m p)"
  "read_member m p struct_fat_private [Member ''directory_stream''] = Some (directory_stream m p)"
  "read_member m p struct_fat_private [Member ''root_directory'', Member ''ending_sector_pos''] = Some (dir_ending_sector_pos m (root_directory p))"
  "read_member m p struct_fat_directory [Member ''item''] = Some (dir_item m p)"
  "read_member m p struct_fat_directory [Member ''total''] = Some (dir_total m p)"
  "read_member m p struct_fat_directory [Member ''ending_sector_pos''] = Some (dir_ending_sector_pos m p)"
  "read_member m p struct_fat_directory_item [Member ''attributes''] = Some (ucast (item_attributes m p))"
  "read_member m p struct_fat_directory_item [Member ''high_16_bits_first_cluster''] = Some (ucast (item_high_cluster m p))"
  "read_member m p struct_fat_directory_item [Member ''low_16_bits_fist_cluster''] = Some (ucast (item_low_cluster m p))"
  "read_member m p struct_fat_directory_item [Member ''file_size''] = Some (item_file_size m p)"
  "read_member m p struct_fat_item [Member ''item''] = Some (fitem_ptr m p)"
  "read_member m p struct_fat_item [Member ''directory''] = Some (fitem_ptr m p)"
  "read_member m p struct_fat_item [Member ''type''] = Some (fitem_type m p)"
  "read_member m p struct_fat_file_descriptor [Member ''item''] = Some (fdesc_item m p)"
  "read_member m p struct_fat_file_descriptor [Member ''pos''] = Some (fdesc_pos m p)"
  by (simp_all add: struct_fat_h_def struct_fat_private_def struct_fat_header_def struct_fat_header_extended_def struct_fat_directory_def
      struct_fat_directory_item_def struct_fat_item_def struct_fat_file_descriptor_def layout_simps read_member_def address_of_member_def
      sectors_per_cluster_def reserved_sectors_def fat_copies_def root_dir_entries_def sectors_per_fat_def header_signature_def
      load8_def load16u_def cluster_read_stream_def fat_read_stream_def directory_stream_def dir_item_def dir_total_def
      dir_ending_sector_pos_def item_attributes_def item_high_cluster_def item_low_cluster_def item_file_size_def fitem_ptr_def
      fitem_type_def fdesc_item_def fdesc_pos_def add.assoc)

lemma elf_layout:
  "size_of struct_elf_header = 52"
  "size_of struct_elf32_phdr = 32"
  "size_of struct_elf32_shdr = 40"
  "size_of struct_elf32_sym = 16"
  "size_of struct_elf32_dyn = 8"
  "size_of struct_elf_file = 132"
  "read_member m p struct_elf_header [Member ''e_type''] = Some (ucast (e_type m p))"
  "read_member m p struct_elf_header [Member ''e_entry''] = Some (e_entry m p)"
  "read_member m p struct_elf_header [Member ''e_phoff''] = Some (e_phoff m p)"
  "read_member m p struct_elf_header [Member ''e_shoff''] = Some (e_shoff m p)"
  "read_member m p struct_elf_header [Member ''e_phnum''] = Some (ucast (e_phnum m p))"
  "read_member m p struct_elf_header [Member ''e_shstrndx''] = Some (ucast (e_shstrndx m p))"
  "read_member m p struct_elf32_phdr [Member ''p_type''] = Some (p_type m p)"
  "read_member m p struct_elf32_phdr [Member ''p_offset''] = Some (p_offset m p)"
  "read_member m p struct_elf32_phdr [Member ''p_vaddr''] = Some (p_vaddr m p)"
  "read_member m p struct_elf32_phdr [Member ''p_filesz''] = Some (p_filesz m p)"
  "read_member m p struct_elf32_phdr [Member ''p_memsz''] = Some (p_memsz m p)"
  "read_member m p struct_elf32_phdr [Member ''p_flags''] = Some (p_flags m p)"
  "read_member m p struct_elf32_shdr [Member ''sh_offset''] = Some (sh_offset m p)"
  "read_member m p struct_elf_file [Member ''elf_memory''] = Some (elf_memory m p)"
  "read_member m p struct_elf_file [Member ''virtual_base_address''] = Some (elf_virtual_base m p)"
  "read_member m p struct_elf_file [Member ''virtual_end_address''] = Some (elf_virtual_end m p)"
  "read_member m p struct_elf_file [Member ''physical_base_address''] = Some (elf_phys_base m p)"
  "read_member m p struct_elf_file [Member ''physical_end_address''] = Some (elf_phys_end m p)"
  by (simp_all add: struct_elf_header_def struct_elf32_phdr_def struct_elf32_shdr_def struct_elf32_sym_def struct_elf32_dyn_def struct_elf_file_def
      e_type_def e_entry_def e_phoff_def e_shoff_def e_phnum_def e_shstrndx_def p_type_def p_offset_def p_vaddr_def p_filesz_def
      p_memsz_def p_flags_def sh_offset_def elf_memory_def elf_virtual_base_def elf_virtual_end_def elf_phys_base_def elf_phys_end_def
      layout_simps read_member_def)

lemma table_layout:
  "size_of struct_idt_desc = 8"
  "size_of struct_idtr_desc = 6"
  "size_of struct_interupt_frame = 52"
  "size_of struct_tss = 100"
  "size_of struct_gdt = 8"
  "read_member m p struct_tss [Member ''esp0''] = Some (tss_esp0 m p)"
  "read_member m p struct_tss [Member ''ss0''] = Some (tss_ss0 m p)"
  "size_of struct_keyboard = 28"
  "read_member m p struct_keyboard [Member ''init''] = Some (kbd_init m p)"
  "size_of struct_paging_4gb_chunk = 4"
  "read_member m p struct_paging_4gb_chunk [Member ''directory_entry''] = Some (directory_entry m p)"
  by (simp_all add: struct_idt_desc_def struct_idtr_desc_def struct_interupt_frame_def struct_tss_def struct_gdt_def struct_keyboard_def
      struct_paging_4gb_chunk_def tss_esp0_def tss_ss0_def kbd_init_def directory_entry_def layout_simps read_member_def)

text \<open>The registers saved from an interrupt: the member of the task with each name gets the member of the
  frame with the same name.\<close>

definition register_names :: "string list" where
  "register_names = [''edi'', ''esi'', ''ebp'', ''ebx'', ''edx'', ''ecx'', ''eax'', ''ip'', ''cs'', ''flags'', ''esp'', ''ss'']"

definition frame_offsets :: "nat list" where
  "frame_offsets = [0, 4, 8, 16, 20, 24, 28, 32, 36, 40, 44, 48]"

lemma register_places:
  "list_all2 (\<lambda>n o'. place struct_interupt_frame [Member n] = Some (o', uint32_t)) register_names frame_offsets"
  "list_all2 (\<lambda>n i. place struct_task [Member ''registers'', Member n] = Some (4 + 4 * i, uint32_t)) register_names [0..<12]"
  by (simp_all add: register_names_def frame_offsets_def struct_interupt_frame_def struct_task_def struct_registers_def layout_simps
      upt_rec)

lemma named_registers:
  assumes "\<forall>i < 12. load32 m' (task_registers t + 4 * of_nat i) = load32 m (frame + of_nat (frame_offsets ! i))" "n \<in> set register_names"
  shows "read_member m' t struct_task [Member ''registers'', Member n] = read_member m frame struct_interupt_frame [Member n]"
proof -
  have "length register_names = 12" by (simp add: register_names_def)
  with assms(2) obtain i where i: "i < 12" "n = register_names ! i" by (auto simp: in_set_conv_nth)
  then have "place struct_task [Member ''registers'', Member n] = Some (4 + 4 * i, uint32_t)"
    "place struct_interupt_frame [Member n] = Some (frame_offsets ! i, uint32_t)"
    using list_all2_nthD2 [OF register_places(2), of i] list_all2_nthD [OF register_places(1), of i] \<open>length register_names = 12\<close>
    by simp_all
  with assms(1) i(1) show ?thesis by (simp add: read_member_def task_registers_def add.assoc)
qed

section \<open>Properties\<close>

text \<open>C19. When a task is interrupted, each of its twelve registers gets the value of the member of the same
  name in the frame that the processor and the handler pushed, although the two structures order and
  space their members differently. The directory, the process and the links of the task and all memory
  outside its block stay as they are.\<close>

theorem registers_saved_by_name:
  assumes "page_al t" "\<forall>j < 52. \<not> in_range (frame + of_nat j) t 4096"
  shows "(\<forall>n \<in> set register_names. read_member (task_save_state t frame m) t struct_task [Member ''registers'', Member n] =
      read_member m frame struct_interupt_frame [Member n]) \<and>
    task_page_directory (task_save_state t frame m) t = task_page_directory m t \<and>
    task_process (task_save_state t frame m) t = task_process m t \<and>
    task_next (task_save_state t frame m) t = task_next m t \<and> task_prev (task_save_state t frame m) t = task_prev m t \<and>
    (\<forall>a. \<not> in_range a t 4096 \<longrightarrow> task_save_state t frame m a = m a)"
  using save_state_facts [OF assms, folded frame_offsets_def] named_registers by blast

theorem registers_saved_by_name_witness:
  "read_member (task_save_state 0x1000 0x9000 (store32 (\<lambda>_. 0) 0x9020 0x400000)) 0x1000 struct_task
     [Member ''registers'', Member ''ip''] = Some 0x400000"
proof -
  have "\<not> in_range (0x9000 + of_nat j) 0x1000 4096" if "j < 52" for j
  proof -
    have "unat (0x9000 + of_nat j :: u32) = 0x9000 + j"
      using unat_of_nat_u32 [of j] that by (intro unat_add_small [THEN trans]) simp_all
    then show ?thesis by (simp add: in_range_def)
  qed
  then have "\<forall>j < 52. \<not> in_range (0x9000 + of_nat j) 0x1000 4096" by blast
  moreover have "page_al 0x1000" by (simp add: page_al_def)
  ultimately have "\<forall>n \<in> set register_names.
      read_member (task_save_state 0x1000 0x9000 (store32 (\<lambda>_. 0) 0x9020 0x400000)) 0x1000 struct_task [Member ''registers'', Member n] =
      read_member (store32 (\<lambda>_. 0) 0x9020 0x400000) 0x9000 struct_interupt_frame [Member n]"
    using registers_saved_by_name [of "0x1000" "0x9000" "store32 (\<lambda>_. 0) 0x9020 0x400000"] by blast
  then show ?thesis
    by (simp add: register_names_def) (simp add: struct_interupt_frame_def layout_simps read_member_def)
qed

text \<open>The offsets at which the program's structures are read are those the i386 ABI gives to their
  declarations: alignment of each member, no padding in packed structures, anonymous unions sharing one
  place. The blocks allocated for them have the size of the structure.\<close>

theorem structures_as_declared:
  "size_of struct_process = 12432 \<and> read_member m p struct_process [Member ''filetype''] = Some (ucast (proc_filetype m p)) \<and>
   read_member m p struct_process [Member ''task''] = Some (proc_task m p) \<and>
   read_member m p struct_process [Member ''ptr''] = Some (proc_ptr m p) \<and>
   read_member m p struct_process [Member ''elf_file''] = Some (proc_elf_file m p) \<and>
   read_member m p struct_process [Member ''keyboard'', Member ''tail''] = Some (kb_tail m p) \<and>
   read_member m p struct_process [Member ''keyboard'', Member ''head''] = Some (kb_head m p) \<and>
   read_member m p struct_process [Member ''arguments'', Member ''argv''] = Some (proc_argv m p) \<and>
   size_of struct_task = 64 \<and> read_member m p struct_task [Member ''next''] = Some (task_next m p) \<and>
   read_member m p struct_task [Member ''prev''] = Some (task_prev m p) \<and>
   size_of struct_fat_private = 92 \<and>
   read_member m p struct_fat_private [Member ''header'', Member ''primary_header'', Member ''sectors_per_fat''] = Some (sectors_per_fat m p) \<and>
   read_member m p struct_fat_private [Member ''header'', Member ''shared'', Member ''extended_header'', Member ''signature''] =
     Some (ucast (header_signature m p)) \<and>
   read_member m p struct_fat_private [Member ''directory_stream''] = Some (directory_stream m p) \<and>
   size_of struct_fat_directory_item = 32 \<and>
   read_member m p struct_fat_directory_item [Member ''file_size''] = Some (item_file_size m p) \<and>
   size_of struct_file_descriptor = 16 \<and> size_of struct_elf_file = 132 \<and>
   read_member m p struct_elf_file [Member ''physical_end_address''] = Some (elf_phys_end m p) \<and>
   size_of struct_elf_header = 52 \<and> read_member m p struct_elf_header [Member ''e_phnum''] = Some (ucast (e_phnum m p)) \<and>
   size_of struct_elf32_phdr = 32 \<and> read_member m p struct_elf32_phdr [Member ''p_flags''] = Some (p_flags m p) \<and>
   size_of struct_interupt_frame = 52 \<and> size_of struct_tss = 100 \<and> size_of struct_idt_desc = 8"
  by (simp only: process_layout task_layout fat_layout elf_layout file_layout table_layout simp_thms)

end
