(* ===== verification/Spec2Isabelle.thy ===== *)
theory Spec2Isabelle
  imports Kernel Programs Readline Words Dispatch Elfscan Copyin Mount Layout
begin

text \<open>
  A verification of PeachOS, a 32-bit operating system kernel in C for the i386 with a library for its
  user programs, a shell and one more program. All file names below are relative to the repository.

  The program. \<^verbatim>\<open>src/kernel.asm\<close> enters \<^verbatim>\<open>kernel_main\<close> of \<^verbatim>\<open>src/kernel.c\<close>, which sets up the text console, the
  segment descriptors, the kernel heap, the file systems and the disk, the interrupt table, the task state
  segment, paging, the system calls and the keyboard, then loads the shell as process 0 and leaves for its
  first task. From then on the kernel runs only in interrupts. Of the 512 gates two do something: the keyboard
  puts a character into the buffer of the current process, and \<open>int 0x80\<close> runs one of nine system calls, which
  read their arguments from the stack of the task through its page tables. No callback is registered for the timer
  or for an exception, so a task runs until it makes a system call that leaves it; the only caller of
  \<open>task_get_next\<close> is the removal of a task from the list. A process owns a page directory, a stack, the file it was loaded from, its
  arguments and up to 1024 allocations, all of them runs of blocks of the one kernel heap; loading a program
  reads it through the file layer, the FAT16 driver, the disk stream and the disk driver.

  Theories. The state of the kernel is one record that grows with the components, and a theory takes any
  extension of the record it needs, so that operations compose as the calls of the code do.

    \<^item> Prelude: word types, \<^verbatim>\<open>src/status.h\<close>, \<^verbatim>\<open>src/config.h\<close>, the error macros of \<^verbatim>\<open>src/kernel.h\<close>, shared lemmas.
    \<^item> Allocator: the interface of a block allocator (locales \<open>allocator\<close> and \<open>page_allocator\<close>).
    \<^item> Heap (\<^verbatim>\<open>src/memory/heap/heap.c\<close>): \<open>heap\<close> with its table of entries. Interpretation \<open>blocks\<close>.
    \<^item> Memory (\<^verbatim>\<open>src/memory/memory.c\<close>) and Cstring (\<^verbatim>\<open>src/string/string.c\<close>): bytes and strings in raw memory.
    \<^item> Console: the terminal functions and \<open>panic\<close> of \<^verbatim>\<open>src/kernel.c\<close>; the record \<open>console\<close>.
    \<^item> Kheap (\<^verbatim>\<open>src/memory/heap/kheap.c\<close>): the record \<open>machine\<close> (console, heap, memory); interpretation \<open>kalloc\<close>.
      Pages holds the facts about page-sized blocks of raw memory it shares with the page tables.
    \<^item> Paging (\<^verbatim>\<open>src/memory/paging/paging.c\<close>): \<open>paging_machine\<close> adds the current directory and the control
      registers. Locales \<open>page_map\<close> and \<open>framed_page_map\<close>, interpretation \<open>pages\<close>.
    \<^item> Pparser (\<^verbatim>\<open>src/fs/pparser.c\<close>): paths as a root and a linked list of parts.
    \<^item> Disk (\<^verbatim>\<open>src/disk/disk.c\<close>) and Streamer (\<^verbatim>\<open>src/disk/streamer.c\<close>): \<open>io_machine\<close> adds the ports.
    \<^item> Fat16 (\<^verbatim>\<open>src/fs/fat/fat16.c\<close>) and File (\<^verbatim>\<open>src/fs/file.c\<close>): \<open>fs_machine\<close> adds the two tables of the file
      layer. Descriptors is about those tables, Fatread about reading an open file, Openitem about the tagged union,
      Fopen about opening a file by its name, Mount about the way from the disk to a volume in use.
    \<^item> Elf (\<^verbatim>\<open>src/loader/formats\<close>): the loader; Elfscan says what it computes.
    \<^item> Task (\<^verbatim>\<open>src/task/task.c\<close>): \<open>task_machine\<close>. Tasklist is about the list of tasks, Copyin about reading a
      string of a task.
    \<^item> Process (\<^verbatim>\<open>src/task/process.c\<close>): \<open>proc_machine\<close>. Procmem is about the memory of a process.
    \<^item> Gdt (\<^verbatim>\<open>src/gdt/gdt.c\<close>); Keyboard (\<^verbatim>\<open>src/keyboard\<close>), with the locale \<open>char_queue\<close>, interpretation \<open>kb\<close>.
    \<^item> Isr80h (\<^verbatim>\<open>src/isr80h\<close>): the nine system calls. Idt (\<^verbatim>\<open>src/idt/idt.c\<close>): \<open>idt_machine\<close> adds the interrupt
      tables. Dispatch ties gates, system calls and keys to their handlers.
    \<^item> Kernel (\<^verbatim>\<open>src/kernel.c\<close>): \<open>kernel_machine\<close> and the boot sequence.
    \<^item> Layout: the structures as the headers declare them; it computes every offset, size and alignment the
      other theories use as numbers.
    \<^item> Ulib (\<^verbatim>\<open>programs/stdlib/src\<close>): the library of user programs on \<open>user_machine\<close>. Itoa, Readline and Words are
      about number formatting, line editing and splitting. Programs: \<^verbatim>\<open>programs/shell\<close> and \<^verbatim>\<open>programs/blank\<close>.

  Correspondence. A definition has the name of its C function (with a suffix where HOL has taken it), takes the
  arguments in the same order and then the state, and returns the value and the new state. Structures a
  pointer reaches are bytes of \<open>mem\<close>, read and written with \<open>load8\<close>, \<open>load16\<close>, \<open>load32\<close> and their stores at the
  offset of the field, so that aliasing is what it is in C; a static that no pointer reaches is a field of the
  state, and the address of one that is reached is a field too, since the linker chooses it. Integers have the
  width of the C type and wrap. A function whose body may fail to come back (\<open>panic\<close>, a loop without exit, a
  division by zero), or that leaves the table it manages, or reads a variable before it is set, returns an
  option, and \<open>None\<close> is that outcome.
  A local variable whose address is taken lies at \<open>local_addr\<close> and a theorem that relies on it assumes that it
  overlaps nothing else.

  Loops. A loop over an index is recursion on a number of rounds taken from the loop's own bound: the count of
  the loop, or 65536 where the bound is a 16-bit field of an ELF header, which no such loop exceeds. A scan
  that memory alone can stop (strings, lists, waiting for the disk) is a \<open>partial_function\<close>, so that never
  stopping is \<open>None\<close>; where a theorem says that such a loop ends it says so with \<open>Some\<close>, as
  \<open>elf_process_loaded_correct\<close>, \<open>fread_correct\<close>, \<open>pathparser_parse_correct\<close> and \<open>strtok_splits\<close> do.

  What is proved.
    \<^item> Memory management. For a size that is not 0 and does not wrap when it is rounded up, the heap hands out
      blocks that are not in use and keeps its table well formed; for the other sizes it reserves nothing, and may
      return a pointer all the same. It refines
      first fit on a list of chunks; without a run long enough it fails, unless the table ends in a free block,
      when it writes past the table; freeing undoes allocating.
      \<open>kalloc\<close> carries these laws to raw memory, \<open>kzalloc\<close> zeroes exactly the blocks it returns. A page table
      maps what was put in and nothing else changes; a fresh directory is the identity; freeing it gives back
      its blocks. A process gets a block of the heap whose pages become accessible in the directory of its task; when
      it frees the block the heap and the table of its allocations are as before, and the pages are not present.
    \<^item> Files. A sector read is the sector of the image, a stream read any range of it. A disk with a FAT16 image
      is mounted, one without its signature refused. \<open>fopen\<close> finds a file of the root directory by its name, and
      \<open>fread\<close> delivers the bytes of the file as the format defines it (\<open>file_byte\<close>), in the first cluster
      without a condition and further on where the links lie at the places in which the code looks for them (\<open>links_seen\<close>);
      \<open>next_cluster_lookup\<close> says what it takes for a link elsewhere. A path is parsed into its parts and freed.
      The tables of files and processes hand out free slots only. Operations on an open file respect its tag.
    \<^item> Tasks and interrupts. The tasks stay a doubly linked list under linking, unlinking and
      switching, whatever their blocks held before. The gates, the system calls and the way of a key press are what the
      tables say; the keyboard buffer refines a bounded queue; registers are saved under their own names;
      a string of a task reaches the kernel through the task's page tables, which are left as they were.
    \<^item> Loading. The ELF checks end, and compute the bounds of the segments.
    \<^item> User side. \<open>itoa\<close> prints the number, \<open>readline\<close> is line editing, \<open>strtok\<close> is splitting at one delimiter.
  The proofs of the components go through the laws of the locales where a component relies on another:
  \<open>kalloc\<close> for whatever allocates, \<open>pages\<close> for whatever maps, \<open>kb\<close> for the buffer.

  Hypotheses about what is not source. \<open>ata_holds\<close>: after a read command some poll
  of the status reports the data request bit (\<open>data_request\<close>), and from such a poll on the data port
  delivers the words of the sector in order. Nothing is promised of words read before a poll has seen the bit, so
  the theorems rest on the polling loop. \<open>mmu_holds\<close>: the processor translates a present page as
  its tables say. The kernel a user program calls is a function of the calls made so far. The witnesses satisfy
  each of them with a concrete device, translation and kernel.

  The table of the heap. In C its 25600 bytes lie at \<open>0x7E00\<close> in the memory that every pointer can reach. Here
  \<open>kheap_init\<close> clears them in \<open>mem\<close>, and from then on the table is the list in \<open>kernel_heap\<close>: the bytes of \<open>mem\<close>
  at that place stand for nothing, and a program that reads or overwrites the table through a stray pointer is not
  described.

  Not modelled: \<^verbatim>\<open>src/boot/boot.asm\<close> (16-bit code that loads the image), the entry code of \<^verbatim>\<open>src/kernel.asm\<close>, and
  the stubs of \<^verbatim>\<open>src/idt/idt.asm\<close> and \<^verbatim>\<open>src/task/task.asm\<close> except for their effect on the state that C code reads
  (the saved frame, the segment registers, the task returned to); \<^verbatim>\<open>programs/stdlib/src/start.asm\<close>; linker
  scripts and addresses; page faults, privilege checks and timing; an interrupt in the middle of a kernel
  function, which cannot happen since the gates clear the interrupt flag.
\<close>

end
